(* ===== verification/Prelude.thy ===== *)
theory Prelude
  imports Main "HOL-Library.Word"
begin

text \<open>
  Shared vocabulary of the development: the machine types of the Rust sources, the
  result type with the \<open>?\<close> operator, sub-slices of a byte buffer, and the big-endian
  byte orders of the standard library together with the lemmas that make them inverse.

  Correspondence with Rust: \<open>u8\<close>, \<open>u16\<close>, \<open>u32\<close>, \<open>u64\<close> and \<open>i64\<close> are words of the
  same width (an \<open>i64\<close> is read with \<open>sint\<close> and shifted with \<open>signed_drop_bit\<close>);
  \<open>usize\<close> is \<open>nat\<close>, with the casts to narrower types written out as words;
  \<open>Vec<u8>\<close> and \<open>&[u8]\<close> are \<open>bytes\<close>; \<open>Result<T, E>\<close> is \<open>'e + 't\<close> with \<open>Inl\<close> the error.
\<close>

unbundle bit_operations_syntax

section \<open>Machine types\<close>

type_synonym u8 = "8 word"
type_synonym u16 = "16 word"
type_synonym u32 = "32 word"
type_synonym u64 = "64 word"
type_synonym i64 = "64 word"
type_synonym bytes = "u8 list"

named_theorems wire_simps \<open>rewrite rules that evaluate codecs on encoded input\<close>
named_theorems size_simps \<open>encoded sizes and lengths\<close>

section \<open>Results and the \<open>?\<close> operator\<close>

definition try_bind :: "'e + 'a \<Rightarrow> ('a \<Rightarrow> 'e + 'b) \<Rightarrow> 'e + 'b" where
  "try_bind m f = (case m of Inl e \<Rightarrow> Inl e | Inr x \<Rightarrow> f x)"

definition map_err :: "('e \<Rightarrow> 'f) \<Rightarrow> 'e + 'a \<Rightarrow> 'f + 'a" where
  "map_err g m = (case m of Inl e \<Rightarrow> Inl (g e) | Inr x \<Rightarrow> Inr x)"

lemma try_bind_simps [simp]:
  "try_bind (Inl e) f = Inl e"
  "try_bind (Inr x) f = f x"
  by (simp_all add: try_bind_def)

lemma map_err_simps [simp]:
  "map_err g (Inl e) = Inl (g e)"
  "map_err g (Inr x) = Inr x"
  by (simp_all add: map_err_def)

lemma try_bind_Inr_iff:
  "try_bind m f = Inr y \<longleftrightarrow> (\<exists>x. m = Inr x \<and> f x = Inr y)"
  by (cases m) auto

lemma try_bind_Inl_iff:
  "try_bind m f = Inl e \<longleftrightarrow> m = Inl e \<or> (\<exists>x. m = Inr x \<and> f x = Inl e)"
  by (cases m) auto

lemma map_err_Inr_iff [simp]: "map_err g m = Inr y \<longleftrightarrow> m = Inr y"
  by (cases m) auto

lemma try_bind_cong [fundef_cong]:
  "m = m' \<Longrightarrow> (\<And>x. m' = Inr x \<Longrightarrow> f x = f' x) \<Longrightarrow> try_bind m f = try_bind m' f'"
  by (cases m') auto

section \<open>Sub-slices\<close>

text \<open>\<open>subslice i j xs\<close> is Rust's \<open>&xs[i..j]\<close>; every use is guarded by \<open>i \<le> j \<le> len\<close>.\<close>

definition subslice :: "nat \<Rightarrow> nat \<Rightarrow> 'a list \<Rightarrow> 'a list" where
  "subslice i j xs = take (j - i) (drop i xs)"

lemma length_subslice [simp]: "j \<le> length xs \<Longrightarrow> length (subslice i j xs) = j - i"
  by (simp add: subslice_def)

lemma subslice_append [simp]:
  "subslice (length xs) (length xs + length ys) (xs @ ys @ zs) = ys"
  by (simp add: subslice_def)

lemma subslice_full [simp]: "subslice 0 (length xs) xs = xs"
  by (simp add: subslice_def)

lemma drop_eq_Cons_nth:
  "drop i xs = y # ys \<Longrightarrow> i < length xs \<and> xs ! i = y \<and> drop (Suc i) xs = ys"
  by (cases "i < length xs") (auto simp: Cons_nth_drop_Suc [symmetric])

lemma length_concat_map:
  "(\<And>x. x \<in> set xs \<Longrightarrow> length (f x) = g x) \<Longrightarrow> length (concat (map f xs)) = sum_list (map g xs)"
  by (induction xs) auto

section \<open>Word facts\<close>

lemma take_bit_as_AND: "w AND mask n = take_bit n (w :: 'a::len word)"
  by (simp add: take_bit_eq_mask)

lemma unat_take_bit [simp]: "unat (take_bit n (w :: 'a::len word)) = unat w mod 2 ^ n"
  by (simp add: unsigned_take_bit_eq flip: take_bit_eq_mod)

lemma unat_drop_bit_div: "unat (drop_bit n (w :: 'a::len word)) = unat w div 2 ^ n"
  by (simp add: unat_drop_bit_eq flip: drop_bit_eq_div)

lemma unat_word_bound: "unat (w :: 'a::len word) < 2 ^ LENGTH('a)"
  by (rule unsigned_less)

lemma unat_u8_bound [simp]: "unat (b :: u8) < 256"
  using unat_word_bound [of b] by simp

lemma unat_inject: "unat v = unat w \<Longrightarrow> v = w"
  by (simp add: word_unat_eq_iff)

lemma unat_of_nat_small: "n < 2 ^ LENGTH('a) \<Longrightarrow> unat (of_nat n :: 'a::len word) = n"
  by (simp add: unsigned_of_nat take_bit_nat_eq_self_iff)

lemma unat_push_or:
  fixes v :: "'a::len word"
  assumes "unat y < 2 ^ k"
  shows "unat (push_bit k v OR y) = (unat v * 2 ^ k + unat y) mod 2 ^ LENGTH('a)"
proof -
  have "\<not> bit y n" if "n \<ge> k" for n
  proof -
    have "unat y < 2 ^ n"
      using assms that power_increasing [of k n "2::nat"] by linarith
    then have "\<not> bit (unat y) n"
      by (simp add: bit_nat_def)
    then show ?thesis
      by (simp add: bit_unsigned_iff)
  qed
  then have "push_bit k v AND y = 0"
    by (intro bit_word_eqI) (auto simp: bit_simps)
  then have "push_bit k v OR y = push_bit k v + y"
    by (simp add: disjunctive_add_eq_or)
  then show ?thesis
    by (simp add: unat_word_ariths unsigned_push_bit_eq push_bit_nat_def mod_add_left_eq
        take_bit_nat_def)
qed

lemma nat_push_or: "m < 2 ^ k \<Longrightarrow> push_bit k (n :: nat) OR m = n * 2 ^ k + m"
proof -
  assume m: "m < 2 ^ k"
  have "\<not> bit m i" if "k \<le> i" for i
  proof -
    have "m < 2 ^ i"
      using m power_increasing [OF that, of "2::nat"] by linarith
    then show ?thesis by (simp add: bit_nat_def)
  qed
  then have "push_bit k n AND m = 0"
    by (intro bit_eqI) (auto simp: bit_simps)
  then show ?thesis
    using disjunctive_add_eq_or [of "push_bit k n" m] by (simp add: push_bit_nat_def)
qed

lemma word_less_exp_bits:
  fixes w :: "'a::len word"
  assumes "unat w < 2 ^ k" "k \<le> n"
  shows "\<not> bit w n"
proof -
  have "unat w < 2 ^ n" using assms power_increasing [of k n "2::nat"] by linarith
  then have "\<not> bit (unat w) n" by (simp add: bit_nat_def)
  then show ?thesis by (simp add: bit_unsigned_iff)
qed

text \<open>Horner step on octets: what one more octet adds to a big-endian number.\<close>

lemma octet_horner: "(n div 2 ^ (k + 8)) * 256 + n div 2 ^ k mod 256 = n div 2 ^ k" for n :: nat
  using div_mult_mod_eq [of "n div 2 ^ k" 256] by (simp add: power_add div_mult2_eq)

text \<open>Bits of the constants the sources mask and set with.\<close>

lemma bit_power2_word: "bit (2 ^ k :: 'a::len word) n \<longleftrightarrow> n = k \<and> k < LENGTH('a)"
  by (auto simp: bit_exp_iff)

lemma bit_mask_word: "bit (mask k :: 'a::len word) n \<longleftrightarrow> n < k \<and> n < LENGTH('a)"
  by (auto simp: bit_mask_iff)

lemma bit_u8_0x80 [simp]: "bit (0x80 :: u8) n \<longleftrightarrow> n = 7"
  using bit_power2_word [of 7 n, where ?'a = 8] by simp

lemma bit_u8_0x20 [simp]: "bit (0x20 :: u8) n \<longleftrightarrow> n = 5"
  using bit_power2_word [of 5 n, where ?'a = 8] by simp

lemma bit_u8_0xc0 [simp]: "bit (0xc0 :: u8) n \<longleftrightarrow> n = 6 \<or> n = 7"
proof -
  have e: "(0xc0 :: u8) = 2 ^ 6 OR 2 ^ 7" by simp
  show ?thesis by (simp only: e bit_or_iff bit_power2_word) simp
qed

lemma bit_u8_0x7f [simp]: "bit (0x7f :: u8) n \<longleftrightarrow> n < 7"
  using bit_mask_word [of 7 n, where ?'a = 8] by (auto simp: mask_eq_exp_minus_1)

lemma bit_u8_0x1f [simp]: "bit (0x1f :: u8) n \<longleftrightarrow> n < 5"
  using bit_mask_word [of 5 n, where ?'a = 8] by (auto simp: mask_eq_exp_minus_1)

lemma bit_u8_3 [simp]: "bit (3 :: u8) n \<longleftrightarrow> n < 2"
  using bit_mask_word [of 2 n, where ?'a = 8] by (auto simp: mask_eq_exp_minus_1)

lemma bit_u32_0x7f [simp]: "bit (0x7f :: u32) n \<longleftrightarrow> n < 7"
  using bit_mask_word [of 7 n, where ?'a = 32] by (auto simp: mask_eq_exp_minus_1)

declare bit_numeral_word_iff [simp del]

lemmas octet_bits = bit_and_iff bit_or_iff bit_push_bit_iff bit_drop_bit_eq bit_take_bit_iff
  bit_word_ucast_iff bit_word_scast_iff bit_signed_drop_bit_iff

section \<open>Big-endian byte orders\<close>

text \<open>
  \<open>be_bytes n w\<close> is the \<open>n\<close> low octets of \<open>w\<close>, most significant first;
  \<open>u16::to_be_bytes\<close> and its relatives are \<open>to_be_bytes\<close>, and \<open>from_be_bytes\<close> is
  the loop \<open>v = (v << 8) | b\<close> from zero.
\<close>

definition be_bytes :: "nat \<Rightarrow> 'a::len word \<Rightarrow> bytes" where
  "be_bytes n w = map (\<lambda>i. ucast (drop_bit (8 * i) w)) (rev [0..<n])"

definition to_be_bytes :: "'a::len word \<Rightarrow> bytes" where
  "to_be_bytes w = be_bytes (LENGTH('a) div 8) w"

definition be_fold :: "'a::len word \<Rightarrow> bytes \<Rightarrow> 'a word" where
  "be_fold = foldl (\<lambda>v b. push_bit 8 v OR ucast b)"

definition from_be_bytes :: "bytes \<Rightarrow> 'a::len word" where
  "from_be_bytes = be_fold 0"

lemma be_fold_simps [simp]:
  "be_fold v [] = v"
  "be_fold v (b # bs) = be_fold (push_bit 8 v OR ucast b) bs"
  by (simp_all add: be_fold_def)

lemma be_bytes_0 [simp]: "be_bytes 0 w = []"
  by (simp add: be_bytes_def)

lemma be_bytes_Suc: "be_bytes (Suc n) w = ucast (drop_bit (8 * n) w) # be_bytes n w"
  by (simp add: be_bytes_def)

lemma length_be_bytes [simp, size_simps]: "length (be_bytes n w) = n"
  by (simp add: be_bytes_def)

lemma length_to_be_bytes [simp, size_simps]:
  "length (to_be_bytes (w :: 'a::len word)) = LENGTH('a) div 8"
  by (simp add: to_be_bytes_def)

lemma push_or_octet:
  fixes w :: "'a::len word"
  shows "push_bit 8 (drop_bit (k + 8) w) OR ucast (ucast (drop_bit k w) :: u8) = drop_bit k w"
  by (rule bit_word_eqI) (auto simp: bit_simps not_less add.commute le_add_diff_inverse)

lemma be_fold_be_bytes:
  fixes w :: "'a::len word"
  shows "be_fold (drop_bit (8 * n) w) (be_bytes n w) = w"
proof (induction n)
  case 0
  show ?case by simp
next
  case (Suc n)
  have "push_bit 8 (drop_bit (8 * Suc n) w) OR ucast (ucast (drop_bit (8 * n) w) :: u8)
      = drop_bit (8 * n) w"
    using push_or_octet [of "8 * n" w] by (simp add: add.commute)
  then show ?case using Suc by (simp add: be_bytes_Suc)
qed

lemma drop_bit_all:
  "LENGTH('a) \<le> k \<Longrightarrow> drop_bit k (w :: 'a::len word) = 0"
  by (rule bit_word_eqI) (auto simp: bit_simps dest: bit_imp_le_length)

lemma from_be_bytes_be_bytes [simp, wire_simps]:
  fixes w :: "'a::len word"
  assumes "LENGTH('a) \<le> 8 * n"
  shows "from_be_bytes (be_bytes n w) = w"
  using be_fold_be_bytes [of n w] drop_bit_all [OF assms, of w]
  by (simp add: from_be_bytes_def)

lemma to_be_bytes_16: "to_be_bytes (w :: u16) = [ucast (drop_bit 8 w), ucast w]"
  by (simp add: to_be_bytes_def be_bytes_def upt_conv_Cons)

lemma to_be_bytes_32:
  "to_be_bytes (w :: u32) =
     [ucast (drop_bit 24 w), ucast (drop_bit 16 w), ucast (drop_bit 8 w), ucast w]"
  by (simp add: to_be_bytes_def be_bytes_def upt_conv_Cons)

lemma from_to_be_bytes_16 [simp, wire_simps]: "from_be_bytes (to_be_bytes (w :: u16)) = w"
  by (simp add: to_be_bytes_def)

lemma from_to_be_bytes_32 [simp, wire_simps]: "from_be_bytes (to_be_bytes (w :: u32)) = w"
  by (simp add: to_be_bytes_def)

lemma from_to_be_bytes_64 [simp, wire_simps]: "from_be_bytes (to_be_bytes (w :: u64)) = w"
  by (simp add: to_be_bytes_def)

lemma from_to_be_bytes_16_list [simp, wire_simps]:
  "from_be_bytes [ucast (drop_bit 8 w), ucast w] = (w :: u16)"
  using from_to_be_bytes_16 [of w] by (simp only: to_be_bytes_16)

text \<open>The numeric value of a big-endian fold, with the wrap-around written out.\<close>

lemma unat_be_step:
  assumes "8 \<le> LENGTH('a)"
  shows "unat (push_bit 8 (v :: 'a::len word) OR ucast (b :: u8)) =
    (unat v * 256 + unat b) mod 2 ^ LENGTH('a)"
proof -
  have "(256::nat) \<le> 2 ^ LENGTH('a)"
    using power_increasing [OF assms, of "2::nat"] by simp
  then have "unat b < 2 ^ LENGTH('a)"
    using unat_u8_bound [of b] by linarith
  then have "unat (ucast b :: 'a word) = unat b"
    by (simp add: unsigned_ucast_eq take_bit_nat_eq_self_iff)
  then show ?thesis
    using unat_push_or [of "ucast b" 8 v] by simp
qed

end
