(* ===== verification/Asn1_Tag.thy ===== *)
theory Asn1_Tag
  imports Prelude
begin

text \<open>
  The identifier and length octets of the BER runtime, \<open>src/asn1/mod.rs\<close>: tag classes
  and tags, the errors of the decoder, \<open>append_tag\<close>, \<open>append_length\<close>, \<open>append_tlv\<close>
  and the size functions the builders rely on.

  An \<open>append_*\<close> function of the source extends a buffer; here it is the list of octets
  it appends, and appending is \<open>@\<close>.
\<close>

section \<open>Tags and errors\<close>

datatype tag_class = Universal | Application | ContextSpecific | Private

primrec class_code :: "tag_class \<Rightarrow> u8" where
  "class_code Universal = 0"
| "class_code Application = 1"
| "class_code ContextSpecific = 2"
| "class_code Private = 3"

definition from_bits :: "u8 \<Rightarrow> tag_class" where
  "from_bits b =
     (if b AND 3 = 0 then Universal
      else if b AND 3 = 1 then Application
      else if b AND 3 = 2 then ContextSpecific
      else Private)"

record tag =
  tag_cls :: tag_class
  constructed :: bool
  tag_number :: u32

definition mk_tag :: "tag_class \<Rightarrow> bool \<Rightarrow> u32 \<Rightarrow> tag" where
  "mk_tag c k n = \<lparr>tag_cls = c, constructed = k, tag_number = n\<rparr>"

definition context_primitive :: "u32 \<Rightarrow> tag" where
  "context_primitive n = mk_tag ContextSpecific False n"

definition context_constructed :: "u32 \<Rightarrow> tag" where
  "context_constructed n = mk_tag ContextSpecific True n"

definition application_constructed :: "u32 \<Rightarrow> tag" where
  "application_constructed n = mk_tag Application True n"

definition application_primitive :: "u32 \<Rightarrow> tag" where
  "application_primitive n = mk_tag Application False n"

definition TAG_BOOLEAN :: tag where "TAG_BOOLEAN = mk_tag Universal False 1"
definition TAG_INTEGER :: tag where "TAG_INTEGER = mk_tag Universal False 2"
definition TAG_OCTET_STRING :: tag where "TAG_OCTET_STRING = mk_tag Universal False 4"
definition TAG_NULL :: tag where "TAG_NULL = mk_tag Universal False 5"
definition TAG_SEQUENCE :: tag where "TAG_SEQUENCE = mk_tag Universal True 16"
definition TAG_VISIBLE_STRING :: tag where "TAG_VISIBLE_STRING = mk_tag Universal False 26"

lemmas tag_defs [simp] = mk_tag_def context_primitive_def context_constructed_def
  application_constructed_def application_primitive_def
  TAG_BOOLEAN_def TAG_INTEGER_def TAG_OCTET_STRING_def TAG_NULL_def TAG_SEQUENCE_def

definition MAX_DEPTH :: nat where "MAX_DEPTH = 64"

text \<open>
  The decoder's errors. \<open>what\<close> is the static text of the source; the formatted texts of
  \<open>BadValue\<close> are kept as structured reasons with the number they print.
\<close>

datatype bad_value =
    BvIntegerOctets nat
  | BvEmptyUnsigned
  | BvUnsignedOctets nat
  | BvBooleanOctets nat
  | BvEmptyBitString
  | BvBitStringPadding nat
  | BvFloatOctets nat
  | BvEmptyOid
  | BvOidArcTooLarge
  | BvTruncatedOidArc

datatype asn1_error =
    Truncated string nat
  | BadTag string nat
  | BadLength string nat
  | TooDeep nat
  | Unexpected tag tag nat
  | BadValue bad_value

section \<open>Base-128 numbers\<close>

text \<open>
  The loop that fills \<open>tmp\<close> from its end, shared by \<open>append_tag\<close> and
  \<open>append_base128\<close>: the list is the filled part \<open>tmp[i..]\<close>.
\<close>

function base128_loop :: "u32 \<Rightarrow> bytes \<Rightarrow> bytes" where
  "base128_loop n tmp =
     (let tmp' = ucast (n AND 0x7f) # tmp; n' = drop_bit 7 n
      in if n' = 0 then tmp' else base128_loop n' tmp')"
  by pat_completeness auto
termination
proof (relation "measure (\<lambda>(n, tmp). unat n)")
  fix n :: u32 and tmp tmp' :: bytes and n'
  assume "n' = drop_bit 7 n" and nz: "n' \<noteq> 0"
  then have "unat n' = unat n div 128" and "unat n' \<noteq> 0"
    using unat_drop_bit_div [of 7 n] unat_eq_zero [of n'] by simp_all
  then show "((n', tmp'), n, tmp) \<in> measure (\<lambda>(n, tmp). unat n)"
    by (auto intro: div_less_dividend)
qed simp

declare base128_loop.simps [simp del]

text \<open>\<open>*slot |= 0x80\<close> on every slot but the last.\<close>

definition mark_more :: "bytes \<Rightarrow> bytes" where
  "mark_more ds = map (\<lambda>d. d OR 0x80) (butlast ds) @ [last ds]"

definition base128 :: "u32 \<Rightarrow> bytes" where
  "base128 n = mark_more (base128_loop n [])"

definition b128_digits :: "nat \<Rightarrow> u32 \<Rightarrow> bytes" where
  "b128_digits k n = map (\<lambda>i. ucast (drop_bit (7 * i) n AND 0x7f)) (rev [0..<k])"

lemma b128_digits_0 [simp]: "b128_digits 0 n = []"
  by (simp add: b128_digits_def)

lemma b128_digits_Suc:
  "b128_digits (Suc k) n = ucast (drop_bit (7 * k) n AND 0x7f) # b128_digits k n"
  by (simp add: b128_digits_def)

lemma length_b128_digits [simp]: "length (b128_digits k n) = k"
  by (simp add: b128_digits_def)

lemma b128_digits_snoc:
  "b128_digits (Suc k) n = b128_digits k (drop_bit 7 n) @ [ucast (n AND 0x7f)]"
proof -
  have "rev [0..<Suc k] = map Suc (rev [0..<k]) @ [0]"
    by (simp add: map_Suc_upt upt_conv_Cons flip: rev_map del: upt_Suc)
  then show ?thesis
    by (simp add: b128_digits_def algebra_simps del: upt_Suc)
qed

text \<open>The number of digits the loop produces: at most five, so \<open>tmp\<close> never underflows.\<close>

definition base128_len :: "u32 \<Rightarrow> nat" where
  "base128_len n =
     (if unat n < 2 ^ 7 then 1 else if unat n < 2 ^ 14 then 2
      else if unat n < 2 ^ 21 then 3 else if unat n < 2 ^ 28 then 4 else 5)"

lemma base128_len_range: "1 \<le> base128_len n" "base128_len n \<le> 5"
  by (auto simp: base128_len_def)

lemma base128_len_drop:
  "drop_bit 7 n \<noteq> 0 \<Longrightarrow> base128_len n = Suc (base128_len (drop_bit 7 n))"
proof -
  assume "drop_bit 7 n \<noteq> 0"
  then have "unat (drop_bit 7 n) \<noteq> 0" by (simp add: unat_eq_zero)
  moreover have "unat n < 2 ^ 32" using unat_word_bound [of n] by simp
  ultimately show ?thesis
    by (auto simp: base128_len_def unat_drop_bit_div)
qed

lemma base128_len_one: "drop_bit 7 n = 0 \<Longrightarrow> base128_len n = 1"
proof -
  assume "drop_bit 7 n = 0"
  then have "unat n div 128 = 0" using unat_drop_bit_div [of 7 n] by simp
  then have "unat n < 128" by simp
  then show ?thesis by (simp add: base128_len_def)
qed

lemma base128_loop_digits:
  "base128_loop n tmp = b128_digits (base128_len n) n @ tmp"
proof (induction n tmp rule: base128_loop.induct)
  case (1 n tmp)
  show ?case
  proof (cases "drop_bit 7 n = 0")
    case True
    then show ?thesis
      by (simp add: base128_loop.simps [of n tmp] base128_len_one b128_digits_def)
  next
    case False
    with "1.IH" [OF refl refl] show ?thesis
      by (simp add: base128_loop.simps [of n tmp] base128_len_drop b128_digits_snoc)
  qed
qed

lemma mark_more_single [simp]: "mark_more [d] = [d]"
  by (simp add: mark_more_def)

lemma mark_more_Cons [simp]: "ds \<noteq> [] \<Longrightarrow> mark_more (d # ds) = (d OR 0x80) # mark_more ds"
  by (simp add: mark_more_def)

lemma length_mark_more: "ds \<noteq> [] \<Longrightarrow> length (mark_more ds) = length ds"
  by (cases ds rule: rev_cases) (simp_all add: mark_more_def)

lemma base128_eq: "base128 n = mark_more (b128_digits (base128_len n) n)"
  by (simp add: base128_def base128_loop_digits)

lemma length_base128 [size_simps]: "length (base128 n) = base128_len n"
  using base128_len_range [of n]
  by (subst base128_eq, subst length_mark_more) (auto simp: b128_digits_def)

lemma drop_bit_base128_len: "drop_bit (7 * base128_len n) n = 0"
proof -
  have "unat n < 2 ^ 32" using unat_word_bound [of n] by simp
  then have "unat (drop_bit (7 * base128_len n) n) = 0"
    by (auto simp: unat_drop_bit_div base128_len_def)
  then show ?thesis by (simp add: unat_eq_zero)
qed

lemma push_or_digit:
  "push_bit 7 (drop_bit (7 * Suc k) n) OR (ucast ((ucast (drop_bit (7 * k) n AND 0x7f) :: u8) AND 0x7f))
     = drop_bit (7 * k) (n :: u32)"
proof (rule bit_word_eqI)
  fix i
  assume "i < LENGTH(32)"
  then show "bit (push_bit 7 (drop_bit (7 * Suc k) n) OR
      (ucast ((ucast (drop_bit (7 * k) n AND 0x7f) :: u8) AND 0x7f))) i
      = bit (drop_bit (7 * k) n) i"
    by (cases "i < 7") (auto simp: octet_bits not_less)
qed

lemma digit_high_bit_clear: "(ucast (n AND 0x7f :: u32) :: u8) AND 0x80 = 0"
  by (rule bit_word_eqI) (auto simp: octet_bits)

lemma marked_digit:
  "(d OR 0x80 :: u8) AND 0x80 \<noteq> 0"
  "(d OR 0x80 :: u8) AND 0x7f = d AND 0x7f"
proof -
  have "bit ((d OR 0x80 :: u8) AND 0x80) 7"
    by (simp add: octet_bits)
  then show "(d OR 0x80 :: u8) AND 0x80 \<noteq> 0"
    by (metis bit_0_eq bot_apply bot_bool_def)
  show "(d OR 0x80 :: u8) AND 0x7f = d AND 0x7f"
    by (rule bit_word_eqI) (auto simp: octet_bits)
qed

section \<open>Identifier and length octets\<close>

definition append_tag :: "tag \<Rightarrow> bytes" where
  "append_tag t =
     (let b = push_bit 6 (class_code (tag_cls t));
          b = (if constructed t then b OR 0x20 else b)
      in if tag_number t < 31 then [b OR ucast (tag_number t)]
         else (b OR 0x1f) # base128 (tag_number t))"

definition append_length :: "nat \<Rightarrow> bytes" where
  "append_length n =
     (if n < 0x80 then [of_nat n]
      else if n \<le> 0xff then [0x81, of_nat n]
      else if n \<le> 0xffff then [0x82, of_nat (drop_bit 8 n), of_nat n]
      else if n \<le> 0xffffff then
        [0x83, of_nat (drop_bit 16 n), of_nat (drop_bit 8 n), of_nat n]
      else [0x84, of_nat (drop_bit 24 n), of_nat (drop_bit 16 n), of_nat (drop_bit 8 n), of_nat n])"

definition tag_size :: "tag \<Rightarrow> nat" where
  "tag_size t =
     (let n = unat (tag_number t)
      in if n \<le> 30 then 1 else if n < 2 ^ 7 then 2 else if n < 2 ^ 14 then 3
         else if n < 2 ^ 21 then 4 else 5)"

definition length_size :: "nat \<Rightarrow> nat" where
  "length_size n =
     (if n \<le> 0x7f then 1 else if n \<le> 0xff then 2 else if n \<le> 0xffff then 3
      else if n \<le> 0xffffff then 4 else 5)"

definition tlv_size :: "tag \<Rightarrow> nat \<Rightarrow> nat" where
  "tlv_size t n = tag_size t + length_size n + n"

definition append_tlv :: "tag \<Rightarrow> bytes \<Rightarrow> bytes" where
  "append_tlv t content = append_tag t @ append_length (length content) @ content"

lemma length_append_length [simp, size_simps]: "length (append_length n) = length_size n"
  by (simp add: append_length_def length_size_def)

lemma length_append_tag:
  "length (append_tag t) = (if unat (tag_number t) < 31 then 1 else Suc (base128_len (tag_number t)))"
  by (simp add: append_tag_def Let_def length_base128 word_less_nat_alt)

text \<open>The size function agrees with the encoding exactly below \<open>2\<^sup>2\<^sup>8\<close>.\<close>

lemma tag_size_append_tag:
  "tag_size t = length (append_tag t) \<longleftrightarrow> unat (tag_number t) < 2 ^ 28"
  by (simp add: tag_size_def length_append_tag base128_len_def Let_def)

lemma append_tag_nonempty [simp]: "append_tag t \<noteq> []"
  by (simp add: append_tag_def Let_def)

end
