(* ===== verification/Asn1_Decoder.thy ===== *)
theory Asn1_Decoder
  imports Asn1_Tag
begin

text \<open>
  The bounds-checked BER cursor of \<open>src/asn1/decoder.rs\<close>. A decoder is the input and the
  offset of the next unread octet; an operation returns its result with the moved cursor.
  After an error the source's cursor is not used again (every caller propagates the error),
  so the error case carries no cursor.

  The recursion of \<open>read_tlv_at\<close> through its end-of-contents scan is a total function here:
  the termination proof shows that a successful read moves the cursor forward.
\<close>

record decoder =
  dec_data :: bytes
  dec_off :: nat

definition decoder_new :: "bytes \<Rightarrow> decoder" where
  "decoder_new data = \<lparr>dec_data = data, dec_off = 0\<rparr>"

definition more_data :: "decoder \<Rightarrow> bool" where
  "more_data d \<longleftrightarrow> dec_off d < length (dec_data d)"

definition rest :: "decoder \<Rightarrow> bytes" where
  "rest d = drop (dec_off d) (dec_data d)"

text \<open>\<open>self.off += n\<close>.\<close>

definition advance :: "nat \<Rightarrow> decoder \<Rightarrow> decoder" where
  "advance n d = d\<lparr>dec_off := dec_off d + n\<rparr>"

function read_tag_loop :: "nat \<Rightarrow> u32 \<Rightarrow> decoder \<Rightarrow> asn1_error + (u32 \<times> decoder)" where
  "read_tag_loop i num d =
     (if dec_off d \<ge> length (dec_data d) then Inl (Truncated ''reading tag'' (dec_off d))
      else if i \<ge> 5 then Inl (BadTag ''tag number too large'' (dec_off d))
      else let c = dec_data d ! dec_off d;
               num' = push_bit 7 num OR ucast (c AND 0x7f)
           in if c AND 0x80 = 0 then Inr (num', advance 1 d)
              else read_tag_loop (Suc i) num' (advance 1 d))"
  by pat_completeness auto
termination
  by (relation "measure (\<lambda>(i, num, d). 5 - i)") auto

declare read_tag_loop.simps [simp del]

definition read_tag :: "decoder \<Rightarrow> asn1_error + (tag \<times> decoder)" where
  "read_tag d =
     (if dec_off d \<ge> length (dec_data d) then Inl (Truncated ''reading tag'' (dec_off d))
      else let b = dec_data d ! dec_off d;
               t = \<lparr>tag_cls = from_bits (drop_bit 6 b), constructed = (b AND 0x20 \<noteq> 0),
                    tag_number = ucast (b AND 0x1f)\<rparr>
           in if tag_number t \<noteq> 0x1f then Inr (t, advance 1 d)
              else try_bind (read_tag_loop 0 0 (advance 1 d))
                     (\<lambda>(n, d'). Inr (t\<lparr>tag_number := n\<rparr>, d')))"

definition read_length :: "decoder \<Rightarrow> asn1_error + ((nat \<times> bool) \<times> decoder)" where
  "read_length d =
     (if dec_off d \<ge> length (dec_data d) then Inl (Truncated ''reading length'' (dec_off d))
      else let b = dec_data d ! dec_off d; d' = advance 1 d
           in if b < 0x80 then Inr ((unat b, False), d')
              else if b = 0x80 then Inr ((0, True), d')
              else let num_octets = unat (b AND 0x7f)
                   in if num_octets > 4 then Inl (BadLength ''length overflows'' (dec_off d'))
                      else if dec_off d' + num_octets > length (dec_data d') then
                        Inl (Truncated ''reading length'' (dec_off d'))
                      else Inr ((foldl (\<lambda>n b. push_bit 8 n OR unat b) 0
                                   (subslice (dec_off d') (dec_off d' + num_octets) (dec_data d')),
                                 False), advance num_octets d'))"

definition peek :: "decoder \<Rightarrow> asn1_error + tag" where
  "peek d = (case read_tag d of Inl e \<Rightarrow> Inl e | Inr (t, _) \<Rightarrow> Inr t)"

definition peek_is :: "tag \<Rightarrow> decoder \<Rightarrow> bool" where
  "peek_is t d = (case peek d of Inl _ \<Rightarrow> False | Inr got \<Rightarrow> got = t)"

section \<open>Cursor facts\<close>

lemma advance_sel [simp]:
  "dec_data (advance n d) = dec_data d"
  "dec_off (advance n d) = dec_off d + n"
  by (simp_all add: advance_def)

lemma advance_advance [simp]: "advance m (advance n d) = advance (n + m) d"
  by (simp add: advance_def add.assoc)

lemma advance_0 [simp]: "advance 0 d = d"
  by (simp add: advance_def)

lemma rest_advance: "rest (advance n d) = drop n (rest d)"
  by (simp add: rest_def add.commute)

lemma rest_new [simp]: "rest (decoder_new data) = data"
  by (simp add: rest_def decoder_new_def)

lemma decoder_new_sel [simp]:
  "dec_data (decoder_new data) = data" "dec_off (decoder_new data) = 0"
  by (simp_all add: decoder_new_def)

lemma more_data_rest: "more_data d \<longleftrightarrow> rest d \<noteq> []"
  by (simp add: more_data_def rest_def not_le)

lemma rest_Cons:
  assumes "rest d = b # bs"
  shows "dec_off d < length (dec_data d)" "dec_data d ! dec_off d = b" "rest (advance 1 d) = bs"
  using assms drop_eq_Cons_nth [of "dec_off d" "dec_data d" b bs]
  by (auto simp: rest_def)

lemma rest_append:
  assumes "rest d = xs @ ys"
  shows "subslice (dec_off d) (dec_off d + length xs) (dec_data d) = xs"
    "rest (advance (length xs) d) = ys"
    "length xs \<le> length (dec_data d) - dec_off d"
proof -
  show "subslice (dec_off d) (dec_off d + length xs) (dec_data d) = xs"
    using assms by (simp add: subslice_def rest_def)
  show "rest (advance (length xs) d) = ys"
    using assms by (simp add: rest_advance)
  have "length (rest d) = length xs + length ys"
    using assms by simp
  then show "length xs \<le> length (dec_data d) - dec_off d"
    by (simp add: rest_def)
qed

section \<open>Progress of the header reads\<close>

lemma read_tag_loop_progress:
  "read_tag_loop i num d = Inr (n, d') \<Longrightarrow>
     dec_data d' = dec_data d \<and> dec_off d < dec_off d' \<and> dec_off d' \<le> length (dec_data d)"
proof (induction i num d rule: read_tag_loop.induct)
  case (1 i num d)
  show ?case
  proof (cases "dec_data d ! dec_off d AND 0x80 = 0")
    case True
    with "1.prems" show ?thesis
      by (auto simp: read_tag_loop.simps [of i num d] Let_def split: if_splits)
  next
    case False
    with "1.prems" have g: "dec_off d < length (dec_data d)" "i < 5"
      and r: "read_tag_loop (Suc i)
        (push_bit 7 num OR ucast (dec_data d ! dec_off d AND 0x7f)) (advance 1 d) = Inr (n, d')"
      by (auto simp: read_tag_loop.simps [of i num d] Let_def split: if_splits)
    from "1.IH" [OF _ _ refl refl False r] g show ?thesis by simp
  qed
qed

lemma read_tag_progress:
  "read_tag d = Inr (t, d') \<Longrightarrow>
     dec_data d' = dec_data d \<and> dec_off d < dec_off d' \<and> dec_off d' \<le> length (dec_data d)"
  by (auto simp: read_tag_def Let_def try_bind_Inr_iff split: if_splits
      dest!: read_tag_loop_progress)

lemma read_length_progress:
  "read_length d = Inr (r, d') \<Longrightarrow>
     dec_data d' = dec_data d \<and> dec_off d < dec_off d' \<and> dec_off d' \<le> length (dec_data d)"
  by (auto simp: read_length_def Let_def split: if_splits)

section \<open>Elements\<close>

function (domintros)
  read_tlv_at :: "nat \<Rightarrow> decoder \<Rightarrow> asn1_error + ((tag \<times> bytes) \<times> decoder)" and
  scan_eoc :: "tag \<Rightarrow> nat \<Rightarrow> nat \<Rightarrow> decoder \<Rightarrow> asn1_error + ((tag \<times> bytes) \<times> decoder)"
where
  "read_tlv_at depth d =
     (if depth > MAX_DEPTH then Inl (TooDeep (dec_off d))
      else case read_tag d of Inl e \<Rightarrow> Inl e | Inr (t, d1) \<Rightarrow>
        (case read_length d1 of Inl e \<Rightarrow> Inl e | Inr ((n, indefinite), d2) \<Rightarrow>
          if \<not> indefinite then
            (if n > length (dec_data d2) - dec_off d2 then
               Inl (Truncated ''reading content'' (dec_off d2))
             else Inr ((t, subslice (dec_off d2) (dec_off d2 + n) (dec_data d2)), advance n d2))
          else if \<not> constructed t then
            Inl (BadLength ''indefinite length on primitive'' (dec_off d2))
          else scan_eoc t (dec_off d2) depth d2))"
| "scan_eoc t start depth d =
     (if dec_off d + 2 \<le> length (dec_data d) \<and> dec_data d ! dec_off d = 0
         \<and> dec_data d ! (dec_off d + 1) = 0
      then Inr ((t, subslice start (dec_off d) (dec_data d)), advance 2 d)
      else case read_tlv_at (Suc depth) d of Inl e \<Rightarrow> Inl e
           | Inr (_, d') \<Rightarrow> scan_eoc t start depth d')"
  by pat_completeness auto

text \<open>A successful read moves the cursor forward and leaves it inside the buffer.\<close>

lemma read_tlv_at_scan_eoc_progress_dom:
  "read_tlv_at_scan_eoc_dom (Inl (depth, d)) \<Longrightarrow> read_tlv_at depth d = Inr (r, d') \<Longrightarrow>
     dec_data d' = dec_data d \<and> dec_off d < dec_off d' \<and> dec_off d' \<le> length (dec_data d)"
  "read_tlv_at_scan_eoc_dom (Inr (t, start, depth, d)) \<Longrightarrow>
     scan_eoc t start depth d = Inr (r, d') \<Longrightarrow>
     dec_data d' = dec_data d \<and> dec_off d < dec_off d' \<and> dec_off d' \<le> length (dec_data d)"
proof (induct depth d and t start depth d arbitrary: r d' and r d'
    rule: read_tlv_at_scan_eoc.pinduct)
  case (1 depth d)
  from "1.prems" obtain t d1 n ind d2 where
    h: "\<not> depth > MAX_DEPTH" "read_tag d = Inr (t, d1)" "read_length d1 = Inr ((n, ind), d2)"
    by (auto simp: read_tlv_at.psimps [OF "1.hyps"(1)] split: if_splits sum.splits)
  note p = read_tag_progress [OF h(2)] read_length_progress [OF h(3)]
  show ?case
  proof (cases "ind \<and> constructed t")
    case True
    with "1.prems" h have s: "scan_eoc t (dec_off d2) depth d2 = Inr (r, d')"
      by (simp add: read_tlv_at.psimps [OF "1.hyps"(1)])
    from True "1.hyps"(2) [OF h(1) h(2) refl h(3) refl refl _ _ s] p show ?thesis by auto
  next
    case False
    with "1.prems" h p show ?thesis
      by (auto simp: read_tlv_at.psimps [OF "1.hyps"(1)] split: if_splits)
  qed
next
  case (2 t start depth d)
  show ?case
  proof (cases "dec_off d + 2 \<le> length (dec_data d) \<and> dec_data d ! dec_off d = 0
      \<and> dec_data d ! (dec_off d + 1) = 0")
    case True
    with "2.prems" show ?thesis by (auto simp: scan_eoc.psimps [OF "2.hyps"(1)])
  next
    case False
    with "2.prems" obtain x d1 where
      h: "read_tlv_at (Suc depth) d = Inr (x, d1)" "scan_eoc t start depth d1 = Inr (r, d')"
      by (auto simp: scan_eoc.psimps [OF "2.hyps"(1)] split: sum.splits)
    from "2.hyps"(2) [OF False h(1)] "2.hyps"(3) [OF False h(1) refl h(2)] show ?thesis by auto
  qed
qed

lemma read_tlv_at_scan_eoc_total: "All read_tlv_at_scan_eoc_dom"
proof (relation "measure (case_sum (\<lambda>(depth, d). 2 * (length (dec_data d) - dec_off d))
    (\<lambda>(t, start, depth, d). 2 * (length (dec_data d) - dec_off d) + 1))", goal_cases)
  case 1
  show ?case by simp
next
  case 2
  then show ?case by (auto dest!: read_tag_progress read_length_progress)
next
  case 3
  then show ?case by simp
next
  case 4
  then show ?case by (auto dest!: read_tlv_at_scan_eoc_progress_dom(1))
qed

termination read_tlv_at
  by (rule read_tlv_at_scan_eoc_total)

declare read_tlv_at.simps [simp del] scan_eoc.simps [simp del]

lemmas read_tlv_at_progress = read_tlv_at_scan_eoc_progress_dom(1) [OF read_tlv_at_scan_eoc_total [rule_format]]

lemmas scan_eoc_progress = read_tlv_at_scan_eoc_progress_dom(2) [OF read_tlv_at_scan_eoc_total [rule_format]]

definition read_tlv :: "decoder \<Rightarrow> asn1_error + ((tag \<times> bytes) \<times> decoder)" where
  "read_tlv d = read_tlv_at 0 d"

definition expect_tag :: "tag \<Rightarrow> decoder \<Rightarrow> asn1_error + (bytes \<times> decoder)" where
  "expect_tag t d =
     try_bind (read_tlv d)
       (\<lambda>((got, content), d').
          if got \<noteq> t then Inl (Unexpected t got (dec_off d)) else Inr (content, d'))"

definition optional_tag :: "tag \<Rightarrow> decoder \<Rightarrow> asn1_error + (bytes option \<times> decoder)" where
  "optional_tag t d =
     (if \<not> more_data d then Inr (None, d)
      else try_bind (peek d)
        (\<lambda>got. if got \<noteq> t then Inr (None, d)
               else try_bind (read_tlv d) (\<lambda>((_, content), d'). Inr (Some content, d'))))"

definition skip_tlv :: "decoder \<Rightarrow> asn1_error + decoder" where
  "skip_tlv d = try_bind (read_tlv d) (\<lambda>(_, d'). Inr d')"

section \<open>Reading back what the encoder wrote\<close>

lemma from_bits_class_code:
  "from_bits (drop_bit 6 (push_bit 6 (class_code c) OR x)) = c"
  if "x AND 0xc0 = 0"
proof -
  have "drop_bit 6 x AND 3 = drop_bit 6 (x AND 0xc0)"
    by (rule bit_word_eqI) (auto simp: octet_bits)
  with that have "drop_bit 6 x AND 3 = 0" by simp
  moreover have "drop_bit 6 (push_bit 6 (class_code c) OR x) AND 3
      = (class_code c AND 3) OR (drop_bit 6 x AND 3)"
    by (rule bit_word_eqI) (auto simp: octet_bits)
  ultimately show ?thesis
    by (cases c) (simp_all add: from_bits_def)
qed

definition lead_octet :: "bool \<Rightarrow> tag_class \<Rightarrow> u8 \<Rightarrow> u8" where
  "lead_octet k c x =
     (if k then push_bit 6 (class_code c) OR 0x20 else push_bit 6 (class_code c)) OR x"

lemma lead_octet_fields:
  assumes "unat x < 32"
  shows "from_bits (drop_bit 6 (lead_octet k c x)) = c"
    "(lead_octet k c x AND 0x20 \<noteq> 0) = k"
    "lead_octet k c x AND 0x1f = x"
proof -
  have hi: "\<not> bit x i" if "5 \<le> i" for i
  proof -
    have "unat x < 2 ^ i"
      using assms(1) power_increasing [OF that, of "2::nat"] by simp
    then have "\<not> bit (unat x) i" by (simp add: bit_nat_def)
    then show ?thesis by (simp add: bit_unsigned_iff)
  qed
  have "x AND 0xc0 = 0" and "(0x20 OR x) AND 0xc0 = 0"
    using hi [of 6] hi [of 7] by (auto intro!: bit_word_eqI simp: octet_bits)
  then show "from_bits (drop_bit 6 (lead_octet k c x)) = c"
    using from_bits_class_code [of x c] from_bits_class_code [of "0x20 OR x" c]
    by (simp add: lead_octet_def or.assoc)
  have "bit (lead_octet k c x) 5 = k"
    using hi [of 5] by (auto simp: lead_octet_def octet_bits)
  moreover have "b AND 0x20 = (if bit b 5 then 0x20 else 0)" for b :: u8
    by (rule bit_word_eqI) (auto simp: octet_bits)
  ultimately show "(lead_octet k c x AND 0x20 \<noteq> 0) = k" by auto
  show "lead_octet k c x AND 0x1f = x"
    using hi by (intro bit_word_eqI) (auto simp: lead_octet_def octet_bits not_less [symmetric])
qed

lemma read_tag_loop_digits:
  assumes "i + k < 5" "rest d = mark_more (b128_digits (Suc k) n) @ zs"
  shows "read_tag_loop i (drop_bit (7 * Suc k) n) d = Inr (n, advance (Suc k) d)"
  using assms
proof (induction k arbitrary: i d)
  case 0
  then have r: "rest d = ucast (n AND 0x7f) # zs"
    by (simp add: b128_digits_def)
  show ?case
    using rest_Cons [OF r] 0 push_or_digit [of 0 n]
    by (simp add: read_tag_loop.simps [of i] digit_high_bit_clear)
next
  case (Suc k)
  let ?c = "(ucast (drop_bit (7 * Suc k) n AND 0x7f) :: u8)"
  have "b128_digits (Suc k) n \<noteq> []" by (simp add: b128_digits_Suc)
  then have r: "rest d = (?c OR 0x80) # (mark_more (b128_digits (Suc k) n) @ zs)"
    using Suc.prems(2) by (simp add: b128_digits_Suc [of "Suc k"])
  have "read_tag_loop (Suc i) (drop_bit (7 * Suc k) n) (advance 1 d)
      = Inr (n, advance (Suc k) (advance 1 d))"
    using Suc.prems(1) rest_Cons(3) [OF r] by (intro Suc.IH) auto
  then show ?case
    using rest_Cons [OF r] Suc.prems(1) push_or_digit [of "Suc k" n]
    by (simp add: read_tag_loop.simps [of i] marked_digit)
qed

lemma read_tag_append_tag [wire_simps]:
  assumes "rest d = append_tag t @ zs"
  shows "read_tag d = Inr (t, advance (length (append_tag t)) d)"
proof (cases "unat (tag_number t) < 31")
  case True
  define x :: u8 where "x = ucast (tag_number t)"
  have x: "unat x = unat (tag_number t)"
    using True by (simp add: x_def unsigned_ucast_eq take_bit_nat_eq_self_iff)
  have ux: "(ucast x :: u32) = tag_number t"
    using True x by (intro unat_inject) (simp add: unsigned_ucast_eq take_bit_nat_eq_self_iff)
  have ne: "tag_number t \<noteq> 0x1f" using True by auto
  have e: "append_tag t = [lead_octet (constructed t) (tag_cls t) x]"
    using True by (simp add: append_tag_def lead_octet_def x_def word_less_nat_alt Let_def)
  then have "rest d = lead_octet (constructed t) (tag_cls t) x # zs"
    using assms by simp
  note r = rest_Cons [OF this]
  from True x have "unat x < 32" by simp
  note l = lead_octet_fields [OF this, of "constructed t" "tag_cls t"]
  from r l ne ux e show ?thesis
    by (simp add: read_tag_def Let_def)
next
  case False
  have e: "append_tag t = lead_octet (constructed t) (tag_cls t) 0x1f # base128 (tag_number t)"
    using False by (simp add: append_tag_def lead_octet_def word_less_nat_alt Let_def)
  then have "rest d = lead_octet (constructed t) (tag_cls t) 0x1f # (base128 (tag_number t) @ zs)"
    using assms by simp
  note r = rest_Cons [OF this]
  have "unat (0x1f :: u8) < 32" by simp
  note l = lead_octet_fields [OF this, of "constructed t" "tag_cls t"]
  obtain k where k: "base128_len (tag_number t) = Suc k" "k < 5"
    using base128_len_range [of "tag_number t"] by (cases "base128_len (tag_number t)") auto
  have "read_tag_loop 0 0 (advance 1 d) = Inr (tag_number t, advance (Suc k) (advance 1 d))"
    using read_tag_loop_digits [of 0 k "advance 1 d" "tag_number t" zs] k r(3)
      drop_bit_base128_len [of "tag_number t"] by (simp add: base128_eq)
  with r l e k show ?thesis
    by (simp add: read_tag_def Let_def length_base128)
qed

lemma length_fold:
  "foldl (\<lambda>n b. push_bit 8 n OR unat (b :: u8)) = foldl (\<lambda>n b. n * 256 + unat b)"
  using nat_push_or [where k = 8] by (intro ext) simp

lemma read_length_octets:
  assumes r: "rest d = b # os @ zs" and b: "\<not> b < 0x80" "b \<noteq> 0x80" "unat (b AND 0x7f) = length os"
    and os: "length os \<le> 4"
  shows "read_length d = Inr ((foldl (\<lambda>n b. n * 256 + unat b) 0 os, False), advance (Suc (length os)) d)"
proof -
  note r1 = rest_Cons [OF r]
  note r2 = rest_append [OF r1(3)]
  from r1 r2(1,3) b os show ?thesis
    by (simp add: read_length_def Let_def length_fold)
qed

lemma read_length_append_length [wire_simps]:
  assumes r: "rest d = append_length n @ zs" and n: "n < 2 ^ 32"
  shows "read_length d = Inr ((n, False), advance (length_size n) d)"
proof (cases "n < 0x80")
  case True
  then have "rest d = of_nat n # zs" using r by (simp add: append_length_def)
  note r1 = rest_Cons [OF this]
  have "unat (of_nat n :: u8) = n" using True by (simp add: unsigned_of_nat take_bit_nat_eq_self_iff)
  then show ?thesis
    using r1 True by (simp add: read_length_def Let_def word_less_nat_alt length_size_def)
next
  case False
  have o: "unat (of_nat m :: u8) = m mod 256" for m
    by (simp add: unsigned_of_nat take_bit_eq_mod)
  have h: "n div 2 ^ 24 * 256 + n div 2 ^ 16 mod 256 = n div 2 ^ 16"
    "n div 2 ^ 16 * 256 + n div 2 ^ 8 mod 256 = n div 2 ^ 8" "n div 2 ^ 8 * 256 + n mod 256 = n"
    using octet_horner [of n 16] octet_horner [of n 8] octet_horner [of n 0] by simp_all
  let ?v = "foldl (\<lambda>n b. n * 256 + unat (b :: u8)) 0"
  consider "n \<le> 0xff" | "0xff < n" "n \<le> 0xffff" | "0xffff < n" "n \<le> 0xffffff" | "0xffffff < n"
    by linarith
  then show ?thesis
  proof cases
    case 1
    then have "rest d = 0x81 # [of_nat n] @ zs"
      using r False by (simp add: append_length_def)
    from read_length_octets [OF this] 1 False show ?thesis
      by (simp add: o length_size_def)
  next
    case 2
    then have "n div 2 ^ 8 mod 256 = n div 2 ^ 8" by simp
    then have v: "?v [of_nat (drop_bit 8 n), of_nat n] = n"
      using h by (simp add: o drop_bit_nat_def)
    have "rest d = 0x82 # [of_nat (drop_bit 8 n), of_nat n] @ zs"
      using r 2 by (simp add: append_length_def)
    from read_length_octets [OF this] 2 show ?thesis
      by (simp add: v length_size_def del: foldl.simps)
  next
    case 3
    then have e: "n div 2 ^ 16 mod 256 = n div 2 ^ 16" by simp
    have v: "?v [of_nat (drop_bit 16 n), of_nat (drop_bit 8 n), of_nat n] = n"
      by (simp only: foldl.simps o drop_bit_nat_def mult_zero_left add_0_left e h)
    have "rest d = 0x83 # [of_nat (drop_bit 16 n), of_nat (drop_bit 8 n), of_nat n] @ zs"
      using r 3 by (simp add: append_length_def)
    from read_length_octets [OF this] 3 show ?thesis
      by (simp add: v length_size_def del: foldl.simps)
  next
    case 4
    have e: "n div 2 ^ 24 mod 256 = n div 2 ^ 24" using n by simp
    have v: "?v [of_nat (drop_bit 24 n), of_nat (drop_bit 16 n), of_nat (drop_bit 8 n), of_nat n] = n"
      by (simp only: foldl.simps o drop_bit_nat_def mult_zero_left add_0_left e h)
    have "rest d = 0x84 # [of_nat (drop_bit 24 n), of_nat (drop_bit 16 n),
        of_nat (drop_bit 8 n), of_nat n] @ zs"
      using r 4 by (simp add: append_length_def)
    from read_length_octets [OF this] 4 show ?thesis
      by (simp add: v length_size_def del: foldl.simps)
  qed
qed

lemma rest_append_advance:
  "rest d = xs @ ys \<Longrightarrow> rest (advance (length xs) d) = ys"
  by (rule rest_append(2))

lemma read_tlv_at_append_tlv:
  assumes r: "rest d = append_tlv t c @ zs" and n: "length c < 2 ^ 32" and k: "k \<le> MAX_DEPTH"
  shows "read_tlv_at k d = Inr ((t, c), advance (length (append_tlv t c)) d)"
proof -
  let ?l = "append_length (length c)"
  have r1: "rest d = append_tag t @ (?l @ c @ zs)"
    using r by (simp add: append_tlv_def)
  note t = read_tag_append_tag [OF r1] and r2 = rest_append(2) [OF r1]
  note l = read_length_append_length [OF r2 n] and r3 = rest_append(2) [OF r2]
  note c = rest_append [OF r3]
  show ?thesis
    using c k by (simp add: read_tlv_at.simps t l append_tlv_def add.assoc)
qed

lemma read_tlv_append_tlv [wire_simps]:
  assumes "rest d = append_tlv t c @ zs" "length c < 2 ^ 32"
  shows "read_tlv d = Inr ((t, c), advance (length (append_tlv t c)) d)"
  using read_tlv_at_append_tlv [OF assms, of 0] by (simp add: read_tlv_def)

lemma expect_append_tlv [wire_simps]:
  assumes "rest d = append_tlv t c @ zs" "length c < 2 ^ 32"
  shows "expect_tag t d = Inr (c, advance (length (append_tlv t c)) d)"
  by (simp add: expect_tag_def read_tlv_append_tlv [OF assms])

lemma peek_append_tlv [wire_simps]:
  assumes "rest d = append_tlv t c @ zs"
  shows "peek d = Inr t"
proof -
  have "rest d = append_tag t @ (append_length (length c) @ c @ zs)"
    using assms by (simp add: append_tlv_def)
  then show ?thesis by (simp add: peek_def read_tag_append_tag)
qed

lemma more_data_append_tlv [wire_simps]: "rest d = append_tlv t c @ zs \<Longrightarrow> more_data d"
  by (simp add: more_data_rest append_tlv_def)

lemma optional_append_tlv [wire_simps]:
  assumes r: "rest d = append_tlv t c @ zs" and n: "length c < 2 ^ 32"
  shows "optional_tag u d =
    (if t = u then Inr (Some c, advance (length (append_tlv t c)) d) else Inr (None, d))"
  using more_data_append_tlv [OF r] peek_append_tlv [OF r] read_tlv_append_tlv [OF r n]
  by (simp add: optional_tag_def)

lemma optional_no_data [wire_simps]: "rest d = [] \<Longrightarrow> optional_tag u d = Inr (None, d)"
  by (simp add: optional_tag_def more_data_rest)

section \<open>What a successful read returns\<close>

lemma scan_eoc_content:
  "scan_eoc t start depth d = Inr ((t', c), d') \<Longrightarrow> start \<le> dec_off d \<Longrightarrow>
     t' = t \<and> start + 2 \<le> dec_off d' \<and> c = subslice start (dec_off d' - 2) (dec_data d)"
proof (induction "length (dec_data d) - dec_off d" arbitrary: d rule: less_induct)
  case less
  show ?case
  proof (cases "dec_off d + 2 \<le> length (dec_data d) \<and> dec_data d ! dec_off d = 0
      \<and> dec_data d ! (dec_off d + 1) = 0")
    case True
    with less.prems show ?thesis by (auto simp: scan_eoc.simps [of t start depth d])
  next
    case False
    with less.prems obtain x d1 where
      h: "read_tlv_at (Suc depth) d = Inr (x, d1)" "scan_eoc t start depth d1 = Inr ((t', c), d')"
      by (auto simp: scan_eoc.simps [of t start depth d] split: sum.splits)
    note p = read_tlv_at_progress [OF h(1)]
    have "start \<le> dec_off d1" using p less.prems(2) by simp
    from less.hyps [OF _ h(2) this] p show ?thesis by auto
  qed
qed

lemma read_tlv_at_content:
  assumes "read_tlv_at depth d = Inr ((t, c), d')"
  obtains i j where "dec_off d + 2 \<le> i" "i \<le> j" "j \<le> dec_off d'" "c = subslice i j (dec_data d)"
proof -
  from assms obtain t0 d1 n ind d2 where
    h: "\<not> depth > MAX_DEPTH" "read_tag d = Inr (t0, d1)" "read_length d1 = Inr ((n, ind), d2)"
    by (auto simp: read_tlv_at.simps [of depth d] split: if_splits sum.splits)
  note p = read_tag_progress [OF h(2)] read_length_progress [OF h(3)]
  show ?thesis
  proof (cases "ind \<and> constructed t0")
    case True
    with assms h have "scan_eoc t0 (dec_off d2) depth d2 = Inr ((t, c), d')"
      by (simp add: read_tlv_at.simps [of depth d])
    from scan_eoc_content [OF this order_refl] p show ?thesis
      by (intro that [of "dec_off d2" "dec_off d' - 2"]) auto
  next
    case False
    with assms h p show ?thesis
      by (intro that [of "dec_off d2" "dec_off d2 + n"])
        (auto simp: read_tlv_at.simps [of depth d] split: if_splits)
  qed
qed

lemma read_tlv_content_length:
  assumes "read_tlv d = Inr ((t, c), d')"
  shows "length c + 2 \<le> dec_off d' - dec_off d"
proof -
  from assms have r: "read_tlv_at 0 d = Inr ((t, c), d')" by (simp add: read_tlv_def)
  obtain i j where "dec_off d + 2 \<le> i" "i \<le> j" "j \<le> dec_off d'" "c = subslice i j (dec_data d)"
    by (rule read_tlv_at_content [OF r])
  with read_tlv_at_progress [OF r] show ?thesis by simp
qed

lemma read_tlv_progress:
  "read_tlv d = Inr (r, d') \<Longrightarrow>
     dec_data d' = dec_data d \<and> dec_off d < dec_off d' \<and> dec_off d' \<le> length (dec_data d)"
  by (simp add: read_tlv_def read_tlv_at_progress)


section \<open>Truncated input\<close>

lemma read_tag_loop_truncated:
  "\<forall>b \<in> set (rest d). b AND 0x80 \<noteq> 0 \<Longrightarrow> i + length (rest d) < 6 \<Longrightarrow>
     \<exists>off. read_tag_loop i num d = Inl (Truncated ''reading tag'' off)"
proof (induction "rest d" arbitrary: i num d)
  case Nil
  then have "length (dec_data d) \<le> dec_off d" by (simp add: rest_def)
  then show ?case by (simp add: read_tag_loop.simps [of i])
next
  case (Cons b bs)
  note r = rest_Cons [OF Cons.hyps(2) [symmetric]]
  have "b AND 0x80 \<noteq> 0" and "i < 5" using Cons.prems by (simp_all flip: Cons.hyps(2))
  moreover have "\<exists>off. read_tag_loop (Suc i) m (advance 1 d) = Inl (Truncated ''reading tag'' off)" for m
    using Cons.prems r(3) by (intro Cons.hyps(1)) (simp_all flip: Cons.hyps(2))
  ultimately show ?case
    using r by (simp add: read_tag_loop.simps [of i] Let_def)
qed

lemma take_mark_more:
  "n < length ds \<Longrightarrow> \<forall>b \<in> set (take n (mark_more ds)). b AND 0x80 \<noteq> 0"
  by (auto simp: mark_more_def marked_digit dest!: in_set_takeD split: if_splits)

lemma read_tag_truncated:
  assumes r: "rest d = take n (append_tag t)" and n: "n < length (append_tag t)"
  shows "\<exists>off. read_tag d = Inl (Truncated ''reading tag'' off)"
proof (cases n)
  case 0
  with r show ?thesis by (simp add: rest_def read_tag_def)
next
  case (Suc m)
  with n have big: "\<not> unat (tag_number t) < 31" by (auto simp: length_append_tag split: if_splits)
  then have e: "append_tag t = lead_octet (constructed t) (tag_cls t) 0x1f # base128 (tag_number t)"
    by (simp add: append_tag_def lead_octet_def word_less_nat_alt Let_def)
  then have m: "m < base128_len (tag_number t)" using n Suc by (simp add: length_base128)
  have r': "rest d = lead_octet (constructed t) (tag_cls t) 0x1f # take m (base128 (tag_number t))"
    using r e Suc by simp
  have "\<exists>off. read_tag_loop 0 0 (advance 1 d) = Inl (Truncated ''reading tag'' off)"
  proof (rule read_tag_loop_truncated)
    show "\<forall>b \<in> set (rest (advance 1 d)). b AND 0x80 \<noteq> 0"
      using rest_Cons(3) [OF r'] m take_mark_more [of m "b128_digits (base128_len (tag_number t)) (tag_number t)"]
      by (simp add: base128_eq)
    show "0 + length (rest (advance 1 d)) < 6"
      using rest_Cons(3) [OF r'] m base128_len_range [of "tag_number t"] by simp
  qed
  moreover have "lead_octet (constructed t) (tag_cls t) 0x1f AND 0x1f = 0x1f"
    using lead_octet_fields(3) [of "0x1f" "constructed t" "tag_cls t"] by simp
  ultimately show ?thesis
    using rest_Cons(1,2) [OF r'] by (auto simp: read_tag_def Let_def)
qed

lemma read_length_truncated:
  assumes r: "rest d = take n (append_length l)" and n: "n < length_size l"
  shows "\<exists>off. read_length d = Inl (Truncated ''reading length'' off)"
proof (cases n)
  case 0
  with r show ?thesis by (simp add: rest_def read_length_def)
next
  case (Suc m)
  then obtain k where k: "k \<in> {1, 2, 3, 4}" "length_size l = Suc k"
    and hd: "append_length l = of_nat (0x80 + k) # tl (append_length l)"
    using n by (auto simp: length_size_def append_length_def split: if_splits)
  have r': "rest d = of_nat (0x80 + k) # take m (tl (append_length l))"
    using r hd Suc by (metis take_Suc_Cons)
  note q = rest_Cons [OF this]
  have "length (rest (advance 1 d)) = m"
    using q(3) n Suc k(2) length_append_length [of l] by simp
  then have "length (dec_data d) = dec_off d + 1 + m"
    using q(1) by (simp add: rest_def)
  with q(1,2) k n Suc show ?thesis
    by (auto simp: read_length_def Let_def)
qed

text \<open>Every proper prefix of an encoded element is reported as truncated.\<close>

lemma read_tlv_prefix:
  assumes r: "rest d = take n (append_tlv t c)" and n: "n < length (append_tlv t c)"
    and c: "length c < 2 ^ 32"
  shows "\<exists>what off. read_tlv d = Inl (Truncated what off)"
proof -
  let ?T = "append_tag t" and ?L = "append_length (length c)"
  consider "n < length ?T" | m where "n = length ?T + m" "m < length_size (length c)"
    | m where "n = length ?T + length_size (length c) + m" "m < length c"
  proof (cases "n < length ?T")
    case False
    then obtain m where m: "n = length ?T + m" by (metis le_add_diff_inverse not_less)
    show ?thesis
    proof (cases "m < length_size (length c)")
      case False
      then obtain j where "m = length_size (length c) + j" by (metis le_add_diff_inverse not_less)
      with m n show ?thesis by (intro that(3) [of j]) (simp_all add: append_tlv_def)
    qed (use m that in auto)
  qed (use that in auto)
  then show ?thesis
  proof cases
    case 1
    with r read_tag_truncated [of d n t] show ?thesis
      by (auto simp: append_tlv_def read_tlv_def read_tlv_at.simps)
  next
    case 2
    with r have r1: "rest d = ?T @ take m ?L" by (simp add: append_tlv_def)
    from read_length_truncated [OF rest_append(2) [OF r1] 2(2)] read_tag_append_tag [OF r1]
    show ?thesis by (auto simp: read_tlv_def read_tlv_at.simps)
  next
    case 3
    with r have r1: "rest d = ?T @ ?L @ take m c" by (simp add: append_tlv_def)
    note r2 = rest_append(2) [OF r1]
    note l = read_length_append_length [OF r2 c]
    have "length (rest (advance (length ?L) (advance (length ?T) d))) = m"
      using rest_append(2) [OF r2] 3(2) by simp
    with 3(2) read_tag_append_tag [OF r1] l show ?thesis
      by (auto simp: read_tlv_def read_tlv_at.simps rest_def)
  qed
qed

section \<open>The nesting limit\<close>

definition indefinite_headers :: "nat \<Rightarrow> bytes" where
  "indefinite_headers n = concat (replicate n [0x30, 0x80])"

lemma read_indefinite_header:
  assumes "rest d = 0x30 # 0x80 # zs"
  shows "read_tag d = Inr (TAG_SEQUENCE, advance 1 d)"
    "read_length (advance 1 d) = Inr ((0, True), advance 2 d)"
    "rest (advance 2 d) = zs"
proof -
  note r = rest_Cons [OF assms]
  note s = rest_Cons [OF r(3)]
  show "read_tag d = Inr (TAG_SEQUENCE, advance 1 d)"
    using r by (simp add: read_tag_def Let_def from_bits_def)
  show "read_length (advance 1 d) = Inr ((0, True), advance 2 d)"
    using s by (simp add: read_length_def Let_def)
  show "rest (advance 2 d) = zs" using s by (simp add: numeral_2_eq_2)
qed

lemma read_tlv_at_too_deep:
  "rest d = indefinite_headers n @ zs \<Longrightarrow> MAX_DEPTH + 1 < k + n \<Longrightarrow>
     \<exists>off. read_tlv_at k d = Inl (TooDeep off)"
proof (induction n arbitrary: k d)
  case 0
  then show ?case by (simp add: read_tlv_at.simps)
next
  case (Suc n)
  show ?case
  proof (cases "k > MAX_DEPTH")
    case False
    have r: "rest d = 0x30 # 0x80 # indefinite_headers n @ zs"
      using Suc.prems(1) by (simp add: indefinite_headers_def)
    note h = read_indefinite_header [OF r]
    obtain m where m: "n = Suc m" using False Suc.prems(2) by (cases n) auto
    then have "rest (advance 2 d) = 0x30 # 0x80 # indefinite_headers m @ zs"
      using h(3) by (simp add: indefinite_headers_def)
    note q = rest_Cons [OF this]
    from Suc.IH [OF h(3), of "Suc k"] Suc.prems(2) False h q
    show ?thesis by (auto simp: read_tlv_at.simps [of k] scan_eoc.simps [of _ _ k "advance 2 d"])
  qed (simp add: read_tlv_at.simps)
qed

end
