(* ===== verification/Rust_Float.thy ===== *)
theory Rust_Float
  imports Prelude
begin

text \<open>
  The part of Rust's IEEE 754 semantics the codecs use: an \<open>f32\<close> and an \<open>f64\<close> are their
  bit patterns (\<open>to_bits\<close> and \<open>from_bits\<close> are identities), \<open>f64::from\<close> is the exact
  widening, \<open>as f32\<close> the narrowing that rounds to nearest, ties to even, and \<open>==\<close> the
  comparison in which a NaN differs from everything and the two zeros are equal. A NaN is
  converted to a quiet NaN with the leading payload bits kept.
\<close>

type_synonym f32 = u32
type_synonym f64 = u64

definition f32_sign :: "f32 \<Rightarrow> nat" where "f32_sign x = unat x div 2 ^ 31"
definition f32_exp :: "f32 \<Rightarrow> nat" where "f32_exp x = unat x div 2 ^ 23 mod 2 ^ 8"
definition f32_frac :: "f32 \<Rightarrow> nat" where "f32_frac x = unat x mod 2 ^ 23"
definition f64_sign :: "f64 \<Rightarrow> nat" where "f64_sign x = unat x div 2 ^ 63"
definition f64_exp :: "f64 \<Rightarrow> nat" where "f64_exp x = unat x div 2 ^ 52 mod 2 ^ 11"
definition f64_frac :: "f64 \<Rightarrow> nat" where "f64_frac x = unat x mod 2 ^ 52"

definition f32_nan :: "f32 \<Rightarrow> bool" where "f32_nan x \<longleftrightarrow> f32_exp x = 255 \<and> f32_frac x \<noteq> 0"
definition f64_nan :: "f64 \<Rightarrow> bool" where "f64_nan x \<longleftrightarrow> f64_exp x = 2047 \<and> f64_frac x \<noteq> 0"

definition f32_eq :: "f32 \<Rightarrow> f32 \<Rightarrow> bool" where
  "f32_eq a b \<longleftrightarrow> \<not> f32_nan a \<and> \<not> f32_nan b \<and>
     (a = b \<or> unat a mod 2 ^ 31 = 0 \<and> unat b mod 2 ^ 31 = 0)"

definition f64_eq :: "f64 \<Rightarrow> f64 \<Rightarrow> bool" where
  "f64_eq a b \<longleftrightarrow> \<not> f64_nan a \<and> \<not> f64_nan b \<and>
     (a = b \<or> unat a mod 2 ^ 63 = 0 \<and> unat b mod 2 ^ 63 = 0)"

text \<open>The position of the leading one of a positive number.\<close>

fun msb_pos :: "nat \<Rightarrow> nat" where
  "msb_pos n = (if n < 2 then 0 else Suc (msb_pos (n div 2)))"

declare msb_pos.simps [simp del]

definition f64_mag_of_f32 :: "nat \<Rightarrow> nat \<Rightarrow> nat" where
  "f64_mag_of_f32 e m =
     (if e = 255 then (if m = 0 then 2047 * 2 ^ 52 else 2047 * 2 ^ 52 + 2 ^ 51 + (m mod 2 ^ 22) * 2 ^ 29)
      else if e = 0 then
        (if m = 0 then 0
         else let k = msb_pos m in (k + 874) * 2 ^ 52 + (m - 2 ^ k) * 2 ^ (52 - k))
      else (e + 896) * 2 ^ 52 + m * 2 ^ 29)"

definition f64_of_f32 :: "f32 \<Rightarrow> f64" where
  "f64_of_f32 x = of_nat (f32_sign x * 2 ^ 63 + f64_mag_of_f32 (f32_exp x) (f32_frac x))"

definition round_half_even :: "nat \<Rightarrow> nat \<Rightarrow> nat" where
  "round_half_even m s =
     (let q = m div 2 ^ s; r = m mod 2 ^ s
      in if 2 * r > 2 ^ s \<or> (2 * r = 2 ^ s \<and> odd q) then q + 1 else q)"

definition f32_mag_of_f64 :: "nat \<Rightarrow> nat \<Rightarrow> nat" where
  "f32_mag_of_f64 e m =
     (if e = 2047 then (if m = 0 then 255 * 2 ^ 23 else 255 * 2 ^ 23 + 2 ^ 22 + (m div 2 ^ 29) mod 2 ^ 22)
      else if e = 0 then 0
      else if e < 897 then round_half_even (2 ^ 52 + m) (926 - e)
      else min (255 * 2 ^ 23) ((e - 897) * 2 ^ 23 + round_half_even (2 ^ 52 + m) 29))"

definition f32_of_f64 :: "f64 \<Rightarrow> f32" where
  "f32_of_f64 x = of_nat (f64_sign x * 2 ^ 31 + f32_mag_of_f64 (f64_exp x) (f64_frac x))"

lemma msb_pos_bounds: "0 < n \<Longrightarrow> 2 ^ msb_pos n \<le> n \<and> n < 2 ^ Suc (msb_pos n)"
proof (induction n rule: msb_pos.induct)
  case (1 n)
  show ?case
  proof (cases "n < 2")
    case True
    with "1.prems" show ?thesis by (simp add: msb_pos.simps)
  next
    case False
    with "1.IH" have "2 ^ msb_pos (n div 2) \<le> n div 2 \<and> n div 2 < 2 ^ Suc (msb_pos (n div 2))"
      by simp
    then show ?thesis using False by (simp add: msb_pos.simps [of n]) linarith
  qed
qed

lemma f32_fields: "unat x = f32_sign x * 2 ^ 31 + f32_exp x * 2 ^ 23 + f32_frac x"
  and f32_sign_bound: "f32_sign x < 2"
  and f32_exp_bound: "f32_exp x < 256"
  and f32_frac_bound: "f32_frac x < 2 ^ 23"
proof -
  have b: "unat x < 2 ^ 32" using unat_word_bound [of x] by simp
  show "f32_sign x < 2" using b by (simp add: f32_sign_def less_mult_imp_div_less)
  show "f32_exp x < 256" "f32_frac x < 2 ^ 23" by (simp_all add: f32_exp_def f32_frac_def)
  have lin: "u = s * 2 ^ 31 + e * 2 ^ 23 + m" if "u = d * 2 ^ 23 + m" "d = s * 2 ^ 8 + e" for u d s e m :: nat
    using that by simp
  have "unat x = unat x div 2 ^ 23 * 2 ^ 23 + unat x mod 2 ^ 23"
    by (rule div_mult_mod_eq [symmetric])
  moreover have "unat x div 2 ^ 23 = unat x div 2 ^ 31 * 2 ^ 8 + unat x div 2 ^ 23 mod 2 ^ 8"
    using div_mult_mod_eq [of "unat x div 2 ^ 23" "2 ^ 8"] by (simp add: div_mult2_eq [symmetric])
  ultimately show "unat x = f32_sign x * 2 ^ 31 + f32_exp x * 2 ^ 23 + f32_frac x"
    unfolding f32_sign_def f32_exp_def f32_frac_def by (rule lin)
qed

lemma f64_fields_of_nat:
  assumes "s < 2" "e < 2048" "m < 2 ^ 52"
  defines "x \<equiv> of_nat (s * 2 ^ 63 + (e * 2 ^ 52 + m)) :: f64"
  shows "f64_sign x = s" "f64_exp x = e" "f64_frac x = m"
proof -
  have lt: "e * 2 ^ 52 + m < 2 ^ 63" using assms(2,3) by simp
  then have "s * 2 ^ 63 + (e * 2 ^ 52 + m) < 2 ^ 64" using assms(1) by simp
  then have u: "unat x = s * 2 ^ 63 + (e * 2 ^ 52 + m)"
    unfolding x_def by (intro unat_of_nat_small) simp
  show "f64_sign x = s" using lt by (simp add: f64_sign_def u)
  have "unat x = (s * 2 ^ 11 + e) * 2 ^ 52 + m" by (simp add: u)
  then have d: "unat x div 2 ^ 52 = s * 2 ^ 11 + e" and "unat x mod 2 ^ 52 = m"
    using assms(3) by (simp_all del: power_numeral)
  then show "f64_exp x = e" "f64_frac x = m"
    using assms(2) by (simp_all add: f64_exp_def f64_frac_def)
qed

lemma round_half_even_exact: "round_half_even (q * 2 ^ s) s = q"
  by (simp add: round_half_even_def)

text \<open>Widening is exact, so narrowing the widened value gives it back.\<close>

lemma f64_mag_of_f32_fields:
  assumes "e < 256" "m < 2 ^ 23" "\<not> (e = 255 \<and> m \<noteq> 0)" "0 < e \<or> 0 < m"
  obtains E M where "f64_mag_of_f32 e m = E * 2 ^ 52 + M" "E < 2048" "M < 2 ^ 52"
    "f32_mag_of_f64 E M = e * 2 ^ 23 + m"
proof (cases "e = 255")
  case True
  with assms show ?thesis
    by (intro that [of 2047 0]) (simp_all add: f64_mag_of_f32_def f32_mag_of_f64_def)
next
  case ne: False
  show ?thesis
  proof (cases "e = 0")
    case True
    define k where "k = msb_pos m"
    have m: "0 < m" using True assms(4) by simp
    have k: "2 ^ k \<le> m" "m < 2 ^ Suc k" using msb_pos_bounds [OF m] by (simp_all add: k_def)
    have k23: "k < 23"
    proof (rule ccontr)
      assume "\<not> k < 23"
      then have "(2::nat) ^ 23 \<le> 2 ^ k" by (intro power_increasing) simp_all
      with k assms(2) show False by linarith
    qed
    have sp: "(2::nat) ^ 52 = 2 ^ k * 2 ^ (52 - k)" using k23 by (simp flip: power_add)
    have "(m - 2 ^ k) * 2 ^ (52 - k) < 2 ^ k * 2 ^ (52 - k)" using k by simp
    then have M: "(m - 2 ^ k) * 2 ^ (52 - k) < 2 ^ 52" by (simp only: sp)
    have "2 ^ 52 + (m - 2 ^ k) * 2 ^ (52 - k) = m * 2 ^ (52 - k)"
      using k(1) by (simp only: sp flip: add_mult_distrib) simp
    then have "f32_mag_of_f64 (k + 874) ((m - 2 ^ k) * 2 ^ (52 - k)) = m"
      using k23 round_half_even_exact [of m "52 - k"] by (simp add: f32_mag_of_f64_def)
    with True m M k23 show ?thesis
      by (intro that [of "k + 874" "(m - 2 ^ k) * 2 ^ (52 - k)"])
        (simp_all add: f64_mag_of_f32_def k_def Let_def)
  next
    case False
    have "2 ^ 52 + m * 2 ^ 29 = (2 ^ 23 + m) * (2::nat) ^ 29" by simp
    then have "round_half_even (2 ^ 52 + m * 2 ^ 29) 29 = 2 ^ 23 + m"
      by (simp only: round_half_even_exact)
    with False ne assms show ?thesis
      by (intro that [of "e + 896" "m * 2 ^ 29"])
        (auto simp: f64_mag_of_f32_def f32_mag_of_f64_def min_def)
  qed
qed

lemma f32_of_f64_of_f32: "\<not> f32_nan x \<Longrightarrow> f32_of_f64 (f64_of_f32 x) = x"
proof -
  assume nn: "\<not> f32_nan x"
  have "of_nat (unat x) = x" by simp
  then have x: "of_nat (f32_sign x * 2 ^ 31 + (f32_exp x * 2 ^ 23 + f32_frac x)) = x"
    by (simp only: f32_fields [of x] add.assoc)
  show ?thesis
  proof (cases "0 < f32_exp x \<or> 0 < f32_frac x")
    case True
    obtain E M where em: "f64_mag_of_f32 (f32_exp x) (f32_frac x) = E * 2 ^ 52 + M" "E < 2048"
      "M < 2 ^ 52" "f32_mag_of_f64 E M = f32_exp x * 2 ^ 23 + f32_frac x"
      using f64_mag_of_f32_fields [OF f32_exp_bound f32_frac_bound _ True] nn
      unfolding f32_nan_def by blast
    note f = f64_fields_of_nat [OF f32_sign_bound [of x] em(2,3)]
    from f em x show ?thesis
      unfolding f64_of_f32_def em(1) f32_of_f64_def by (simp only: f em)
  next
    case False
    then have z: "f32_exp x = 0" "f32_frac x = 0" by simp_all
    note f = f64_fields_of_nat [OF f32_sign_bound [of x], of 0 0]
    from f x z show ?thesis
      by (simp add: f64_of_f32_def f32_of_f64_def f64_mag_of_f32_def f32_mag_of_f64_def)
  qed
qed

lemma f32_fields_of_nat:
  assumes "s < 2" "e < 256" "m < 2 ^ 23"
  shows "f32_exp (of_nat (s * 2 ^ 31 + (e * 2 ^ 23 + m))) = e"
    "f32_frac (of_nat (s * 2 ^ 31 + (e * 2 ^ 23 + m))) = m"
proof -
  let ?x = "of_nat (s * 2 ^ 31 + (e * 2 ^ 23 + m)) :: f32"
  have "s * 2 ^ 31 + (e * 2 ^ 23 + m) < 2 ^ 32" using assms by simp
  then have "unat ?x = s * 2 ^ 31 + (e * 2 ^ 23 + m)" by (intro unat_of_nat_small) simp
  then have "unat ?x = (s * 2 ^ 8 + e) * 2 ^ 23 + m" by simp
  then have "unat ?x div 2 ^ 23 = s * 2 ^ 8 + e" "unat ?x mod 2 ^ 23 = m"
    using assms(3) by (simp_all del: power_numeral)
  then show "f32_exp ?x = e" "f32_frac ?x = m"
    using assms(2) by (simp_all only: f32_exp_def f32_frac_def) simp
qed

lemma f32_nan_of_f64_of_f32:
  assumes "f32_nan x"
  shows "f32_nan (f32_of_f64 (f64_of_f32 x))"
proof -
  from assms have e: "f32_exp x = 255" "f32_frac x \<noteq> 0" by (simp_all add: f32_nan_def)
  let ?M = "2 ^ 51 + (f32_frac x mod 2 ^ 22) * 2 ^ 29 :: nat"
  have M: "?M < 2 ^ 52" using mod_less_divisor [of "2 ^ 22" "f32_frac x"] by simp
  have g: "f64_mag_of_f32 (f32_exp x) (f32_frac x) = 2047 * 2 ^ 52 + ?M"
    using e by (simp add: f64_mag_of_f32_def)
  have "(2047::nat) < 2048" by simp
  note f = f64_fields_of_nat [OF f32_sign_bound [of x] this M]
  let ?m = "2 ^ 22 + (?M div 2 ^ 29) mod 2 ^ 22 :: nat"
  have m: "?m < 2 ^ 23" using mod_less_divisor [of "2 ^ 22" "?M div 2 ^ 29"] by simp
  have "f32_of_f64 (f64_of_f32 x) = of_nat (f32_sign x * 2 ^ 31 + (255 * 2 ^ 23 + ?m))"
    unfolding f64_of_f32_def g f32_of_f64_def f by (simp add: f32_mag_of_f64_def)
  then show ?thesis
    using f32_fields_of_nat [OF f32_sign_bound [of x] _ m, of 255] by (simp add: f32_nan_def)
qed

end
