(* ===== verification/Asn1_Primitives.thy ===== *)
theory Asn1_Primitives
  imports Asn1_Tag Rust_Float
begin

text \<open>
  The primitive value codecs of \<open>src/asn1/primitives.rs\<close>: minimal two's-complement and
  unsigned integers, booleans, bit strings and the MMS floating-point octets. The element
  builders of the same file are in \<open>Asn1_Element\<close>.

  An out-of-range index of the source panics; the bit accessors therefore return an option
  with \<open>None\<close> for the panic. The unsigned subtraction in \<open>append_bit_string\<close> wraps, as it
  does in the release profile.
\<close>

section \<open>Signed integers\<close>

function int_size_loop :: "i64 \<Rightarrow> nat \<Rightarrow> nat" where
  "int_size_loop v n =
     (if - 0x80 \<le> sint v \<and> sint v \<le> 0x7f then n
      else int_size_loop (signed_drop_bit 8 v) (n + 1))"
  by pat_completeness auto
termination
proof (relation "measure (\<lambda>(v, n). nat \<bar>sint v\<bar>)")
  fix v :: i64 and n :: nat
  assume "\<not> (- 0x80 \<le> sint v \<and> sint v \<le> 0x7f)"
  moreover have "sint (signed_drop_bit 8 v) = sint v div 256"
    by (simp add: sint_signed_drop_bit_eq drop_bit_eq_div)
  moreover have "\<bar>k div 256\<bar> < \<bar>k\<bar>" if "\<not> (- 128 \<le> k \<and> k \<le> 127)" for k :: int
    using that by (cases "0 \<le> k") auto
  ultimately show "((signed_drop_bit 8 v, n + 1), v, n) \<in> measure (\<lambda>(v, n). nat \<bar>sint v\<bar>)"
    by auto
qed simp

declare int_size_loop.simps [simp del]

definition int_size :: "i64 \<Rightarrow> nat" where
  "int_size v = int_size_loop v 1"

definition append_int :: "i64 \<Rightarrow> bytes" where
  "append_int v = map (\<lambda>i. ucast (signed_drop_bit (i * 8) v)) (rev [0..<int_size v])"

definition decode_int :: "bytes \<Rightarrow> asn1_error + i64" where
  "decode_int content =
     (case content of
        [] \<Rightarrow> Inl (BadValue (BvIntegerOctets 0))
      | b # bs \<Rightarrow>
          if length content > 8 then Inl (BadValue (BvIntegerOctets (length content)))
          else Inr (be_fold (scast b) bs))"

section \<open>Unsigned integers\<close>

function uint_size_loop :: "u64 \<Rightarrow> nat \<Rightarrow> nat" where
  "uint_size_loop v n = (if v > 0x7f then uint_size_loop (drop_bit 8 v) (n + 1) else n)"
  by pat_completeness auto
termination
proof (relation "measure (\<lambda>(v, n). unat v)")
  fix v :: u64 and n :: nat
  assume "v > 0x7f"
  then have "0x7f < unat v" by (simp add: word_less_nat_alt)
  moreover have "unat (drop_bit 8 v) = unat v div 256" by (simp add: unat_drop_bit_div)
  ultimately show "((drop_bit 8 v, n + 1), v, n) \<in> measure (\<lambda>(v, n). unat v)" by simp
qed simp

declare uint_size_loop.simps [simp del]

definition uint_size :: "u64 \<Rightarrow> nat" where
  "uint_size v = uint_size_loop v 1"

text \<open>\<open>u64::checked_shr\<close>: \<open>None\<close> when the shift is not below the width.\<close>

definition checked_shr64 :: "u64 \<Rightarrow> nat \<Rightarrow> u64 option" where
  "checked_shr64 v k = (if k < 64 then Some (drop_bit k v) else None)"

definition append_uint :: "u64 \<Rightarrow> bytes" where
  "append_uint v =
     map (\<lambda>i. ucast (case checked_shr64 v (i * 8) of Some x \<Rightarrow> x | None \<Rightarrow> 0))
       (rev [0..<uint_size v])"

definition decode_uint :: "bytes \<Rightarrow> asn1_error + u64" where
  "decode_uint content =
     (case content of
        [] \<Rightarrow> Inl (BadValue BvEmptyUnsigned)
      | b # _ \<Rightarrow>
          if length content > 9 \<or> (length content = 9 \<and> b \<noteq> 0)
          then Inl (BadValue (BvUnsignedOctets (length content)))
          else Inr (be_fold 0 content))"

section \<open>Booleans\<close>

definition decode_bool :: "bytes \<Rightarrow> asn1_error + bool" where
  "decode_bool content =
     (case content of
        [b] \<Rightarrow> Inr (b \<noteq> 0)
      | _ \<Rightarrow> Inl (BadValue (BvBooleanOctets (length content))))"

section \<open>Bit strings\<close>

record bit_string =
  bs_bits :: bytes
  bs_length :: nat

definition bit_string_new :: "nat \<Rightarrow> bit_string" where
  "bit_string_new n = \<lparr>bs_bits = replicate ((n + 7) div 8) 0, bs_length = n\<rparr>"

definition bs_bit :: "bit_string \<Rightarrow> nat \<Rightarrow> bool option" where
  "bs_bit bs i =
     (if i \<ge> bs_length bs then Some False
      else if i div 8 < length (bs_bits bs) then
        Some (bs_bits bs ! (i div 8) AND drop_bit (i mod 8) 0x80 \<noteq> 0)
      else None)"

definition set_bit_at :: "bit_string \<Rightarrow> nat \<Rightarrow> bool \<Rightarrow> bit_string option" where
  "set_bit_at bs i v =
     (if i \<ge> bs_length bs then Some bs
      else if i div 8 < length (bs_bits bs) then
        let m = drop_bit (i mod 8) 0x80; b = bs_bits bs ! (i div 8)
        in Some (bs\<lparr>bs_bits := (bs_bits bs)[i div 8 := (if v then b OR m else b AND NOT m)]\<rparr>)
      else None)"

text \<open>The loops of \<open>to_u32\<close> and \<open>from_u32\<close> over \<open>i\<close>, with the bound they stop at.\<close>

fun to_u32_loop :: "bit_string \<Rightarrow> nat list \<Rightarrow> u32 \<Rightarrow> u32 option" where
  "to_u32_loop bs [] v = Some v"
| "to_u32_loop bs (i # is) v =
     (case bs_bit bs i of None \<Rightarrow> None
      | Some b \<Rightarrow> to_u32_loop bs is (if b then v OR push_bit i 1 else v))"

definition to_u32 :: "bit_string \<Rightarrow> u32 option" where
  "to_u32 bs = to_u32_loop bs [0..<min (bs_length bs) 32] 0"

fun from_u32_loop :: "u32 \<Rightarrow> nat list \<Rightarrow> bit_string \<Rightarrow> bit_string option" where
  "from_u32_loop v [] bs = Some bs"
| "from_u32_loop v (i # is) bs =
     (case set_bit_at bs i (v AND push_bit i 1 \<noteq> 0) of None \<Rightarrow> None
      | Some bs' \<Rightarrow> from_u32_loop v is bs')"

definition from_u32 :: "u32 \<Rightarrow> nat \<Rightarrow> bit_string option" where
  "from_u32 v n = from_u32_loop v [0..<min n 32] (bit_string_new n)"

definition append_bit_string :: "bit_string \<Rightarrow> bytes" where
  "append_bit_string bs =
     (of_int (int (length (bs_bits bs)) * 8 - int (bs_length bs))) # bs_bits bs"

definition decode_bit_string :: "bytes \<Rightarrow> asn1_error + bit_string" where
  "decode_bit_string content =
     (case content of
        [] \<Rightarrow> Inl (BadValue BvEmptyBitString)
      | p # bits \<Rightarrow>
          if unat p > 7 \<or> (bits = [] \<and> unat p \<noteq> 0)
          then Inl (BadValue (BvBitStringPadding (unat p)))
          else Inr \<lparr>bs_bits = bits, bs_length = length bits * 8 - unat p\<rparr>)"

section \<open>MMS floating point\<close>

definition append_float32 :: "f32 \<Rightarrow> bytes" where
  "append_float32 v = 8 # to_be_bytes v"

definition append_float64 :: "f64 \<Rightarrow> bytes" where
  "append_float64 v = 11 # to_be_bytes v"

definition decode_float :: "bytes \<Rightarrow> asn1_error + f64" where
  "decode_float content =
     (if length content = 5 then Inr (f64_of_f32 (from_be_bytes (tl content)))
      else if length content = 9 then Inr (be_fold 0 (tl content))
      else Inl (BadValue (BvFloatOctets (length content))))"

section \<open>Integers: minimal encodings that decode back\<close>

definition fits_i8 :: "i64 \<Rightarrow> bool" where
  "fits_i8 v \<longleftrightarrow> - 0x80 \<le> sint v \<and> sint v \<le> 0x7f"

lemma sint_signed_drop: "sint (signed_drop_bit k (v :: i64)) = sint v div 2 ^ k"
  by (simp add: sint_signed_drop_bit_eq drop_bit_eq_div)

lemma sint_i64_range: "- (2 ^ 63) \<le> sint (v :: i64)" "sint (v :: i64) < 2 ^ 63"
  using sint_ge [of v] sint_lt [of v] by simp_all

lemma int_size_loop_spec:
  assumes "- (2 ^ (8 * m + 7)) \<le> sint v" "sint v < 2 ^ (8 * m + 7)"
  shows "\<exists>k \<le> m. int_size_loop v n = n + k \<and> fits_i8 (signed_drop_bit (8 * k) v)"
  using assms
proof (induction m arbitrary: v n)
  case 0
  then have "fits_i8 v" by (simp add: fits_i8_def)
  then have "int_size_loop v n = n" by (simp add: int_size_loop.simps [of v] fits_i8_def)
  with \<open>fits_i8 v\<close> show ?case by (intro exI [of _ 0]) simp
next
  case (Suc m)
  show ?case
  proof (cases "fits_i8 v")
    case True
    then have "int_size_loop v n = n" by (simp add: int_size_loop.simps [of v] fits_i8_def)
    with True show ?thesis by (intro exI [of _ 0]) simp
  next
    case False
    have p: "(2::int) ^ (8 * Suc m + 7) = 2 ^ (8 * m + 7) * 256"
      by (simp add: power_add)
    have "- (2 ^ (8 * m + 7)) \<le> sint v div 256" "sint v div 256 < 2 ^ (8 * m + 7)"
      using Suc.prems unfolding p by linarith+
    then obtain k where "k \<le> m" "int_size_loop (signed_drop_bit 8 v) (n + 1) = n + 1 + k"
      "fits_i8 (signed_drop_bit (8 * k) (signed_drop_bit 8 v))"
      using Suc.IH [of "signed_drop_bit 8 v" "n + 1"] by (auto simp: sint_signed_drop)
    then show ?thesis
      using False
      by (intro exI [of _ "Suc k"]) (simp add: int_size_loop.simps [of v] fits_i8_def add.commute)
  qed
qed

lemma int_size_cases:
  obtains k where "k \<le> 7" "int_size v = Suc k" "fits_i8 (signed_drop_bit (8 * k) v)"
  using int_size_loop_spec [of 7 v 1] sint_i64_range [of v] by (auto simp: int_size_def)

lemma int_size_range: "1 \<le> int_size v" "int_size v \<le> 8"
  by (rule int_size_cases [of v]; simp)+

lemma length_append_int [simp, size_simps]: "length (append_int v) = int_size v"
  by (simp add: append_int_def)

lemma signed_octet_step:
  fixes v :: i64
  shows "push_bit 8 (signed_drop_bit (k + 8) v) OR ucast (ucast (signed_drop_bit k v) :: u8)
    = signed_drop_bit k v"
  by (rule bit_word_eqI) (auto simp: octet_bits not_less algebra_simps)

lemma be_fold_signed:
  fixes v :: i64
  shows "be_fold (signed_drop_bit (8 * n) v) (map (\<lambda>i. ucast (signed_drop_bit (i * 8) v)) (rev [0..<n])) = v"
proof (induction n)
  case 0
  show ?case by simp
next
  case (Suc n)
  then show ?case
    using signed_octet_step [of "8 * n" v] by (simp add: mult.commute add.commute)
qed

lemma scast_ucast_fits: "fits_i8 w \<Longrightarrow> scast (ucast w :: u8) = (w :: i64)"
proof -
  assume f: "fits_i8 w"
  have "sint (ucast w :: u8) = signed_take_bit 7 (sint w)"
    by transfer (simp add: signed_take_bit_take_bit signed_take_bit_signed_take_bit)
  also have "\<dots> = sint w"
    using f by (intro signed_take_bit_int_eq_self) (auto simp: fits_i8_def)
  finally have "sint (scast (ucast w :: u8) :: i64) = sint w"
    by (simp add: scast_eq sint_sbintrunc')
  then show ?thesis by (rule signed_word_eqI)
qed

lemma decode_int_append_int [simp, wire_simps]: "decode_int (append_int v) = Inr v"
proof (rule int_size_cases [of v])
  fix k
  assume k: "k \<le> 7" "int_size v = Suc k" "fits_i8 (signed_drop_bit (8 * k) v)"
  have "append_int v = ucast (signed_drop_bit (8 * k) v) #
      map (\<lambda>i. ucast (signed_drop_bit (i * 8) v)) (rev [0..<k])"
    using k(2) by (simp add: append_int_def mult.commute)
  then show ?thesis
    using k(1) scast_ucast_fits [OF k(3)] be_fold_signed [of k v]
    by (simp add: decode_int_def)
qed

text \<open>The range of what \<open>n\<close> octets can say, and hence the minimality of the encoding.\<close>

lemma sint_be_step:
  assumes "- (2 ^ 55) \<le> sint v" "sint v < 2 ^ 55"
  shows "sint (push_bit 8 v OR ucast (b :: u8) :: i64) = sint v * 256 + int (unat b)"
proof -
  have "push_bit 8 v AND (ucast b :: i64) = 0"
    by (rule bit_word_eqI) (auto simp: octet_bits dest: bit_imp_le_length)
  then have e: "push_bit 8 v OR (ucast b :: i64) = v * 256 + ucast b"
    by (simp add: disjunctive_add_eq_or push_bit_eq_mult flip: disjunctive_add_eq_or)
  have "v * 256 + ucast b = (of_int (sint v * 256 + int (unat b)) :: i64)"
    by simp
  then have "sint (push_bit 8 v OR (ucast b :: i64)) = signed_take_bit 63 (sint v * 256 + int (unat b))"
    by (simp only: e signed_of_int) simp
  also have "\<dots> = sint v * 256 + int (unat b)"
  proof (rule signed_take_bit_int_eq_self)
    have ub: "int (unat b) \<le> 255" using unat_u8_bound [of b] by linarith
    show "- (2 ^ 63) \<le> sint v * 256 + int (unat b)"
      using assms(1) by (simp del: of_nat_unat)
    show "sint v * 256 + int (unat b) < 2 ^ 63"
      using assms(2) ub by (simp del: of_nat_unat)
  qed
  finally show ?thesis .
qed

lemma sint_be_fold_range:
  assumes "- (2 ^ (8 * m + 7)) \<le> sint v" "sint v < 2 ^ (8 * m + 7)" "m + length bs \<le> 7"
  shows "- (2 ^ (8 * (m + length bs) + 7)) \<le> sint (be_fold (v :: i64) bs) \<and>
    sint (be_fold v bs) < 2 ^ (8 * (m + length bs) + 7)"
  using assms
proof (induction bs arbitrary: m v)
  case Nil
  then show ?case by simp
next
  case (Cons b bs)
  have "(2::int) ^ (8 * m + 7) \<le> 2 ^ 55"
    using Cons.prems(3) by (intro power_increasing) simp_all
  then have s: "sint (push_bit 8 v OR ucast b) = sint v * 256 + int (unat b)"
    using Cons.prems(1,2) by (intro sint_be_step) linarith+
  have p: "(2::int) ^ (8 * Suc m + 7) = 2 ^ (8 * m + 7) * 256"
    by (simp add: power_add)
  have "int (unat b) < 256" using unat_u8_bound [of b] by linarith
  then have r: "- (2 ^ (8 * Suc m + 7)) \<le> sint (push_bit 8 v OR ucast b)"
    "sint (push_bit 8 v OR ucast b) < 2 ^ (8 * Suc m + 7)"
    using Cons.prems(1,2) unfolding p s by linarith+
  have e: "m + length (b # bs) = Suc m + length bs" by simp
  show ?case
    using Cons.IH [OF r] Cons.prems(3) unfolding e be_fold_simps by blast
qed

lemma sint_u8_range: "- 128 \<le> sint (b :: u8)" "sint (b :: u8) < 128"
  using sint_ge [of b] sint_lt [of b] by simp_all

lemma sint_scast_u8: "sint (scast (b :: u8) :: i64) = sint b"
proof -
  have "signed_take_bit 63 (sint b) = sint b"
    using sint_u8_range [of b] by (intro signed_take_bit_int_eq_self) simp_all
  then show ?thesis by (simp add: signed_scast_eq)
qed

lemma decode_int_range:
  assumes "decode_int (b # bs) = Inr v"
  shows "- (2 ^ (8 * length bs + 7)) \<le> sint v \<and> sint v < 2 ^ (8 * length bs + 7)"
proof -
  have v: "v = be_fold (scast b) bs" and l: "0 + length bs \<le> 7"
    using assms by (simp_all add: decode_int_def split: if_splits)
  have "- (2 ^ (8 * 0 + 7)) \<le> sint (scast b :: i64)" "sint (scast b :: i64) < 2 ^ (8 * 0 + 7)"
    using sint_u8_range [of b] by (simp_all add: sint_scast_u8)
  from sint_be_fold_range [OF this l] show ?thesis unfolding v by (simp only: add_0)
qed

lemma int_size_minimal:
  assumes "decode_int content = Inr v"
  shows "int_size v \<le> length content"
proof (cases content)
  case Nil
  with assms show ?thesis by (simp add: decode_int_def)
next
  case (Cons b bs)
  with assms decode_int_range [of b bs v]
  have "- (2 ^ (8 * length bs + 7)) \<le> sint v" "sint v < 2 ^ (8 * length bs + 7)" by blast+
  from int_size_loop_spec [OF this, of 1] show ?thesis unfolding Cons int_size_def by auto
qed

lemma uint_size_loop_spec:
  assumes "unat v < 2 ^ (8 * m + 7)"
  shows "\<exists>k \<le> m. uint_size_loop v n = n + k \<and> unat (drop_bit (8 * k) v) < 128"
  using assms
proof (induction m arbitrary: v n)
  case 0
  then show ?case
    by (intro exI [of _ 0]) (auto simp: uint_size_loop.simps [of v] word_less_nat_alt)
next
  case (Suc m)
  show ?case
  proof (cases "v > 0x7f")
    case False
    then show ?thesis
      by (intro exI [of _ 0]) (auto simp: uint_size_loop.simps [of v] word_less_nat_alt)
  next
    case True
    have p: "(2::nat) ^ (8 * Suc m + 7) = 2 ^ (8 * m + 7) * 256"
      by (simp add: power_add)
    have "unat (drop_bit 8 v) = unat v div 256"
      by (simp add: unat_drop_bit_div)
    then have "unat (drop_bit 8 v) < 2 ^ (8 * m + 7)"
      using Suc.prems unfolding p by linarith
    from Suc.IH [OF this, of "n + 1"] obtain k where
      "k \<le> m" "uint_size_loop (drop_bit 8 v) (n + 1) = n + 1 + k"
      "unat (drop_bit (8 * k) (drop_bit 8 v)) < 128" by auto
    then show ?thesis using True
      by (intro exI [of _ "Suc k"]) (simp add: uint_size_loop.simps [of v] drop_bit_drop_bit add.commute)
  qed
qed

lemma uint_size_cases:
  obtains k where "k \<le> 8" "uint_size v = Suc k" "unat (drop_bit (8 * k) v) < 128"
proof -
  have "unat v < 2 ^ (8 * 8 + 7)"
    using unat_word_bound [of v] by simp
  from uint_size_loop_spec [OF this, of 1] that show ?thesis
    by (auto simp: uint_size_def)
qed

lemma append_uint_be_bytes: "append_uint v = be_bytes (uint_size v) v"
proof -
  have "(case checked_shr64 v (i * 8) of Some x \<Rightarrow> x | None \<Rightarrow> 0) = drop_bit (8 * i) v" for i
    using drop_bit_all [of "8 * i" v] by (simp add: checked_shr64_def mult.commute)
  then show ?thesis by (simp add: append_uint_def be_bytes_def)
qed

lemma length_append_uint [simp, size_simps]: "length (append_uint v) = uint_size v"
  by (simp add: append_uint_be_bytes)

lemma uint_size_range: "1 \<le> uint_size v" "uint_size v \<le> 9"
  by (rule uint_size_cases [of v]; simp)+

lemma decode_uint_append_uint [simp, wire_simps]: "decode_uint (append_uint v) = Inr v"
proof (rule uint_size_cases [of v])
  fix k
  assume k: "k \<le> 8" "uint_size v = Suc k" "unat (drop_bit (8 * k) v) < 128"
  have "drop_bit (8 * Suc k) v = drop_bit 8 (drop_bit (8 * k) v)"
    by (simp add: drop_bit_drop_bit add.commute)
  moreover have "unat (drop_bit 8 (drop_bit (8 * k) v)) = 0"
    using k(3) by (simp only: unat_drop_bit_div) simp
  ultimately have "drop_bit (8 * Suc k) v = 0" by (simp only: unat_eq_zero)
  then have f: "be_fold 0 (be_bytes (Suc k) v) = v"
    using be_fold_be_bytes [of "Suc k" v] by simp
  have "k = 8 \<longrightarrow> ucast (drop_bit (8 * k) v) = (0 :: u8)"
    using drop_bit_all [of 64 v] by simp
  then show ?thesis
    using f k by (simp add: decode_uint_def append_uint_be_bytes be_bytes_Suc)
qed

lemma decode_bool_enc [simp, wire_simps]: "decode_bool [if v then 0xff else 0x00] = Inr v"
  by (simp add: decode_bool_def)

section \<open>Bit strings: cells and conversions\<close>

text \<open>A bit string is well formed when its octets hold its bits with fewer than eight to spare.\<close>

definition bs_wf :: "bit_string \<Rightarrow> bool" where
  "bs_wf bs \<longleftrightarrow> bs_length bs \<le> 8 * length (bs_bits bs) \<and> 8 * length (bs_bits bs) < bs_length bs + 8"

lemma bs_wf_new [simp]: "bs_wf (bit_string_new n)"
  by (auto simp: bs_wf_def bit_string_new_def)

lemma decode_append_bit_string [wire_simps]:
  assumes "bs_wf bs"
  shows "decode_bit_string (append_bit_string bs) = Inr bs"
proof -
  define p where "p = 8 * length (bs_bits bs) - bs_length bs"
  have p: "p < 8" "bs_length bs = length (bs_bits bs) * 8 - p" "bs_bits bs = [] \<Longrightarrow> p = 0"
    using assms by (auto simp: p_def bs_wf_def)
  have "int (length (bs_bits bs)) * 8 - int (bs_length bs) = int p"
    using assms by (auto simp: p_def bs_wf_def)
  moreover have "unat (of_int (int p) :: u8) = p"
    using p(1) by (simp add: unsigned_of_nat take_bit_nat_eq_self_iff)
  ultimately show ?thesis
    using p by (simp add: append_bit_string_def decode_bit_string_def)
qed

lemma decode_bit_string_wf:
  assumes "decode_bit_string c = Inr bs"
  shows "bs_wf bs" "append_bit_string bs = c"
proof -
  from assms obtain p bits where c: "c = p # bits" "unat p \<le> 7" "bits = [] \<Longrightarrow> unat p = 0"
    and bs: "bs = \<lparr>bs_bits = bits, bs_length = length bits * 8 - unat p\<rparr>"
    by (auto simp: decode_bit_string_def split: list.splits if_splits)
  have le: "unat p \<le> length bits * 8" using c by (cases bits) auto
  then show "bs_wf bs" using c(2) by (auto simp: bs bs_wf_def)
  have "int (length bits) * 8 - int (length bits * 8 - unat p) = uint p"
    using le by (simp add: of_nat_diff)
  then show "append_bit_string bs = c" by (simp add: append_bit_string_def bs c(1))
qed

lemma octet_mask_bit:
  assumes "k < 8"
  shows "bit (drop_bit k 0x80 :: u8) n \<longleftrightarrow> n = 7 - k"
  using assms by (auto simp: octet_bits)

lemma octet_masked:
  assumes "k < 8"
  shows "(b AND drop_bit k 0x80 \<noteq> (0 :: u8)) = bit b (7 - k)"
proof -
  have "b AND drop_bit k 0x80 = (if bit b (7 - k) then drop_bit k 0x80 else 0)"
    by (rule bit_word_eqI) (auto simp: bit_and_iff octet_mask_bit [OF assms])
  moreover have "bit (drop_bit k 0x80 :: u8) (7 - k)"
    by (simp add: octet_mask_bit [OF assms])
  then have "drop_bit k 0x80 \<noteq> (0 :: u8)" by auto
  ultimately show ?thesis by simp
qed

lemma bs_bit_wf:
  "bs_wf bs \<Longrightarrow> i < bs_length bs \<Longrightarrow> bs_bit bs i = Some (bit (bs_bits bs ! (i div 8)) (7 - i mod 8))"
  by (auto simp: bs_bit_def bs_wf_def octet_masked)

lemma bs_bit_beyond [simp]: "bs_length bs \<le> i \<Longrightarrow> bs_bit bs i = Some False"
  by (simp add: bs_bit_def)

lemma set_bit_at_wf:
  assumes wf: "bs_wf bs" and i: "i < bs_length bs"
  obtains bs' where "set_bit_at bs i v = Some bs'" "bs_wf bs'" "bs_length bs' = bs_length bs"
    "\<And>j. bs_bit bs' j = (if j = i then Some v else bs_bit bs j)"
proof -
  define m :: u8 where "m = drop_bit (i mod 8) 0x80"
  define b where "b = bs_bits bs ! (i div 8)"
  define bs' where "bs' = bs\<lparr>bs_bits := (bs_bits bs)[i div 8 := (if v then b OR m else b AND NOT m)]\<rparr>"
  have il: "i div 8 < length (bs_bits bs)" using wf i by (auto simp: bs_wf_def)
  have wf': "bs_wf bs'" and len: "bs_length bs' = bs_length bs"
    using wf by (simp_all add: bs'_def bs_wf_def)
  have m: "bit m n \<longleftrightarrow> n = 7 - i mod 8" for n
    by (simp add: m_def octet_mask_bit)
  have "bs_bit bs' j = (if j = i then Some v else bs_bit bs j)" for j
  proof (cases "j < bs_length bs")
    case True
    have "bit (bs_bits bs' ! (j div 8)) (7 - j mod 8) =
        (if j = i then v else bit (bs_bits bs ! (j div 8)) (7 - j mod 8))"
    proof (cases "j div 8 = i div 8")
      case d: True
      have "j = i" if e: "7 - j mod 8 = 7 - i mod 8"
      proof -
        have "j mod 8 < 8" "i mod 8 < 8" by simp_all
        with e have "j mod 8 = i mod 8" by linarith
        with d show ?thesis by (metis mult_div_mod_eq)
      qed
      with d il m show ?thesis
        by (auto simp: bs'_def b_def bit_or_iff bit_and_iff bit_not_iff less_imp_diff_less)
    next
      case False
      then show ?thesis by (auto simp: bs'_def)
    qed
    then show ?thesis using True wf wf' len i by (simp add: bs_bit_wf)
  next
    case False
    with i len show ?thesis by simp
  qed
  with that [of bs'] wf' len il i show ?thesis
    by (simp add: set_bit_at_def bs'_def m_def b_def Let_def)
qed

lemma u32_test_bit: "((v :: u32) AND 2 ^ i \<noteq> 0) = bit v i"
  by (simp add: and_exp_eq_0_iff_not_bit)

lemma from_u32_loop_spec:
  assumes "bs_wf bs" "\<forall>i \<in> set is. i < bs_length bs \<and> i < 32" "distinct is"
  shows "\<exists>bs'. from_u32_loop v is bs = Some bs' \<and> bs_wf bs' \<and> bs_length bs' = bs_length bs \<and>
    (\<forall>j. bs_bit bs' j = (if j \<in> set is then Some (bit v j) else bs_bit bs j))"
  using assms
proof (induction "is" arbitrary: bs)
  case Nil
  then show ?case by simp
next
  case (Cons i "is")
  from Cons.prems have i: "i < bs_length bs" "i < 32" by simp_all
  obtain bs1 where s: "set_bit_at bs i (bit v i) = Some bs1" "bs_wf bs1"
    "bs_length bs1 = bs_length bs" "\<And>j. bs_bit bs1 j = (if j = i then Some (bit v i) else bs_bit bs j)"
    using set_bit_at_wf [OF Cons.prems(1) i(1), of "bit v i"] by metis
  from Cons.IH [OF s(2)] Cons.prems s(3) obtain bs2 where
    "from_u32_loop v is bs1 = Some bs2" "bs_wf bs2" "bs_length bs2 = bs_length bs"
    "\<forall>j. bs_bit bs2 j = (if j \<in> set is then Some (bit v j) else bs_bit bs1 j)" by auto
  with s(1,4) i(2) Cons.prems(3) show ?case by (auto simp: u32_test_bit)
qed

lemma to_u32_loop_spec:
  assumes "bs_wf bs" "\<forall>i \<in> set is. i < 32"
  shows "\<exists>w. to_u32_loop bs is v = Some w \<and>
    (\<forall>j < 32. bit w j \<longleftrightarrow> bit v j \<or> j \<in> set is \<and> bs_bit bs j = Some True)"
  using assms(2)
proof (induction "is" arbitrary: v)
  case Nil
  then show ?case by simp
next
  case (Cons i "is")
  obtain b where b: "bs_bit bs i = Some b"
    using bs_bit_wf [OF assms(1), of i] by (cases "i < bs_length bs") auto
  let ?v = "if b then v OR push_bit i 1 else v"
  obtain w where w: "to_u32_loop bs is ?v = Some w"
    "\<forall>j < 32. bit w j \<longleftrightarrow> bit ?v j \<or> j \<in> set is \<and> bs_bit bs j = Some True"
    using Cons.IH [of ?v] Cons.prems by auto
  have "bit ?v j \<longleftrightarrow> bit v j \<or> j = i \<and> b" if "j < 32" for j
    using that by (auto simp: bit_or_iff bit_push_bit_iff push_bit_of_1 bit_exp_iff)
  with w b show ?case by auto
qed

lemma from_u32_total:
  assumes "n \<le> 32"
  obtains bs where "from_u32 v n = Some bs" "bs_wf bs" "bs_length bs = n"
    "\<And>j. bs_bit bs j = Some (j < n \<and> bit v j)"
proof -
  have "\<forall>i \<in> set [0..<min n 32]. i < bs_length (bit_string_new n) \<and> i < 32"
    by (auto simp: bit_string_new_def)
  from from_u32_loop_spec [OF bs_wf_new this distinct_upt, of v] obtain bs where
    bs: "from_u32 v n = Some bs" "bs_wf bs" "bs_length bs = n"
      "\<And>j. j < n \<Longrightarrow> bs_bit bs j = Some (bit v j)"
    using assms by (auto simp: from_u32_def bit_string_new_def)
  have "bs_bit bs j = Some (j < n \<and> bit v j)" for j
    using bs(3,4) by (cases "j < n") simp_all
  with that bs show ?thesis by blast
qed

lemma to_u32_from_u32:
  assumes "n \<le> 32"
  obtains bs where "from_u32 v n = Some bs" "to_u32 bs = Some (take_bit n v)"
proof -
  obtain bs where bs: "from_u32 v n = Some bs" "bs_wf bs" "bs_length bs = n"
    "\<And>j. bs_bit bs j = Some (j < n \<and> bit v j)"
    using from_u32_total [OF assms] by blast
  from to_u32_loop_spec [OF bs(2), of "[0..<min n 32]" 0] obtain w where
    w: "to_u32 bs = Some w" "\<forall>j < 32. bit w j \<longleftrightarrow> j < n \<and> bit v j"
    using assms bs(3,4) by (auto simp: to_u32_def)
  have "w = take_bit n v"
    using w(2) by (intro bit_word_eqI) (auto simp: bit_take_bit_iff)
  with that bs(1) w(1) show ?thesis by blast
qed

section \<open>Floats\<close>

lemma decode_float_append_float32 [simp, wire_simps]:
  "decode_float (append_float32 v) = Inr (f64_of_f32 v)"
  by (simp add: decode_float_def append_float32_def)

lemma decode_float_append_float64 [simp, wire_simps]:
  "decode_float (append_float64 v) = Inr v"
  using from_to_be_bytes_64 [of v] by (simp add: decode_float_def append_float64_def from_be_bytes_def)

lemma length_append_float [simp, size_simps]:
  "length (append_float32 v) = 5" "length (append_float64 w) = 9"
  by (simp_all add: append_float32_def append_float64_def)

end
