(* ===== verification/Asn1_Element.thy ===== *)
theory Asn1_Element
  imports Asn1_Decoder Asn1_Primitives
begin

text \<open>
  The build-time elements of \<open>src/asn1/element.rs\<close> with the element builders of
  \<open>src/asn1/primitives.rs\<close>, and the interface the PDU grammars use: a decoder loop over a
  concatenation of encoded items reads back exactly the items. The interface is the locale
  \<open>item_loop\<close>; every \<open>while inner.more()\<close> loop of the sources is an instance of it.
\<close>

section \<open>Elements\<close>

datatype element =
    Primitive tag bytes
  | Constructed tag "element list"
  | Raw tag bytes
  | Verbatim bytes

definition prim :: "tag \<Rightarrow> bytes \<Rightarrow> element" where
  "prim t value = Primitive t value"

definition cons :: "tag \<Rightarrow> element list \<Rightarrow> element" where
  "cons t children = Constructed (t\<lparr>constructed := True\<rparr>) children"

definition raw_content :: "tag \<Rightarrow> bytes \<Rightarrow> element" where
  "raw_content t content = Raw (t\<lparr>constructed := True\<rparr>) content"

definition raw_tlv :: "bytes \<Rightarrow> element" where
  "raw_tlv v = Verbatim v"

fun push_child :: "element \<Rightarrow> element \<Rightarrow> element" where
  "push_child (Constructed t children) child = Constructed t (children @ [child])"
| "push_child e child = e"

definition seq_elem :: "tag \<Rightarrow> element" where
  "seq_elem t = cons t []"

definition add_child :: "element \<Rightarrow> element \<Rightarrow> element" where
  "add_child e child = push_child e child"

definition add_opt :: "element \<Rightarrow> element option \<Rightarrow> element" where
  "add_opt e child = (case child of Some c \<Rightarrow> push_child e c | None \<Rightarrow> e)"

definition add_all :: "element \<Rightarrow> element list \<Rightarrow> element" where
  "add_all e children = foldl push_child e children"

fun elem_tag :: "element \<Rightarrow> tag option" where
  "elem_tag (Primitive t _) = Some t"
| "elem_tag (Constructed t _) = Some t"
| "elem_tag (Raw t _) = Some t"
| "elem_tag (Verbatim _) = None"

text \<open>
  \<open>content_size\<close> and \<open>size\<close> call each other in the source; \<open>elem_size\<close> inlines the call,
  and \<open>content_size\<close> is the other half.
\<close>

fun elem_size :: "element \<Rightarrow> nat" where
  "elem_size (Verbatim v) = length v"
| "elem_size (Primitive t v) = tag_size t + length_size (length v) + length v"
| "elem_size (Raw t c) = tag_size t + length_size (length c) + length c"
| "elem_size (Constructed t cs) =
     (let n = sum_list (map elem_size cs) in tag_size t + length_size n + n)"

fun content_size :: "element \<Rightarrow> nat" where
  "content_size (Primitive t v) = length v"
| "content_size (Constructed t cs) = sum_list (map elem_size cs)"
| "content_size (Raw t c) = length c"
| "content_size (Verbatim v) = length v"

fun append_elem :: "element \<Rightarrow> bytes" where
  "append_elem (Verbatim v) = v"
| "append_elem (Primitive t v) = append_tag t @ append_length (length v) @ v"
| "append_elem (Raw t c) = append_tag t @ append_length (length c) @ c"
| "append_elem (Constructed t cs) =
     append_tag t @ append_length (sum_list (map elem_size cs)) @ concat (map append_elem cs)"

definition encode_elem :: "element \<Rightarrow> bytes" where
  "encode_elem e = append_elem e"

definition int_elem :: "tag \<Rightarrow> i64 \<Rightarrow> element" where
  "int_elem t v = prim t (append_int v)"

definition uint_elem :: "tag \<Rightarrow> u64 \<Rightarrow> element" where
  "uint_elem t v = prim t (append_uint v)"

definition bool_elem :: "tag \<Rightarrow> bool \<Rightarrow> element" where
  "bool_elem t v = prim t (if v then [0xff] else [0x00])"

definition bit_string_elem :: "tag \<Rightarrow> bit_string \<Rightarrow> element" where
  "bit_string_elem t bs = prim t (append_bit_string bs)"

section \<open>Sizes\<close>

text \<open>Tags below \<open>2\<^sup>2\<^sup>8\<close>, on which \<open>tag_size\<close> is exact.\<close>

fun elem_tags_ok :: "element \<Rightarrow> bool" where
  "elem_tags_ok (Verbatim v) = True"
| "elem_tags_ok (Primitive t v) = (unat (tag_number t) < 2 ^ 28)"
| "elem_tags_ok (Raw t c) = (unat (tag_number t) < 2 ^ 28)"
| "elem_tags_ok (Constructed t cs) = (unat (tag_number t) < 2 ^ 28 \<and> list_all elem_tags_ok cs)"

lemma elem_size_content: "elem_tag e = Some t \<Longrightarrow> elem_size e = tlv_size t (content_size e)"
  by (cases e) (auto simp: tlv_size_def Let_def)

lemma length_append_elem [size_simps]:
  "elem_tags_ok e \<Longrightarrow> length (append_elem e) = elem_size e"
proof (induction e)
  case (Constructed t cs)
  then have "length (concat (map append_elem cs)) = sum_list (map elem_size cs)"
    by (intro length_concat_map) (auto simp: list_all_iff)
  with Constructed show ?case
    using tag_size_append_tag [of t] by (simp add: Let_def)
qed (simp_all add: tag_size_append_tag [THEN iffD2])

lemma append_elem_tlv:
  "append_elem (Primitive t v) = append_tlv t v"
  "append_elem (Raw t c) = append_tlv t c"
  by (simp_all add: append_tlv_def)

lemma append_elem_constructed [wire_simps]:
  "list_all elem_tags_ok cs \<Longrightarrow>
     append_elem (Constructed t cs) = append_tlv t (concat (map append_elem cs))"
proof -
  assume "list_all elem_tags_ok cs"
  then have "length (concat (map append_elem cs)) = sum_list (map elem_size cs)"
    by (intro length_concat_map) (auto simp: list_all_iff length_append_elem)
  then show ?thesis by (simp add: append_tlv_def)
qed

section \<open>Loops over encoded items\<close>

text \<open>
  The contract between an item codec and a decoder loop: an encoded item is read back as its
  value and the cursor moves past it, and the loop repeats the item decoder while data
  remains.
\<close>

locale item_loop =
  fixes enc :: "'a \<Rightarrow> bytes"
    and val :: "'a \<Rightarrow> 'b"
    and dec :: "decoder \<Rightarrow> 'e + ('b \<times> decoder)"
    and ok :: "'a \<Rightarrow> bool"
    and loop :: "decoder \<Rightarrow> 'e + 'b list"
  assumes enc_nonempty: "ok x \<Longrightarrow> enc x \<noteq> []"
    and dec_enc: "ok x \<Longrightarrow> rest d = enc x @ zs \<Longrightarrow> dec d = Inr (val x, advance (length (enc x)) d)"
    and loop_unfold: "loop d =
      (if more_data d then try_bind (dec d) (\<lambda>(x, d'). try_bind (loop d') (\<lambda>xs. Inr (x # xs)))
       else Inr [])"
begin

lemma loop_concat:
  "\<forall>x \<in> set xs. ok x \<Longrightarrow> rest d = concat (map enc xs) \<Longrightarrow> loop d = Inr (map val xs)"
proof (induction xs arbitrary: d)
  case Nil
  then show ?case by (simp add: loop_unfold [of d] more_data_rest)
next
  case (Cons x xs)
  then have x: "ok x" and r: "rest d = enc x @ concat (map enc xs)" by simp_all
  have "loop (advance (length (enc x)) d) = Inr (map val xs)"
    using Cons.prems rest_append(2) [OF r] by (intro Cons.IH) simp_all
  moreover have "more_data d"
    using r enc_nonempty [OF x] by (simp add: more_data_rest)
  ultimately show ?case
    using dec_enc [OF x r] by (simp add: loop_unfold [of d])
qed

lemma loop_new: "\<forall>x \<in> set xs. ok x \<Longrightarrow> loop (decoder_new (concat (map enc xs))) = Inr (map val xs)"
  by (rule loop_concat) simp_all

end

end
