(* ===== verification/Asn1_Oid.thy ===== *)
theory Asn1_Oid
  imports Asn1_Element
begin

text \<open>
  Object identifiers, \<open>src/asn1/oid.rs\<close>: base-128 arcs with the first two arcs combined.
  An \<open>Oid\<close> is its list of arcs. The lemmas show that every well-formed identifier is read
  back, and what the decoder does with an arc that needs more than 32 bits.
\<close>

type_synonym oid = "u32 list"

definition append_base128 :: "u32 \<Rightarrow> bytes" where
  "append_base128 v = base128 v"

definition append_oid :: "oid \<Rightarrow> bytes" where
  "append_oid arcs =
     (case arcs of
        a0 # a1 # others \<Rightarrow> append_base128 (a0 * 40 + a1) @ concat (map append_base128 others)
      | _ \<Rightarrow> [])"

text \<open>The arc push at the end of a base-128 group.\<close>

definition push_arc :: "u32 list \<Rightarrow> u32 \<Rightarrow> u32 list" where
  "push_arc arcs v =
     (if arcs = [] then let first = min (v div 40) 2 in [first, v - first * 40]
      else arcs @ [v])"

fun decode_oid_loop :: "u32 list \<Rightarrow> u32 \<Rightarrow> nat \<Rightarrow> bytes \<Rightarrow> asn1_error + oid" where
  "decode_oid_loop arcs v n [] =
     (if n \<noteq> 0 then Inl (BadValue BvTruncatedOidArc) else Inr arcs)"
| "decode_oid_loop arcs v n (b # bs) =
     (if n \<ge> 5 then Inl (BadValue BvOidArcTooLarge)
      else let v' = push_bit 7 v OR ucast (b AND 0x7f)
           in if b AND 0x80 = 0 then decode_oid_loop (push_arc arcs v') 0 0 bs
              else decode_oid_loop arcs v' (n + 1) bs)"

definition decode_oid :: "bytes \<Rightarrow> asn1_error + oid" where
  "decode_oid content =
     (if content = [] then Inl (BadValue BvEmptyOid) else decode_oid_loop [] 0 0 content)"

definition oid_elem :: "tag \<Rightarrow> oid \<Rightarrow> element" where
  "oid_elem t arcs = prim t (append_oid arcs)"

section \<open>Round trip\<close>

lemma decode_oid_loop_digits:
  "i + k < 5 \<Longrightarrow>
     decode_oid_loop arcs (drop_bit (7 * Suc k) n) i (mark_more (b128_digits (Suc k) n) @ zs)
       = decode_oid_loop (push_arc arcs n) 0 0 zs"
proof (induction k arbitrary: i)
  case 0
  have "b128_digits (Suc 0) n = [ucast (n AND 0x7f)]"
    by (simp add: b128_digits_def)
  with 0 show ?case
    using push_or_digit [of 0 n] by (simp add: digit_high_bit_clear)
next
  case (Suc k)
  have "b128_digits (Suc k) n \<noteq> []" by (simp add: b128_digits_Suc)
  with Suc show ?case
    using push_or_digit [of "Suc k" n]
    by (simp add: b128_digits_Suc [of "Suc k"] marked_digit Let_def)
qed

lemma decode_oid_loop_base128 [wire_simps]:
  "decode_oid_loop arcs 0 0 (append_base128 n @ zs) = decode_oid_loop (push_arc arcs n) 0 0 zs"
proof -
  obtain k where k: "base128_len n = Suc k" "k < 5"
    using base128_len_range [of n] by (cases "base128_len n") auto
  show ?thesis
    using decode_oid_loop_digits [of 0 k arcs n zs] k drop_bit_base128_len [of n]
    by (simp add: append_base128_def base128_eq)
qed

lemma decode_oid_loop_arcs:
  "arcs \<noteq> [] \<Longrightarrow>
     decode_oid_loop arcs 0 0 (concat (map append_base128 others)) = Inr (arcs @ others)"
proof (induction others arbitrary: arcs)
  case (Cons a others)
  then show ?case
    using Cons.IH [of "arcs @ [a]"] by (simp add: decode_oid_loop_base128 push_arc_def)
qed simp

text \<open>
  What X.660 asks of the first two arcs: the first is at most 2, the second below 40 unless
  the first is 2, and the combined arc fits the encoder's 32-bit arithmetic.
\<close>

fun oid_wf :: "oid \<Rightarrow> bool" where
  "oid_wf (a0 # a1 # others) =
     (unat a0 \<le> 2 \<and> (unat a0 < 2 \<longrightarrow> unat a1 < 40) \<and> unat a1 + 80 < 2 ^ 32)"
| "oid_wf _ = False"

lemma push_arc_first:
  assumes "unat a0 \<le> 2" "unat a0 < 2 \<longrightarrow> unat a1 < 40" "unat a1 + 80 < 2 ^ 32"
  shows "push_arc [] (a0 * 40 + a1) = [a0, a1]"
proof -
  have "unat a0 = 0 \<or> unat a0 = 1 \<or> unat a0 = 2" using assms(1) by auto
  then have "a0 = 0 \<or> a0 = 1 \<or> a0 = 2" by (simp add: word_unat_eq_iff)
  moreover have "unat (a0 * 40 + a1) = unat a0 * 40 + unat a1"
    using assms by (simp add: unat_word_ariths)
  ultimately have u: "unat (min ((a0 * 40 + a1) div 40) 2) = unat a0"
    using assms by (auto simp: min_def word_le_nat_alt unat_div)
  then have "min ((a0 * 40 + a1) div 40) 2 = a0" by (rule unat_inject)
  then show ?thesis by (simp add: push_arc_def Let_def)
qed

lemma append_base128_nonempty: "append_base128 n \<noteq> []"
  using base128_len_range(1) [of n] length_base128 [of n] by (auto simp: append_base128_def)

lemma decode_append_oid: "oid_wf arcs \<Longrightarrow> decode_oid (append_oid arcs) = Inr arcs"
proof (induction arcs rule: oid_wf.induct)
  case (1 a0 a1 others)
  then have p: "push_arc [] (a0 * 40 + a1) = [a0, a1]"
    by (intro push_arc_first) auto
  then show ?case
    using decode_oid_loop_arcs [of "[a0, a1]" others]
    by (simp add: decode_oid_def append_oid_def append_base128_nonempty decode_oid_loop_base128)
qed simp_all

text \<open>
  An arc of five octets may exceed 32 bits; the shift drops the high bits instead of
  reporting the arc as too large: the octets of the arc \<open>2\<^sup>3\<^sup>2 + 1\<close> decode to the arc 1.
\<close>

lemma decode_oid_truncates_arc:
  "decode_oid [0x2a, 0x90, 0x80, 0x80, 0x80, 0x01] = Inr [1, 2, 1]"
  by code_simp

end
