(* ===== verification/Asn1_Correct.thy ===== *)
theory Asn1_Correct
  imports Asn1_Oid
begin

text \<open>
  The correctness of the BER layer (\<open>src/asn1/\<close>): what the encoder writes is what the
  decoder reads, reads stay inside the buffer, damaged input is an error of the documented
  kind, and the sizes computed ahead of encoding are the encoded sizes.
\<close>

section \<open>Elements on the wire\<close>

text \<open>
  C22. An element written with \<open>append_tlv\<close> anywhere in a buffer is read back by
  \<open>read_tlv\<close> with its tag and content, and the cursor stops right behind it, whatever comes
  before and after.
\<close>

theorem read_tlv_roundtrip:
  assumes "length c < 2 ^ 32"
  shows "read_tlv \<lparr>dec_data = pre @ append_tlv t c @ post, dec_off = length pre\<rparr>
    = Inr ((t, c), \<lparr>dec_data = pre @ append_tlv t c @ post,
        dec_off = length pre + length (append_tlv t c)\<rparr>)"
  using read_tlv_append_tlv [of "\<lparr>dec_data = pre @ append_tlv t c @ post, dec_off = length pre\<rparr>" t c post]
    assms
  by (simp add: rest_def advance_def)

theorem read_tlv_roundtrip_witness:
  "length [0xde, 0xad :: u8] < 2 ^ 32 \<and>
   read_tlv \<lparr>dec_data = [0x01] @ append_tlv (context_primitive 40) [0xde, 0xad] @ [0xff], dec_off = 1\<rparr>
    = Inr ((context_primitive 40, [0xde, 0xad]),
        \<lparr>dec_data = [0x01] @ append_tlv (context_primitive 40) [0xde, 0xad] @ [0xff],
          dec_off = 1 + length (append_tlv (context_primitive 40) [0xde, 0xad])\<rparr>)"
  using read_tlv_roundtrip [of "[0xde, 0xad]" "[0x01]" "context_primitive 40" "[0xff]"] by simp

text \<open>
  C23. A successful \<open>read_tlv\<close> never looks past the buffer: the cursor moves forward by at
  least two octets and stays within the data, the data is unchanged, and the content is a
  sub-slice of the octets the cursor moved over.
\<close>

theorem read_tlv_in_bounds:
  assumes "read_tlv d = Inr ((t, c), d')"
  shows "dec_data d' = dec_data d \<and> dec_off d + 2 \<le> dec_off d' \<and> dec_off d' \<le> length (dec_data d) \<and>
    (\<exists>i j. dec_off d + 2 \<le> i \<and> i \<le> j \<and> j \<le> dec_off d' \<and> c = subslice i j (dec_data d))"
proof -
  from assms have r: "read_tlv_at 0 d = Inr ((t, c), d')" by (simp add: read_tlv_def)
  obtain i j where "dec_off d + 2 \<le> i" "i \<le> j" "j \<le> dec_off d'" "c = subslice i j (dec_data d)"
    by (rule read_tlv_at_content [OF r])
  with read_tlv_at_progress [OF r] show ?thesis by auto
qed

theorem read_tlv_in_bounds_witness:
  "read_tlv (decoder_new [0x30, 0x80, 0x05, 0x00, 0x00, 0x00]) =
     Inr ((TAG_SEQUENCE, [0x05, 0x00]), advance 6 (decoder_new [0x30, 0x80, 0x05, 0x00, 0x00, 0x00])) \<and>
   (\<exists>i j. Suc (Suc 0) \<le> i \<and> i \<le> j \<and> j \<le> 6 \<and> [0x05, 0x00] = subslice i j [0x30, 0x80, 0x05, 0x00, 0x00, 0x00 :: u8])"
proof -
  have r: "read_tlv (decoder_new [0x30, 0x80, 0x05, 0x00, 0x00, 0x00]) =
     Inr ((TAG_SEQUENCE, [0x05, 0x00]), advance 6 (decoder_new [0x30, 0x80, 0x05, 0x00, 0x00, 0x00]))"
    by code_simp
  from read_tlv_in_bounds [OF r] r show ?thesis by simp
qed

text \<open>
  C32. A reader that stops short is told so: every proper prefix of an encoded element is
  rejected with the \<open>Truncated\<close> error, wherever the cut falls.
\<close>

theorem read_tlv_truncated:
  assumes "length c < 2 ^ 32" "n < length (append_tlv t c)"
  shows "\<exists>what off. read_tlv (decoder_new (take n (append_tlv t c))) = Inl (Truncated what off)"
  using assms by (intro read_tlv_prefix [of _ n]) simp_all

theorem read_tlv_truncated_witness:
  "\<exists>what off. read_tlv (decoder_new (take 3 (append_tlv (context_primitive 1) [0x01, 0x02, 0x03])))
     = Inl (Truncated what off)"
  by (rule read_tlv_truncated) (simp_all add: append_tlv_def)

text \<open>
  The nesting limit holds: input made of 66 or more nested indefinite-length headers is
  rejected as too deep, however much of it there is, so the recursion of \<open>read_tlv_at\<close> is
  bounded by \<open>MAX_DEPTH\<close> and not by the input.
\<close>

theorem read_tlv_depth_limit:
  assumes "MAX_DEPTH + 1 < n"
  shows "\<exists>off. read_tlv (decoder_new (indefinite_headers n @ zs)) = Inl (TooDeep off)"
  unfolding read_tlv_def using assms by (intro read_tlv_at_too_deep) simp_all

theorem read_tlv_depth_limit_witness:
  "\<exists>off. read_tlv (decoder_new (indefinite_headers 100000 @ [0x00, 0x00])) = Inl (TooDeep off)"
  by (rule read_tlv_depth_limit) (simp add: MAX_DEPTH_def)

section \<open>Sizes computed ahead of encoding\<close>

text \<open>
  The size pass agrees with the writing pass: for every element tree whose tag numbers
  are below \<open>2\<^sup>2\<^sup>8\<close>, \<open>size\<close> is exactly the number of octets \<open>encode\<close> produces.
\<close>

theorem elem_size_encode:
  assumes "elem_tags_ok e"
  shows "length (encode_elem e) = elem_size e"
  using assms by (simp add: encode_elem_def length_append_elem)

theorem elem_size_encode_witness:
  "elem_tags_ok (cons TAG_SEQUENCE [uint_elem (context_primitive 0) 70000, raw_tlv [1, 2, 3]]) \<and>
   length (encode_elem (cons TAG_SEQUENCE [uint_elem (context_primitive 0) 70000, raw_tlv [1, 2, 3]]))
     = elem_size (cons TAG_SEQUENCE [uint_elem (context_primitive 0) 70000, raw_tlv [1, 2, 3]])"
proof -
  have ok: "elem_tags_ok (cons TAG_SEQUENCE [uint_elem (context_primitive 0) 70000, raw_tlv [1, 2, 3]])"
    by (simp add: cons_def uint_elem_def prim_def raw_tlv_def)
  from elem_size_encode [OF ok] ok show ?thesis by simp
qed

text \<open>
  The bound of the previous property is needed: from tag number \<open>2\<^sup>2\<^sup>8\<close> on, \<open>tag_size\<close>
  is one octet short of what \<open>append_tag\<close> writes.
\<close>

theorem tag_size_short:
  "length (append_tag t) =
     (if unat (tag_number t) < 2 ^ 28 then tag_size t else tag_size t + 1)"
  by (simp add: tag_size_def length_append_tag base128_len_def Let_def)

section \<open>Primitive contents\<close>

text \<open>
  C31. Every \<open>i64\<close> survives \<open>append_int\<close> and \<open>decode_int\<close>, and the encoding is the shortest
  one: no content that decodes to the same value has fewer octets.
\<close>

theorem integer_content:
  "decode_int (append_int v) = Inr v \<and>
   (\<forall>content. decode_int content = Inr v \<longrightarrow> length (append_int v) \<le> length content)"
  using int_size_minimal by simp

theorem integer_content_witness:
  "decode_int [0xff, 0x80] = Inr (- 128) \<and> length (append_int (- 128)) \<le> length [0xff, 0x80 :: u8]"
proof -
  have "decode_int [0xff, 0x80] = Inr (- 128)" by code_simp
  with integer_content [of "- 128"] show ?thesis by blast
qed

text \<open>
  Every \<open>u64\<close> survives \<open>append_uint\<close> and \<open>decode_uint\<close>; the content has between one
  and nine octets and its leading octet never has the sign bit set.
\<close>

theorem unsigned_content:
  "decode_uint (append_uint v) = Inr v \<and> length (append_uint v) \<in> {1..9} \<and>
   hd (append_uint v) AND 0x80 = 0"
proof -
  have "hd (append_uint v) AND 0x80 = 0"
  proof (rule uint_size_cases [of v])
    fix k
    assume k: "uint_size v = Suc k" "unat (drop_bit (8 * k) v) < 128"
    have "\<not> bit (unat (drop_bit (8 * k) v)) 7"
      using k(2) by (simp add: bit_nat_def)
    then have "\<not> bit (drop_bit (8 * k) v) 7"
      by (simp only: bit_unsigned_iff) simp
    then have "(ucast (drop_bit (8 * k) v) :: u8) AND 0x80 = 0"
      by (intro bit_word_eqI) (auto simp: octet_bits)
    then show ?thesis by (simp add: append_uint_be_bytes k(1) be_bytes_def)
  qed
  then show ?thesis using uint_size_range [of v] by simp
qed

text \<open>
  Bit strings: the content octets of a well-formed bit string decode to it, a bit
  string that was decoded is well-formed and encodes back to the very same octets, and
  converting a word to \<open>n \<le> 32\<close> bits and back keeps its low \<open>n\<close> bits.
\<close>

theorem bit_string_content:
  "(bs_wf bs \<longrightarrow> decode_bit_string (append_bit_string bs) = Inr bs) \<and>
   (decode_bit_string c = Inr bs \<longrightarrow> bs_wf bs \<and> append_bit_string bs = c) \<and>
   (n \<le> 32 \<longrightarrow> (\<exists>b. from_u32 v n = Some b \<and> to_u32 b = Some (take_bit n v)))"
  using decode_append_bit_string decode_bit_string_wf by (auto elim: to_u32_from_u32)

theorem bit_string_content_witness:
  "decode_bit_string [0x03, 0xa8] = Inr \<lparr>bs_bits = [0xa8], bs_length = 5\<rparr> \<and>
   bs_wf \<lparr>bs_bits = [0xa8], bs_length = 5\<rparr> \<and>
   append_bit_string \<lparr>bs_bits = [0xa8], bs_length = 5\<rparr> = [0x03, 0xa8] \<and>
   (\<exists>b. from_u32 0x35 5 = Some b \<and> to_u32 b = Some (take_bit 5 0x35))"
proof -
  have "decode_bit_string [0x03, 0xa8] = Inr \<lparr>bs_bits = [0xa8], bs_length = 5\<rparr>" by code_simp
  with bit_string_content [of "\<lparr>bs_bits = [0xa8], bs_length = 5\<rparr>" "[0x03, 0xa8]" 5 "0x35"]
  show ?thesis by auto
qed

text \<open>
  Object identifiers survive encoding: an identifier whose first arcs are legal is
  decoded to the same arcs.
\<close>

theorem oid_content:
  assumes "oid_wf arcs"
  shows "decode_oid (append_oid arcs) = Inr arcs"
  by (rule decode_append_oid [OF assms])

theorem oid_content_witness: "decode_oid (append_oid [1, 0, 9506, 2, 1]) = Inr [1, 0, 9506, 2, 1]"
  by (rule oid_content) simp

end
