(* ===== verification/Osi_Transport.thy ===== *)
theory Osi_Transport
  imports Asn1_Tag
begin

text \<open>
  The transport of the OSI stack: RFC 1006 packets (\<open>src/osi/tpkt.rs\<close>) and the class-0
  transport protocol above them (\<open>src/osi/cotp.rs\<close>), with the error type of
  \<open>src/osi/mod.rs\<close>.

  A byte stream is the octets the peer sends (\<open>inbound\<close>, what is still to be read) and the
  octets written so far (\<open>outbound\<close>). A read past the end of \<open>inbound\<close> is the end of the
  stream and gives the I/O error of \<open>read_exact\<close>; writes to the stream succeed. Formatted
  error texts are kept as structured reasons.
\<close>

section \<open>Errors and streams\<close>

datatype osi_reason =
    PacketTooLong nat
  | BadVersion u8
  | BadPacketLength nat
  | ExpectedCr u8
  | ConnectionRefusedDr
  | ExpectedCc u8
  | ShortCc
  | ShortDt
  | ReceivedEr
  | UnexpectedTpdu u8
  | TruncatedTpdu
  | BadLi nat nat
  | ExpectedAccept u8
  | ExpectedConnect u8
  | BadSpduLi nat
  | ShortSpdu
  | ShortLongFormLi
  | SpduLiExceeds nat
  | ShortParameterLength
  | ParameterOverflows nat
  | PresentationText string
  | AcseText string

datatype osi_error =
    OsiIo
  | OsiAsn1 asn1_error
  | Tpkt osi_reason
  | Cotp osi_reason
  | Session osi_reason
  | Presentation osi_reason
  | Acse osi_reason
  | OsiClosed
  | Refused u8 bytes
  | OsiAborted bytes

record stream =
  inbound :: bytes
  outbound :: bytes

definition read_exact :: "nat \<Rightarrow> stream \<Rightarrow> osi_error + (bytes \<times> stream)" where
  "read_exact n s =
     (if length (inbound s) < n then Inl OsiIo
      else Inr (take n (inbound s), s\<lparr>inbound := drop n (inbound s)\<rparr>))"

definition write_all :: "bytes \<Rightarrow> stream \<Rightarrow> stream" where
  "write_all bs s = s\<lparr>outbound := outbound s @ bs\<rparr>"

section \<open>TPKT\<close>

definition HEADER_LEN :: nat where "HEADER_LEN = 4"
definition VERSION :: u8 where "VERSION = 3"
definition MAX_PACKET :: nat where "MAX_PACKET = 2 ^ 20"

definition write_packet :: "bytes \<Rightarrow> stream \<Rightarrow> osi_error + stream" where
  "write_packet payload s =
     (let total = HEADER_LEN + length payload
      in if total > MAX_PACKET then Inl (Tpkt (PacketTooLong total))
         else Inr (write_all (VERSION # 0 # to_be_bytes (of_nat total :: u16) @ payload) s))"

definition read_packet :: "stream \<Rightarrow> osi_error + (bytes \<times> stream)" where
  "read_packet s =
     try_bind (read_exact HEADER_LEN s) (\<lambda>(hdr, s1).
       if hdr ! 0 \<noteq> VERSION then Inl (Tpkt (BadVersion (hdr ! 0)))
       else let total = unat (from_be_bytes [hdr ! 2, hdr ! 3] :: u16)
            in if \<not> (HEADER_LEN \<le> total \<and> total \<le> MAX_PACKET) then Inl (Tpkt (BadPacketLength total))
               else read_exact (total - HEADER_LEN) s1)"

section \<open>COTP\<close>

definition TPDU_CR :: u8 where "TPDU_CR = 0xe0"
definition TPDU_CC :: u8 where "TPDU_CC = 0xd0"
definition TPDU_DR :: u8 where "TPDU_DR = 0x80"
definition TPDU_DT :: u8 where "TPDU_DT = 0xf0"
definition TPDU_ER :: u8 where "TPDU_ER = 0x70"
definition PARAM_TPDU_SIZE :: u8 where "PARAM_TPDU_SIZE = 0xc0"
definition PARAM_SRC_TSAP :: u8 where "PARAM_SRC_TSAP = 0xc1"
definition PARAM_DST_TSAP :: u8 where "PARAM_DST_TSAP = 0xc2"
definition EOT :: u8 where "EOT = 0x80"
definition DEFAULT_TSAP :: bytes where "DEFAULT_TSAP = [0x00, 0x01]"

lemmas cotp_consts = TPDU_CR_def TPDU_CC_def TPDU_DR_def TPDU_DT_def TPDU_ER_def
  PARAM_TPDU_SIZE_def PARAM_SRC_TSAP_def PARAM_DST_TSAP_def EOT_def

record cotp_options =
  opt_src_tsap :: bytes
  opt_dst_tsap :: bytes
  tpdu_size_code :: u8

definition default_options :: cotp_options where
  "default_options = \<lparr>opt_src_tsap = DEFAULT_TSAP, opt_dst_tsap = DEFAULT_TSAP, tpdu_size_code = 10\<rparr>"

record cotp_conn =
  cc_stream :: stream
  max_tpdu :: nat
  src_ref :: u16
  dst_ref :: u16
  src_tsap :: bytes
  dst_tsap :: bytes

definition write_param :: "u8 \<Rightarrow> bytes \<Rightarrow> bytes" where
  "write_param code val = code # of_nat (length val) # val"

definition parse_header :: "bytes \<Rightarrow> osi_error + (nat \<times> u8 \<times> bytes)" where
  "parse_header tpdu =
     (if length tpdu < 2 then Inl (Cotp TruncatedTpdu)
      else let li = unat (tpdu ! 0)
           in if li = 0 \<or> 1 + li > length tpdu then Inl (Cotp (BadLi li (length tpdu)))
              else Inr (li, tpdu ! 1 AND 0xf0, subslice 2 (1 + li) tpdu))"

text \<open>
  \<open>1usize << n\<close>: a shift of 64 or more is masked to its low six bits in the release
  profile.
\<close>

definition usize_shl1 :: "nat \<Rightarrow> nat" where
  "usize_shl1 n = 2 ^ (n mod 64)"

definition send_cr :: "cotp_conn \<Rightarrow> u8 \<Rightarrow> osi_error + cotp_conn" where
  "send_cr c size_code =
     (let b = [0, TPDU_CR] @ to_be_bytes (0 :: u16) @ to_be_bytes (src_ref c) @ [0]
            @ write_param PARAM_TPDU_SIZE [size_code]
            @ write_param PARAM_SRC_TSAP (src_tsap c)
            @ write_param PARAM_DST_TSAP (dst_tsap c);
          b = b[0 := of_nat (length b - 1)]
      in try_bind (write_packet b (cc_stream c)) (\<lambda>s. Inr (c\<lparr>cc_stream := s\<rparr>)))"

definition send_cc :: "cotp_conn \<Rightarrow> u8 \<Rightarrow> osi_error + cotp_conn" where
  "send_cc c size_code =
     (let b = [0, TPDU_CC] @ to_be_bytes (dst_ref c) @ to_be_bytes (src_ref c) @ [0]
            @ write_param PARAM_TPDU_SIZE [size_code]
            @ (if src_tsap c \<noteq> [] then write_param PARAM_SRC_TSAP (src_tsap c) else [])
            @ (if dst_tsap c \<noteq> [] then write_param PARAM_DST_TSAP (dst_tsap c) else []);
          b = b[0 := of_nat (length b - 1)]
      in try_bind (write_packet b (cc_stream c)) (\<lambda>s. Inr (c\<lparr>cc_stream := s\<rparr>)))"

fun parse_params :: "cotp_conn \<Rightarrow> bytes \<Rightarrow> cotp_conn" where
  "parse_params c (code # len # params) =
     (let plen = unat len
      in if plen > length params then c
         else let val = take plen params;
                  c' = (if code = PARAM_TPDU_SIZE \<and> plen = 1 then
                          (let sz = usize_shl1 (unat (min (val ! 0) 24))
                           in if sz > 0 \<and> sz < max_tpdu c then c\<lparr>max_tpdu := sz\<rparr> else c)
                        else c)
              in parse_params c' (drop plen params))"
| "parse_params c _ = c"

definition recv_cc :: "cotp_conn \<Rightarrow> osi_error + cotp_conn" where
  "recv_cc c =
     try_bind (read_packet (cc_stream c)) (\<lambda>(tpdu, s).
       let c = c\<lparr>cc_stream := s\<rparr>
       in try_bind (parse_header tpdu) (\<lambda>(_, typ, body).
            if typ \<noteq> TPDU_CC then
              (if typ = TPDU_DR then Inl (Cotp ConnectionRefusedDr) else Inl (Cotp (ExpectedCc typ)))
            else if length body < 5 then Inl (Cotp ShortCc)
            else let c = c\<lparr>dst_ref := from_be_bytes [body ! 2, body ! 3]\<rparr>
                 in Inr (if length body > 5 then parse_params c (drop 5 body) else c)))"

definition cotp_connect :: "stream \<Rightarrow> cotp_options \<Rightarrow> osi_error + cotp_conn" where
  "cotp_connect s opts =
     (let size_code = (if tpdu_size_code opts = 0 then 10 else tpdu_size_code opts);
          c = \<lparr>cc_stream = s, max_tpdu = usize_shl1 (unat size_code), src_ref = 1, dst_ref = 0,
               src_tsap = opt_src_tsap opts, dst_tsap = opt_dst_tsap opts\<rparr>
      in try_bind (send_cr c size_code) recv_cc)"

fun accept_params :: "cotp_conn \<Rightarrow> u8 \<Rightarrow> bytes \<Rightarrow> cotp_conn \<times> u8" where
  "accept_params c size_code (code # len # params) =
     (let plen = unat len
      in if plen > length params then (c, size_code)
         else let val = take plen params;
                  (c', size_code') =
                    (if code = PARAM_TPDU_SIZE \<and> plen = 1 then
                       (c\<lparr>max_tpdu := usize_shl1 (unat (min (val ! 0) 24))\<rparr>, val ! 0)
                     else if code = PARAM_SRC_TSAP then (c\<lparr>dst_tsap := val\<rparr>, size_code)
                     else if code = PARAM_DST_TSAP then (c\<lparr>src_tsap := val\<rparr>, size_code)
                     else (c, size_code))
              in accept_params c' size_code' (drop plen params))"
| "accept_params c size_code _ = (c, size_code)"

definition cotp_accept :: "stream \<Rightarrow> osi_error + cotp_conn" where
  "cotp_accept s =
     (let c = \<lparr>cc_stream = s, max_tpdu = 1024, src_ref = 1, dst_ref = 0, src_tsap = [], dst_tsap = []\<rparr>
      in try_bind (read_packet (cc_stream c)) (\<lambda>(tpdu, s).
           let c = c\<lparr>cc_stream := s\<rparr>
           in try_bind (parse_header tpdu) (\<lambda>(_, typ, body).
                if typ \<noteq> TPDU_CR then Inl (Cotp (ExpectedCr typ))
                else let c = (if length body \<ge> 4
                              then c\<lparr>dst_ref := from_be_bytes [body ! 2, body ! 3]\<rparr> else c);
                         (c, size_code) =
                           (if length body > 5 then accept_params c 10 (drop 5 body) else (c, 10))
                     in send_cc c size_code)))"

definition max_data :: "nat \<Rightarrow> nat" where
  "max_data m = max (m - 3) 1"

function send_loop :: "nat \<Rightarrow> bytes \<Rightarrow> nat \<Rightarrow> stream \<Rightarrow> osi_error + stream" where
  "send_loop m tsdu off s =
     (let end = min (off + max_data m) (length tsdu);
          is_last = (end \<ge> length tsdu);
          b = [2, TPDU_DT, if is_last then EOT else 0] @ subslice off end tsdu
      in try_bind (write_packet b s) (\<lambda>s'. if is_last then Inr s' else send_loop m tsdu end s'))"
  by pat_completeness auto
termination
  by (relation "measure (\<lambda>(m, tsdu, off, s). length tsdu - off)") (auto simp: max_data_def)

declare send_loop.simps [simp del]

text \<open>\<open>Conn::send\<close> and the \<open>send\<close> of the writing half run the same loop.\<close>

definition cotp_send :: "cotp_conn \<Rightarrow> bytes \<Rightarrow> osi_error + cotp_conn" where
  "cotp_send c tsdu =
     try_bind (send_loop (max_tpdu c) tsdu 0 (cc_stream c)) (\<lambda>s. Inr (c\<lparr>cc_stream := s\<rparr>))"

lemma read_exact_Inr:
  "read_exact n s = Inr (bs, s') \<longleftrightarrow>
     n \<le> length (inbound s) \<and> bs = take n (inbound s) \<and> s' = s\<lparr>inbound := drop n (inbound s)\<rparr>"
  by (auto simp: read_exact_def)

lemma read_packet_shorter:
  "read_packet s = Inr (p, s') \<Longrightarrow> length (inbound s') < length (inbound s)"
  by (auto simp: read_packet_def try_bind_Inr_iff read_exact_Inr Let_def HEADER_LEN_def split: if_splits)

function receive_loop :: "bytes \<Rightarrow> stream \<Rightarrow> osi_error + (bytes \<times> stream)" where
  "receive_loop buf s =
     try_bind (read_packet s) (\<lambda>(tpdu, s').
       try_bind (parse_header tpdu) (\<lambda>(li, typ, body).
         if typ = TPDU_DT then
           (if body = [] then Inl (Cotp ShortDt)
            else let num = body ! 0; buf' = buf @ drop (1 + li) tpdu
                 in if num AND EOT \<noteq> 0 then Inr (buf', s') else receive_loop buf' s')
         else if typ = TPDU_DR then Inl OsiClosed
         else if typ = TPDU_ER then Inl (Cotp ReceivedEr)
         else Inl (Cotp (UnexpectedTpdu typ))))"
  by pat_completeness auto
termination
  by (relation "measure (\<lambda>(buf, s). length (inbound s))") (auto dest: read_packet_shorter)

declare receive_loop.simps [simp del]

definition cotp_receive :: "cotp_conn \<Rightarrow> osi_error + (bytes \<times> cotp_conn)" where
  "cotp_receive c =
     try_bind (receive_loop [] (cc_stream c)) (\<lambda>(buf, s). Inr (buf, c\<lparr>cc_stream := s\<rparr>))"

text \<open>
  \<open>into_split\<close>: the reading half keeps what arrives on the stream, the writing half what is
  sent on it, and the negotiated size goes to the writer.
\<close>

record cotp_reader =
  rd_stream :: stream

record cotp_writer =
  wr_stream :: stream
  wr_max_tpdu :: nat

definition into_split :: "cotp_conn \<Rightarrow> cotp_reader \<times> cotp_writer" where
  "into_split c =
     (\<lparr>rd_stream = cc_stream c\<rparr>, \<lparr>wr_stream = cc_stream c, wr_max_tpdu = max_tpdu c\<rparr>)"

definition reader_receive :: "cotp_reader \<Rightarrow> osi_error + (bytes \<times> cotp_reader)" where
  "reader_receive r =
     try_bind (receive_loop [] (rd_stream r)) (\<lambda>(buf, s). Inr (buf, r\<lparr>rd_stream := s\<rparr>))"

definition writer_send :: "cotp_writer \<Rightarrow> bytes \<Rightarrow> osi_error + cotp_writer" where
  "writer_send w tsdu =
     try_bind (send_loop (wr_max_tpdu w) tsdu 0 (wr_stream w)) (\<lambda>s. Inr (w\<lparr>wr_stream := s\<rparr>))"

section \<open>Packets\<close>

definition frame :: "bytes \<Rightarrow> bytes" where
  "frame payload = VERSION # 0 # to_be_bytes (of_nat (HEADER_LEN + length payload) :: u16) @ payload"

lemma write_packet_frame:
  "HEADER_LEN + length p \<le> MAX_PACKET \<Longrightarrow> write_packet p s = Inr (write_all (frame p) s)"
  by (simp add: write_packet_def frame_def)

text \<open>What is read back: the length field is the low 16 bits of the packet length.\<close>

lemma read_packet_frame:
  assumes "inbound s = frame p @ zs"
  defines "n \<equiv> (HEADER_LEN + length p) mod 2 ^ 16"
  shows "read_packet s =
    (if n < HEADER_LEN then Inl (Tpkt (BadPacketLength n))
     else Inr (take (n - HEADER_LEN) p, s\<lparr>inbound := drop (n - HEADER_LEN) p @ zs\<rparr>))"
proof -
  let ?w = "of_nat (HEADER_LEN + length p) :: u16"
  obtain h l where hl: "to_be_bytes ?w = [h, l]" by (simp add: to_be_bytes_16)
  have w: "from_be_bytes [h, l] = ?w" using from_to_be_bytes_16 [of ?w] unfolding hl .
  have n: "unat ?w = n" by (simp only: n_def unsigned_of_nat take_bit_eq_mod) simp
  have "n \<le> MAX_PACKET" "n - HEADER_LEN \<le> length p"
    by (auto simp: n_def MAX_PACKET_def HEADER_LEN_def intro: mod_le_divisor order_trans)
  moreover have "inbound s = VERSION # 0 # h # l # p @ zs" using assms(1) hl by (simp add: frame_def)
  moreover have "unat (from_be_bytes [h, l] :: u16) = n" using w n by (simp only:)
  ultimately show ?thesis
    by (auto simp: read_packet_def read_exact_def HEADER_LEN_def Let_def)
qed

lemma read_packet_frame_small [wire_simps]:
  assumes "inbound s = frame p @ zs" "HEADER_LEN + length p < 2 ^ 16"
  shows "read_packet s = Inr (p, s\<lparr>inbound := zs\<rparr>)"
  using read_packet_frame [OF assms(1)] assms(2) by (simp add: HEADER_LEN_def)

section \<open>Segmentation and reassembly\<close>

text \<open>The specification of the sender: a unit is cut into chunks of at most \<open>k\<close> octets.\<close>

function segments :: "nat \<Rightarrow> bytes \<Rightarrow> bytes list" where
  "segments k xs = (if length xs \<le> k \<or> k = 0 then [xs] else take k xs # segments k (drop k xs))"
  by pat_completeness auto
termination
  by (relation "measure (length \<circ> snd)") auto

declare segments.simps [simp del]

fun dt_tpdus :: "bytes list \<Rightarrow> bytes list" where
  "dt_tpdus [] = []"
| "dt_tpdus [c] = [[2, TPDU_DT, EOT] @ c]"
| "dt_tpdus (c # cs) = ([2, TPDU_DT, 0] @ c) # dt_tpdus cs"

lemma segments_nonempty [simp]: "segments k xs \<noteq> []"
  by (subst segments.simps) simp

lemma concat_segments: "concat (segments k xs) = xs"
proof (induction k xs rule: segments.induct)
  case (1 k xs)
  then show ?case by (subst segments.simps) simp
qed

lemma segments_bound: "0 < k \<Longrightarrow> \<forall>c \<in> set (segments k xs). length c \<le> k"
proof (induction k xs rule: segments.induct)
  case (1 k xs)
  then show ?case by (subst segments.simps) auto
qed

lemma dt_tpdus_bound:
  "t \<in> set (dt_tpdus cs) \<Longrightarrow> \<forall>c \<in> set cs. length c \<le> k \<Longrightarrow> length t \<le> 3 + k"
  by (induction cs rule: dt_tpdus.induct) auto

lemma write_all_append [simp]: "write_all ys (write_all xs s) = write_all (xs @ ys) s"
  by (simp add: write_all_def)

lemma send_loop_segments:
  "max_data m + 7 \<le> MAX_PACKET \<Longrightarrow> off \<le> length tsdu \<Longrightarrow> send_loop m tsdu off s =
    Inr (write_all (concat (map frame (dt_tpdus (segments (max_data m) (drop off tsdu))))) s)"
proof (induction m tsdu off s rule: send_loop.induct)
  case (1 m tsdu off s)
  let ?k = "max_data m" and ?stop = "min (off + max_data m) (length tsdu)"
  let ?b = "[2, TPDU_DT, if length tsdu \<le> ?stop then EOT else 0] @ subslice off ?stop tsdu"
  have k: "0 < ?k" by (simp add: max_data_def)
  have "HEADER_LEN + length ?b = 7 + (?stop - off)" by (simp add: HEADER_LEN_def)
  also have "\<dots> \<le> 7 + ?k" by auto
  also have "\<dots> \<le> MAX_PACKET" using "1.prems" by simp
  finally have w: "write_packet ?b s = Inr (write_all (frame ?b) s)"
    by (rule write_packet_frame)
  show ?case
  proof (cases "length tsdu \<le> ?stop")
    case True
    then have "length (drop off tsdu) \<le> ?k" "subslice off ?stop tsdu = drop off tsdu"
      by (auto simp: subslice_def)
    then have "segments ?k (drop off tsdu) = [drop off tsdu]" by (subst segments.simps) simp
    with True w \<open>subslice off ?stop tsdu = _\<close> show ?thesis
      by (simp add: send_loop.simps [of m tsdu off s] Let_def)
  next
    case False
    then have e: "?stop = off + ?k" "off + ?k < length tsdu" by auto
    then have c: "subslice off ?stop tsdu = take ?k (drop off tsdu)"
      by (simp add: subslice_def)
    have seg: "segments ?k (drop off tsdu) = take ?k (drop off tsdu) # segments ?k (drop ?stop tsdu)"
      using e k by (subst segments.simps) (auto simp: add.commute)
    have "send_loop m tsdu ?stop (write_all (frame ?b) s) =
        Inr (write_all (concat (map frame (dt_tpdus (segments ?k (drop ?stop tsdu))))) (write_all (frame ?b) s))"
      using False "1.prems"(1) "1.IH" [OF refl refl refl w] by simp
    with False w c seg show ?thesis
      using segments_nonempty [of ?k "drop ?stop tsdu"]
      by (cases "segments ?k (drop ?stop tsdu)") (simp_all add: send_loop.simps [of m tsdu off s] Let_def)
  qed
qed

lemma parse_header_dt: "parse_header ([2, TPDU_DT, x] @ c) = Inr (2, TPDU_DT, [x])"
  by (simp add: parse_header_def TPDU_DT_def subslice_def)

lemma receive_loop_segments:
  "cs \<noteq> [] \<Longrightarrow> \<forall>c \<in> set cs. length c + 7 < 2 ^ 16 \<Longrightarrow>
     inbound r = concat (map frame (dt_tpdus cs)) @ zs \<Longrightarrow>
     receive_loop buf r = Inr (buf @ concat cs, r\<lparr>inbound := zs\<rparr>)"
proof (induction cs arbitrary: buf r rule: dt_tpdus.induct)
  case (2 c)
  then have "read_packet r = Inr ([2, TPDU_DT, EOT] @ c, r\<lparr>inbound := zs\<rparr>)"
    by (intro read_packet_frame_small) (simp_all add: HEADER_LEN_def)
  then show ?case
    using parse_header_dt [of EOT c] by (simp add: receive_loop.simps [of buf r] EOT_def)
next
  case (3 c c' cs)
  let ?zs = "concat (map frame (dt_tpdus (c' # cs))) @ zs"
  have "read_packet r = Inr ([2, TPDU_DT, 0] @ c, r\<lparr>inbound := ?zs\<rparr>)"
    using "3.prems" by (intro read_packet_frame_small) (simp_all add: HEADER_LEN_def)
  moreover have "receive_loop (buf @ c) (r\<lparr>inbound := ?zs\<rparr>) =
      Inr ((buf @ c) @ concat (c' # cs), r\<lparr>inbound := ?zs\<rparr>\<lparr>inbound := zs\<rparr>)"
    using "3.prems" by (intro "3.IH") simp_all
  ultimately show ?case
    using parse_header_dt [of 0 c] by (simp add: receive_loop.simps [of buf r])
qed simp

section \<open>The connection handshake\<close>

text \<open>The octets of a connection request and of the confirm that answers it.\<close>

definition cr_params :: "u8 \<Rightarrow> bytes \<Rightarrow> bytes \<Rightarrow> bytes" where
  "cr_params code src dst =
     write_param PARAM_TPDU_SIZE [code] @ write_param PARAM_SRC_TSAP src @ write_param PARAM_DST_TSAP dst"

definition cc_params :: "u8 \<Rightarrow> bytes \<Rightarrow> bytes \<Rightarrow> bytes" where
  "cc_params code src dst =
     write_param PARAM_TPDU_SIZE [code]
     @ (if src \<noteq> [] then write_param PARAM_SRC_TSAP src else [])
     @ (if dst \<noteq> [] then write_param PARAM_DST_TSAP dst else [])"

definition conn_tpdu :: "u8 \<Rightarrow> u16 \<Rightarrow> u16 \<Rightarrow> bytes \<Rightarrow> bytes" where
  "conn_tpdu typ dref sref params =
     of_nat (6 + length params) # typ # to_be_bytes dref @ to_be_bytes sref @ [0] @ params"

lemma length_conn_tpdu: "length (conn_tpdu typ dref sref params) = 7 + length params"
  by (simp add: conn_tpdu_def)

lemma length_params:
  "length (cr_params code src dst) = 7 + length src + length dst"
  "length (cc_params code src dst) \<le> 7 + length src + length dst"
  by (simp_all add: cr_params_def cc_params_def write_param_def)

lemma send_cr_eq:
  assumes "length (src_tsap c) + length (dst_tsap c) \<le> 240"
  shows "send_cr c code = Inr (c\<lparr>cc_stream := write_all
    (frame (conn_tpdu TPDU_CR 0 (src_ref c) (cr_params code (src_tsap c) (dst_tsap c)))) (cc_stream c)\<rparr>)"
proof -
  let ?b = "conn_tpdu TPDU_CR 0 (src_ref c) (cr_params code (src_tsap c) (dst_tsap c))"
  have "write_packet ?b (cc_stream c) = Inr (write_all (frame ?b) (cc_stream c))"
    using assms by (intro write_packet_frame)
      (simp add: length_conn_tpdu length_params HEADER_LEN_def MAX_PACKET_def)
  then show ?thesis
    by (simp add: send_cr_def conn_tpdu_def cr_params_def write_param_def)
qed

lemma send_cc_eq:
  assumes "length (src_tsap c) + length (dst_tsap c) \<le> 240"
  shows "send_cc c code = Inr (c\<lparr>cc_stream := write_all
    (frame (conn_tpdu TPDU_CC (dst_ref c) (src_ref c) (cc_params code (src_tsap c) (dst_tsap c)))) (cc_stream c)\<rparr>)"
proof -
  let ?b = "conn_tpdu TPDU_CC (dst_ref c) (src_ref c) (cc_params code (src_tsap c) (dst_tsap c))"
  have "write_packet ?b (cc_stream c) = Inr (write_all (frame ?b) (cc_stream c))"
    using assms length_params(2) [of code "src_tsap c" "dst_tsap c"]
    by (intro write_packet_frame) (simp add: length_conn_tpdu HEADER_LEN_def MAX_PACKET_def)
  then show ?thesis
    by (simp add: send_cc_def conn_tpdu_def cc_params_def write_param_def)
qed

lemma parse_header_conn:
  assumes "length params \<le> 249"
  shows "parse_header (conn_tpdu typ dref sref params) =
    Inr (6 + length params, typ AND 0xf0, to_be_bytes dref @ to_be_bytes sref @ [0] @ params)"
proof -
  have "unat (of_nat (6 + length params) :: u8) = 6 + length params"
    using assms by (intro unat_of_nat_small) simp
  then show ?thesis
    by (simp add: parse_header_def conn_tpdu_def subslice_def Let_def)
qed

lemma read_packet_conn:
  assumes "inbound s = frame (conn_tpdu typ dref sref params) @ zs" "length params \<le> 249"
  shows "read_packet s = Inr (conn_tpdu typ dref sref params, s\<lparr>inbound := zs\<rparr>)"
  using assms by (intro read_packet_frame_small) (simp_all add: length_conn_tpdu HEADER_LEN_def)

lemma unat_len_small: "length xs \<le> 240 \<Longrightarrow> unat (of_nat (length xs) :: u8) = length xs"
  by (intro unat_of_nat_small) simp

lemma accept_params_cr:
  assumes "length src + length dst \<le> 240"
  shows "accept_params c k (cr_params code src dst) =
    (c\<lparr>max_tpdu := usize_shl1 (unat (min code 24)), dst_tsap := src, src_tsap := dst\<rparr>, code)"
  using assms unat_len_small [of src] unat_len_small [of dst]
  by (simp add: cr_params_def write_param_def Let_def cotp_consts)

lemma parse_params_cc:
  assumes "length src + length dst \<le> 240"
  shows "parse_params c (cc_params code src dst) =
    (if usize_shl1 (unat (min code 24)) < max_tpdu c
     then c\<lparr>max_tpdu := usize_shl1 (unat (min code 24))\<rparr> else c)"
  using assms unat_len_small [of src] unat_len_small [of dst]
  by (auto simp: cc_params_def write_param_def Let_def cotp_consts usize_shl1_def)

section \<open>The transport contract\<close>

text \<open>
  What a user of the traits \<open>SendTsdu\<close> and \<open>RecvTsdu\<close> relies on: a unit sent by a ready
  end appends some octets to what it has written, and an end that finds those octets
  pending receives exactly that unit and nothing else.
\<close>

locale tsdu_transport =
  fixes send :: "'t \<Rightarrow> bytes \<Rightarrow> osi_error + 't"
    and recv :: "'t \<Rightarrow> osi_error + (bytes \<times> 't)"
    and ready :: "'t \<Rightarrow> bool"
    and written :: "'t \<Rightarrow> bytes"
    and pending :: "'t \<Rightarrow> bytes"
  assumes send_recv: "ready t \<Longrightarrow>
    \<exists>t' w. send t x = Inr t' \<and> ready t' \<and> written t' = written t @ w \<and> pending t' = pending t \<and>
      (\<forall>r zs. pending r = w @ zs \<longrightarrow>
        (\<exists>r'. recv r = Inr (x, r') \<and> pending r' = zs \<and> written r' = written r \<and> ready r' = ready r))"
begin

lemma sendE:
  assumes "ready t"
  obtains t' w where "send t x = Inr t'" "ready t'" "written t' = written t @ w" "pending t' = pending t"
    "\<And>r zs. pending r = w @ zs \<Longrightarrow>
      \<exists>r'. recv r = Inr (x, r') \<and> pending r' = zs \<and> written r' = written r \<and> ready r' = ready r"
  using send_recv [OF assms, of x] by blast

text \<open>Units sent one after another arrive in the order in which they were sent.\<close>

lemma two_units:
  assumes "ready t"
  shows "\<exists>t' w. try_bind (send t x) (\<lambda>t. send t y) = Inr t' \<and> written t' = written t @ w \<and>
    (\<forall>r zs. pending r = w @ zs \<longrightarrow>
      (\<exists>r1 r2. recv r = Inr (x, r1) \<and> recv r1 = Inr (y, r2) \<and> pending r2 = zs))"
proof -
  obtain t1 w1 where 1: "send t x = Inr t1" "ready t1" "written t1 = written t @ w1"
    "\<And>r zs. pending r = w1 @ zs \<Longrightarrow>
      \<exists>r'. recv r = Inr (x, r') \<and> pending r' = zs \<and> written r' = written r \<and> ready r' = ready r"
    using sendE [OF assms, of x] by metis
  obtain t2 w2 where 2: "send t1 y = Inr t2" "written t2 = written t1 @ w2"
    "\<And>r zs. pending r = w2 @ zs \<Longrightarrow>
      \<exists>r'. recv r = Inr (y, r') \<and> pending r' = zs \<and> written r' = written r \<and> ready r' = ready r"
    using sendE [OF 1(2), of y] by metis
  have "\<exists>r1 r2. recv r = Inr (x, r1) \<and> recv r1 = Inr (y, r2) \<and> pending r2 = zs"
    if "pending r = (w1 @ w2) @ zs" for r zs
    using 1(4) [of r "w2 @ zs"] 2(3) that by fastforce
  with 1 2 show ?thesis by (intro exI [of _ t2] exI [of _ "w1 @ w2"]) auto
qed

end

text \<open>
  The COTP connection keeps the contract as long as a full data TPDU fits a packet, that
  is, up to a negotiated size of 65531 octets.
\<close>

definition cotp_ready :: "cotp_conn \<Rightarrow> bool" where
  "cotp_ready c \<longleftrightarrow> max_tpdu c \<le> 65531"

definition cotp_written :: "cotp_conn \<Rightarrow> bytes" where
  "cotp_written c = outbound (cc_stream c)"

definition cotp_pending :: "cotp_conn \<Rightarrow> bytes" where
  "cotp_pending c = inbound (cc_stream c)"

lemma cotp_send_receive:
  fixes tsdu :: bytes
  assumes "cotp_ready c"
  defines "w \<equiv> concat (map frame (dt_tpdus (segments (max_data (max_tpdu c)) tsdu)))"
  shows "cotp_send c tsdu = Inr (c\<lparr>cc_stream := write_all w (cc_stream c)\<rparr>)"
    "inbound (cc_stream r) = w @ zs \<Longrightarrow>
       cotp_receive r = Inr (tsdu, r\<lparr>cc_stream := (cc_stream r)\<lparr>inbound := zs\<rparr>\<rparr>)"
proof -
  let ?k = "max_data (max_tpdu c)"
  have k: "?k + 7 < 2 ^ 16" "0 < ?k" using assms(1) by (auto simp: cotp_ready_def max_data_def)
  then show "cotp_send c tsdu = Inr (c\<lparr>cc_stream := write_all w (cc_stream c)\<rparr>)"
    using send_loop_segments [of "max_tpdu c" 0 tsdu "cc_stream c"]
    by (simp add: cotp_send_def w_def MAX_PACKET_def)
  assume "inbound (cc_stream r) = w @ zs"
  moreover have "\<forall>c \<in> set (segments ?k tsdu). length c + 7 < 2 ^ 16"
    using segments_bound [OF k(2), of tsdu] k(1) by auto
  ultimately have "receive_loop [] (cc_stream r) = Inr ([] @ concat (segments ?k tsdu), (cc_stream r)\<lparr>inbound := zs\<rparr>)"
    unfolding w_def by (intro receive_loop_segments) simp_all
  then show "cotp_receive r = Inr (tsdu, r\<lparr>cc_stream := (cc_stream r)\<lparr>inbound := zs\<rparr>\<rparr>)"
    by (simp add: cotp_receive_def concat_segments)
qed

interpretation cotp: tsdu_transport cotp_send cotp_receive cotp_ready cotp_written cotp_pending
proof
  fix t x
  assume r: "cotp_ready t"
  show "\<exists>t' w. cotp_send t x = Inr t' \<and> cotp_ready t' \<and> cotp_written t' = cotp_written t @ w
      \<and> cotp_pending t' = cotp_pending t \<and>
      (\<forall>r zs. cotp_pending r = w @ zs \<longrightarrow>
        (\<exists>r'. cotp_receive r = Inr (x, r') \<and> cotp_pending r' = zs \<and> cotp_written r' = cotp_written r
          \<and> cotp_ready r' = cotp_ready r))"
    using cotp_send_receive [OF r, where tsdu = x] r
    by (auto simp: cotp_ready_def cotp_written_def cotp_pending_def write_all_def)
qed

end
