(* ===== verification/Osi_Session.thy ===== *)
theory Osi_Session
  imports Osi_Transport
begin

text \<open>
  The session protocol of \<open>src/osi/session.rs\<close>. The transport below it is the pair of
  operations of the traits \<open>SendTsdu\<close> and \<open>RecvTsdu\<close>: the functions that use a transport
  take them as their first arguments. The locale \<open>tsdu_transport\<close> states what the session
  relies on, and its interpretation shows that the COTP connection provides it.
\<close>

section \<open>Session protocol data units\<close>

definition SI_GIVE_TOKENS :: u8 where "SI_GIVE_TOKENS = 0x01"
definition SI_DATA_TRANSFER :: u8 where "SI_DATA_TRANSFER = 0x01"
definition SI_CONNECT :: u8 where "SI_CONNECT = 0x0d"
definition SI_ACCEPT :: u8 where "SI_ACCEPT = 0x0e"
definition SI_REFUSE :: u8 where "SI_REFUSE = 0x0c"
definition SI_ABORT :: u8 where "SI_ABORT = 0x19"
definition PGI_CONNECT_ACCEPT :: u8 where "PGI_CONNECT_ACCEPT = 0x05"
definition PI_PROTOCOL_OPTS :: u8 where "PI_PROTOCOL_OPTS = 0x13"
definition PI_VERSION_NUMBER :: u8 where "PI_VERSION_NUMBER = 0x16"
definition PI_SESSION_USER_REQ :: u8 where "PI_SESSION_USER_REQ = 0x14"
definition PI_CALLING_SSEL :: u8 where "PI_CALLING_SSEL = 0x33"
definition PI_CALLED_SSEL :: u8 where "PI_CALLED_SSEL = 0x34"
definition PGI_USER_DATA :: u8 where "PGI_USER_DATA = 0xc1"
definition PI_TRANSPORT_DISC :: u8 where "PI_TRANSPORT_DISC = 0x11"
definition PI_REASON_CODE :: u8 where "PI_REASON_CODE = 0x32"
definition REASON_USER_DATA :: u8 where "REASON_USER_DATA = 2"

lemmas session_consts = SI_GIVE_TOKENS_def SI_DATA_TRANSFER_def SI_CONNECT_def SI_ACCEPT_def
  SI_REFUSE_def SI_ABORT_def PGI_CONNECT_ACCEPT_def PI_PROTOCOL_OPTS_def PI_VERSION_NUMBER_def
  PI_SESSION_USER_REQ_def PI_CALLING_SSEL_def PI_CALLED_SSEL_def PGI_USER_DATA_def
  PI_TRANSPORT_DISC_def PI_REASON_CODE_def REASON_USER_DATA_def

definition append_len :: "nat \<Rightarrow> bytes" where
  "append_len n = (if n < 255 then [of_nat n] else [0xff, of_nat (drop_bit 8 n), of_nat n])"

definition read_len :: "bytes \<Rightarrow> (nat \<times> nat) option" where
  "read_len b =
     (case b of
        [] \<Rightarrow> None
      | n # b' \<Rightarrow>
          if n = 0xff then
            (case b' of hi # lo # _ \<Rightarrow> Some (push_bit 8 (unat hi) OR unat lo, 3) | _ \<Rightarrow> None)
          else Some (unat n, 1))"

definition write_pi :: "u8 \<Rightarrow> bytes \<Rightarrow> bytes" where
  "write_pi code val = code # append_len (length val) @ val"

definition spdu :: "u8 \<Rightarrow> bytes \<Rightarrow> bytes" where
  "spdu si params = si # append_len (length params) @ params"

definition spdu_params :: "bytes \<Rightarrow> osi_error + bytes" where
  "spdu_params s =
     (if length s < 2 then Inl (Session ShortSpdu)
      else case read_len (tl s) of
             None \<Rightarrow> Inl (Session ShortLongFormLi)
           | Some (li, n) \<Rightarrow>
               if 1 + n + li > length s then Inl (Session (SpduLiExceeds li))
               else Inr (subslice (1 + n) (1 + n + li) s))"

function find_param :: "bytes \<Rightarrow> u8 \<Rightarrow> bytes option" where
  "find_param params code =
     (if length params \<ge> 2 then
        (case read_len (tl params) of
           None \<Rightarrow> None
         | Some (plen, n) \<Rightarrow>
             if 1 + n + plen > length params then None
             else if params ! 0 = code then Some (subslice (1 + n) (1 + n + plen) params)
             else find_param (drop (1 + n + plen) params) code)
      else None)"
  by pat_completeness auto
termination
  by (relation "measure (length \<circ> fst)") auto

function find_user_data :: "bytes \<Rightarrow> osi_error + bytes option" where
  "find_user_data params =
     (if length params \<ge> 2 then
        (case read_len (tl params) of
           None \<Rightarrow> Inl (Session ShortParameterLength)
         | Some (plen, n) \<Rightarrow>
             if 1 + n + plen > length params then Inl (Session (ParameterOverflows plen))
             else if params ! 0 = PGI_USER_DATA then Inr (Some (subslice (1 + n) (1 + n + plen) params))
             else find_user_data (drop (1 + n + plen) params))
      else Inr None)"
  by pat_completeness auto
termination
  by (relation "measure length") auto

declare find_param.simps [simp del] find_user_data.simps [simp del]

definition build_connect :: "u8 \<Rightarrow> bytes \<Rightarrow> bytes \<Rightarrow> bytes \<Rightarrow> bytes" where
  "build_connect si calling_ssel called_ssel user_data =
     (let cai = write_pi PI_PROTOCOL_OPTS [0x00] @ write_pi PI_VERSION_NUMBER [0x02];
          params = write_pi PGI_CONNECT_ACCEPT cai
            @ write_pi PI_SESSION_USER_REQ [0x00, 0x02]
            @ (if calling_ssel \<noteq> [] then write_pi PI_CALLING_SSEL calling_ssel else [])
            @ (if called_ssel \<noteq> [] then write_pi PI_CALLED_SSEL called_ssel else [])
            @ write_pi PGI_USER_DATA user_data
      in spdu si params)"

record connect_like =
  cl_si :: u8
  cl_params :: bytes
  cl_user_data :: bytes

definition parse_connect_like :: "bytes \<Rightarrow> osi_error + connect_like" where
  "parse_connect_like s =
     try_bind (spdu_params s) (\<lambda>params.
       try_bind (find_user_data params) (\<lambda>ud.
         Inr \<lparr>cl_si = s ! 0, cl_params = params,
              cl_user_data = (case ud of Some u \<Rightarrow> u | None \<Rightarrow> [])\<rparr>))"

text \<open>One round of the two-round loop of \<open>strip_data_prefix\<close>; \<open>None\<close> is the \<open>break\<close>.\<close>

definition strip_one :: "bytes \<Rightarrow> osi_error + bytes option" where
  "strip_one rest =
     (if length rest < 2 \<or> rest ! 0 \<noteq> SI_DATA_TRANSFER then Inr None
      else let li = unat (rest ! 1)
           in if 2 + li > length rest then Inl (Session (BadSpduLi li))
              else Inr (Some (drop (2 + li) rest)))"

fun strip_loop :: "nat \<Rightarrow> bytes \<Rightarrow> osi_error + bytes" where
  "strip_loop 0 rest = Inr rest"
| "strip_loop (Suc k) rest =
     try_bind (strip_one rest) (\<lambda>r. case r of None \<Rightarrow> Inr rest | Some rest' \<Rightarrow> strip_loop k rest')"

definition strip_data_prefix :: "bytes \<Rightarrow> osi_error + bytes" where
  "strip_data_prefix tsdu = strip_loop 2 tsdu"

section \<open>Services over a transport\<close>

definition connect_client ::
  "('t \<Rightarrow> bytes \<Rightarrow> osi_error + 't) \<Rightarrow> ('t \<Rightarrow> osi_error + (bytes \<times> 't)) \<Rightarrow> 't \<Rightarrow> bytes \<Rightarrow> bytes \<Rightarrow> bytes
     \<Rightarrow> osi_error + (bytes \<times> 't)" where
  "connect_client send recv t calling_ssel called_ssel user_data =
     try_bind (send t (build_connect SI_CONNECT calling_ssel called_ssel user_data)) (\<lambda>t.
     try_bind (recv t) (\<lambda>(resp, t).
       if resp \<noteq> [] \<and> resp ! 0 = SI_REFUSE then
         try_bind (spdu_params resp) (\<lambda>params.
           Inl (case find_param params PI_REASON_CODE of
                  Some (reason # ud) \<Rightarrow> Refused reason ud
                | _ \<Rightarrow> Refused 0 []))
       else
         try_bind (parse_connect_like resp) (\<lambda>parsed.
           if cl_si parsed \<noteq> SI_ACCEPT then Inl (Session (ExpectedAccept (cl_si parsed)))
           else Inr (cl_user_data parsed, t))))"

record accept_result =
  ar_user_data :: bytes
  ar_calling_ssel :: "bytes option"
  ar_called_ssel :: "bytes option"

definition accept_server ::
  "('t \<Rightarrow> osi_error + (bytes \<times> 't)) \<Rightarrow> 't \<Rightarrow> osi_error + (accept_result \<times> 't)" where
  "accept_server recv t =
     try_bind (recv t) (\<lambda>(s, t).
     try_bind (parse_connect_like s) (\<lambda>parsed.
       if cl_si parsed \<noteq> SI_CONNECT then Inl (Session (ExpectedConnect (cl_si parsed)))
       else Inr (\<lparr>ar_user_data = cl_user_data parsed,
                  ar_calling_ssel = find_param (cl_params parsed) PI_CALLING_SSEL,
                  ar_called_ssel = find_param (cl_params parsed) PI_CALLED_SSEL\<rparr>, t)))"

definition session_reply :: "('t \<Rightarrow> bytes \<Rightarrow> osi_error + 't) \<Rightarrow> 't \<Rightarrow> bytes \<Rightarrow> bytes \<Rightarrow> osi_error + 't" where
  "session_reply send t called_ssel user_data =
     send t (build_connect SI_ACCEPT [] called_ssel user_data)"

definition session_refuse :: "('t \<Rightarrow> bytes \<Rightarrow> osi_error + 't) \<Rightarrow> 't \<Rightarrow> bytes \<Rightarrow> osi_error + 't" where
  "session_refuse send t user_data =
     (let params = write_pi PI_TRANSPORT_DISC [0x01] @ write_pi PI_REASON_CODE (REASON_USER_DATA # user_data)
      in send t (spdu SI_REFUSE params))"

definition session_abort :: "('t \<Rightarrow> bytes \<Rightarrow> osi_error + 't) \<Rightarrow> 't \<Rightarrow> bytes \<Rightarrow> osi_error + 't" where
  "session_abort send t user_data =
     (let params = write_pi PI_TRANSPORT_DISC [0x0b] @ write_pi PGI_USER_DATA user_data
      in send t (spdu SI_ABORT params))"

definition send_data :: "('t \<Rightarrow> bytes \<Rightarrow> osi_error + 't) \<Rightarrow> 't \<Rightarrow> bytes \<Rightarrow> osi_error + 't" where
  "send_data send t user_data =
     send t ([SI_GIVE_TOKENS, 0x00] @ [SI_DATA_TRANSFER, 0x00] @ user_data)"

definition receive_data :: "('t \<Rightarrow> osi_error + (bytes \<times> 't)) \<Rightarrow> 't \<Rightarrow> osi_error + (bytes \<times> 't)" where
  "receive_data recv t =
     try_bind (recv t) (\<lambda>(tsdu, t).
       if tsdu \<noteq> [] \<and> tsdu ! 0 = SI_ABORT then
         Inl (OsiAborted
           (case spdu_params tsdu of
              Inl _ \<Rightarrow> []
            | Inr p \<Rightarrow> (case find_user_data p of Inr (Some ud) \<Rightarrow> ud | _ \<Rightarrow> [])))
       else try_bind (strip_data_prefix tsdu) (\<lambda>rest. Inr (rest, t)))"

section \<open>Parameters are read back\<close>

lemma length_append_len: "length (append_len n) = (if n < 255 then 1 else 3)"
  by (simp add: append_len_def)

lemma read_len_append_len [wire_simps]:
  assumes "n < 2 ^ 16"
  shows "read_len (append_len n @ zs) = Some (n, length (append_len n))"
proof (cases "n < 255")
  case True
  have "unat (of_nat n :: u8) = n" using True by (intro unat_of_nat_small) simp
  moreover from this True have "(of_nat n :: u8) \<noteq> 0xff" by auto
  ultimately show ?thesis using True by (simp add: append_len_def read_len_def)
next
  case False
  have o: "unat (of_nat m :: u8) = m mod 256" for m
    by (simp add: unsigned_of_nat take_bit_eq_mod)
  have "n div 256 < 256" using assms by simp
  then have "push_bit 8 (n div 256 mod 256) OR n mod 256 = n"
    using nat_push_or [of "n mod 256" 8 "n div 256"] by simp
  with False show ?thesis
    by (simp add: append_len_def read_len_def o drop_bit_eq_div)
qed

text \<open>The header of a parameter or of a whole unit, peeled off.\<close>

lemma write_pi_parts:
  assumes "length v < 2 ^ 16"
  defines "n \<equiv> length (append_len (length v))"
  shows "read_len (tl (write_pi c v @ zs)) = Some (length v, n)"
    "write_pi c v @ zs \<noteq> []" "(write_pi c v @ zs) ! 0 = c"
    "2 \<le> length (write_pi c v @ zs)"
    "1 + n + length v \<le> length (write_pi c v @ zs)"
    "subslice (1 + n) (1 + n + length v) (write_pi c v @ zs) = v"
    "drop (1 + n + length v) (write_pi c v @ zs) = zs"
  using read_len_append_len [OF assms(1), of "v @ zs"]
  by (auto simp: write_pi_def n_def subslice_def length_append_len)

lemma find_param_write_pi [wire_simps]:
  assumes "length v < 2 ^ 16"
  shows "find_param (write_pi c v @ zs) code = (if c = code then Some v else find_param zs code)"
  by (subst find_param.simps) (use write_pi_parts [OF assms, of c zs] in auto)

lemma find_user_data_write_pi [wire_simps]:
  assumes "length v < 2 ^ 16"
  shows "find_user_data (write_pi c v @ zs) = (if c = PGI_USER_DATA then Inr (Some v) else find_user_data zs)"
  by (subst find_user_data.simps) (use write_pi_parts [OF assms, of c zs] in auto)

lemma find_param_Nil [simp]: "find_param [] code = None"
  by (subst find_param.simps) simp

lemma spdu_params_spdu [wire_simps]:
  assumes "length params < 2 ^ 16"
  shows "spdu_params (spdu si params) = Inr params"
  using write_pi_parts [OF assms, of si "[]"] length_append_len [of "length params"]
  by (auto simp: spdu_params_def spdu_def write_pi_def)

lemma length_write_pi:
  "length (write_pi c v) = (if length v < 255 then 2 else 4) + length v"
  by (simp add: write_pi_def length_append_len)

definition connect_params :: "bytes \<Rightarrow> bytes \<Rightarrow> bytes \<Rightarrow> bytes" where
  "connect_params calling called ud =
     write_pi PGI_CONNECT_ACCEPT (write_pi PI_PROTOCOL_OPTS [0x00] @ write_pi PI_VERSION_NUMBER [0x02])
     @ write_pi PI_SESSION_USER_REQ [0x00, 0x02]
     @ (if calling \<noteq> [] then write_pi PI_CALLING_SSEL calling else [])
     @ (if called \<noteq> [] then write_pi PI_CALLED_SSEL called else [])
     @ write_pi PGI_USER_DATA ud"

lemma parse_build_connect:
  assumes "length calling + length called + length ud \<le> 65000"
  shows "parse_connect_like (build_connect si calling called ud) =
      Inr \<lparr>cl_si = si, cl_params = connect_params calling called ud, cl_user_data = ud\<rparr>"
    "find_param (connect_params calling called ud) PI_CALLING_SSEL
       = (if calling = [] then None else Some calling)"
    "find_param (connect_params calling called ud) PI_CALLED_SSEL
       = (if called = [] then None else Some called)"
proof -
  let ?p = "connect_params calling called ud"
  have l: "length ?p < 2 ^ 16"
    using assms by (simp add: connect_params_def length_write_pi)
  note w = find_user_data_write_pi find_param_write_pi length_write_pi
    find_param_write_pi [of ud _ "[]", simplified] find_user_data_write_pi [of ud _ "[]", simplified]
  have b: "build_connect si calling called ud = spdu si ?p"
    by (simp add: build_connect_def connect_params_def Let_def)
  have "find_user_data ?p = Inr (Some ud)"
    using assms by (simp add: connect_params_def w session_consts)
  then show "parse_connect_like (build_connect si calling called ud) =
      Inr \<lparr>cl_si = si, cl_params = ?p, cl_user_data = ud\<rparr>"
    by (simp add: parse_connect_like_def b spdu_params_spdu [OF l]) (simp add: spdu_def)
  show "find_param ?p PI_CALLING_SSEL = (if calling = [] then None else Some calling)"
    "find_param ?p PI_CALLED_SSEL = (if called = [] then None else Some called)"
    using assms by (simp_all add: connect_params_def w session_consts)
qed

lemma strip_data_prefix_data [wire_simps]:
  "strip_data_prefix ([SI_GIVE_TOKENS, 0x00] @ [SI_DATA_TRANSFER, 0x00] @ ud) = Inr ud"
  by (simp add: strip_data_prefix_def strip_one_def session_consts numeral_2_eq_2)

section \<open>Sessions over any transport that keeps the contract\<close>

context tsdu_transport
begin

lemma data_phase:
  assumes "ready t"
  shows "\<exists>t' w. send_data send t ud = Inr t' \<and> ready t' \<and> written t' = written t @ w \<and>
    (\<forall>r zs. pending r = w @ zs \<longrightarrow> (\<exists>r'. receive_data recv r = Inr (ud, r') \<and> pending r' = zs))"
proof -
  let ?x = "[SI_GIVE_TOKENS, 0x00] @ [SI_DATA_TRANSFER, 0x00] @ ud"
  obtain t' w where s: "send t ?x = Inr t'" "ready t'" "written t' = written t @ w"
    and r: "\<And>r zs. pending r = w @ zs \<Longrightarrow>
      \<exists>r'. recv r = Inr (?x, r') \<and> pending r' = zs \<and> written r' = written r \<and> ready r' = ready r"
    using sendE [OF assms, of ?x] by metis
  have "\<exists>r'. receive_data recv r = Inr (ud, r') \<and> pending r' = zs" if "pending r = w @ zs" for r zs
    using r [OF that] strip_data_prefix_data [of ud]
    by (auto simp: receive_data_def SI_GIVE_TOKENS_def SI_ABORT_def)
  with s show ?thesis by (auto simp: send_data_def)
qed

lemma connect_phase:
  assumes t: "ready t"
    and n: "length calling + length called + length ud \<le> 65000" "length called' + length ud' \<le> 65000"
  shows "\<exists>w1. \<forall>r zs. ready r \<and> pending r = w1 @ zs \<longrightarrow>
    (\<exists>r1 r2 w2.
      accept_server recv r = Inr (\<lparr>ar_user_data = ud,
        ar_calling_ssel = (if calling = [] then None else Some calling),
        ar_called_ssel = (if called = [] then None else Some called)\<rparr>, r1) \<and>
      session_reply send r1 called' ud' = Inr r2 \<and> written r2 = written r @ w2 \<and> pending r2 = zs \<and>
      (\<forall>zs2. pending t = w2 @ zs2 \<longrightarrow>
        (\<exists>t2. connect_client send recv t calling called ud = Inr (ud', t2)
          \<and> written t2 = written t @ w1 \<and> pending t2 = zs2)))"
proof -
  let ?x = "build_connect SI_CONNECT calling called ud" and ?y = "build_connect SI_ACCEPT [] called' ud'"
  obtain t1 w1 where c: "send t ?x = Inr t1" "written t1 = written t @ w1" "pending t1 = pending t"
    and cr: "\<And>r zs. pending r = w1 @ zs \<Longrightarrow>
      \<exists>r'. recv r = Inr (?x, r') \<and> pending r' = zs \<and> written r' = written r \<and> ready r' = ready r"
    using sendE [OF t, of ?x] by metis
  note px = parse_build_connect [OF n(1)]
  have py: "parse_connect_like ?y = Inr \<lparr>cl_si = SI_ACCEPT, cl_params = connect_params [] called' ud', cl_user_data = ud'\<rparr>"
    using n(2) by (intro parse_build_connect(1)) simp
  have y: "?y \<noteq> [] \<and> ?y ! 0 \<noteq> SI_REFUSE"
    by (simp add: build_connect_def spdu_def session_consts Let_def)
  show ?thesis
  proof (intro exI [of _ w1] allI impI, elim conjE)
    fix r zs
    assume "ready r" "pending r = w1 @ zs"
    with cr obtain r1 where r1: "recv r = Inr (?x, r1)" "pending r1 = zs" "written r1 = written r" "ready r1"
      by metis
    obtain r2 w2 where r2: "send r1 ?y = Inr r2" "written r2 = written r1 @ w2" "pending r2 = pending r1"
      and rr: "\<And>q zs. pending q = w2 @ zs \<Longrightarrow>
        \<exists>q'. recv q = Inr (?y, q') \<and> pending q' = zs \<and> written q' = written q \<and> ready q' = ready q"
      using sendE [OF r1(4), of ?y] by metis
    have "\<exists>t2. connect_client send recv t calling called ud = Inr (ud', t2)
        \<and> written t2 = written t @ w1 \<and> pending t2 = zs2" if "pending t = w2 @ zs2" for zs2
      using rr [of t1 zs2] c that y py by (auto simp: connect_client_def)
    with r1 r2 px show "\<exists>r1 r2 w2.
      accept_server recv r = Inr (\<lparr>ar_user_data = ud,
        ar_calling_ssel = (if calling = [] then None else Some calling),
        ar_called_ssel = (if called = [] then None else Some called)\<rparr>, r1) \<and>
      session_reply send r1 called' ud' = Inr r2 \<and> written r2 = written r @ w2 \<and> pending r2 = zs \<and>
      (\<forall>zs2. pending t = w2 @ zs2 \<longrightarrow>
        (\<exists>t2. connect_client send recv t calling called ud = Inr (ud', t2)
          \<and> written t2 = written t @ w1 \<and> pending t2 = zs2))"
      by (auto simp: accept_server_def session_reply_def)
  qed
qed

text \<open>A refusal reaches the caller as the error it names, with its user data; so does an abort.\<close>

lemma refusal:
  assumes "ready r" "length ud \<le> 65000"
  shows "\<exists>r' w. session_refuse send r ud = Inr r' \<and> written r' = written r @ w \<and>
    (\<forall>t zs. ready t \<and> pending t = w @ zs \<longrightarrow>
      connect_client send recv t calling called x = Inl (Refused REASON_USER_DATA ud))"
proof -
  let ?p = "write_pi PI_TRANSPORT_DISC [0x01] @ write_pi PI_REASON_CODE (REASON_USER_DATA # ud)"
  let ?y = "spdu SI_REFUSE ?p"
  obtain r' w where s: "send r ?y = Inr r'" "written r' = written r @ w"
    and rr: "\<And>q zs. pending q = w @ zs \<Longrightarrow>
      \<exists>q'. recv q = Inr (?y, q') \<and> pending q' = zs \<and> written q' = written q \<and> ready q' = ready q"
    using sendE [OF assms(1), of ?y] by metis
  have f: "spdu_params ?y = Inr ?p" "find_param ?p PI_REASON_CODE = Some (REASON_USER_DATA # ud)"
    using assms(2) find_param_write_pi [of "REASON_USER_DATA # ud" PI_REASON_CODE "[]" PI_REASON_CODE]
    by (simp_all add: spdu_params_spdu length_write_pi find_param_write_pi session_consts)
  have "connect_client send recv t calling called x = Inl (Refused REASON_USER_DATA ud)"
    if rt: "ready t" and pt: "pending t = w @ zs" for t zs
  proof -
    obtain t1 where "send t (build_connect SI_CONNECT calling called x) = Inr t1" "pending t1 = pending t"
      using sendE [OF rt] by metis
    moreover from this rr [of t1 zs] pt obtain t2 where "recv t1 = Inr (?y, t2)" by auto
    ultimately show ?thesis
      by (simp add: connect_client_def f) (simp add: spdu_def)
  qed
  with s show ?thesis by (auto simp: session_refuse_def)
qed

lemma abortion:
  assumes "ready r" "length ud \<le> 65000"
  shows "\<exists>r' w. session_abort send r ud = Inr r' \<and> written r' = written r @ w \<and>
    (\<forall>t zs. pending t = w @ zs \<longrightarrow> receive_data recv t = Inl (OsiAborted ud))"
proof -
  let ?p = "write_pi PI_TRANSPORT_DISC [0x0b] @ write_pi PGI_USER_DATA ud"
  let ?y = "spdu SI_ABORT ?p"
  obtain r' w where s: "send r ?y = Inr r'" "written r' = written r @ w"
    and rr: "\<And>q zs. pending q = w @ zs \<Longrightarrow>
      \<exists>q'. recv q = Inr (?y, q') \<and> pending q' = zs \<and> written q' = written q \<and> ready q' = ready q"
    using sendE [OF assms(1), of ?y] by metis
  have f: "spdu_params ?y = Inr ?p" "find_user_data ?p = Inr (Some ud)"
    using assms(2) find_user_data_write_pi [of ud PGI_USER_DATA "[]"]
    by (simp_all add: spdu_params_spdu length_write_pi find_user_data_write_pi session_consts)
  have "receive_data recv t = Inl (OsiAborted ud)" if "pending t = w @ zs" for t zs
    using rr [OF that] by (auto simp: receive_data_def f) (simp_all add: spdu_def)
  with s show ?thesis by (auto simp: session_abort_def)
qed

end

end
