(* ===== verification/Osi_Correct.thy ===== *)
theory Osi_Correct
  imports Osi_Session
begin

text \<open>
  The correctness of the transport and session layers: packets, segmentation and
  reassembly, the connection handshake, and sessions over a COTP connection.
\<close>

section \<open>The handshake, both ends\<close>

lemma cotp_accept_cr:
  assumes "inbound s = frame (conn_tpdu TPDU_CR 0 sref (cr_params code src dst)) @ zs"
    and n: "length src + length dst \<le> 240"
  shows "cotp_accept s = Inr \<lparr>
    cc_stream = write_all (frame (conn_tpdu TPDU_CC sref 1 (cc_params code dst src))) (s\<lparr>inbound := zs\<rparr>),
    max_tpdu = usize_shl1 (unat (min code 24)), src_ref = 1, dst_ref = sref, src_tsap = dst, dst_tsap = src\<rparr>"
proof -
  define P where "P = cr_params code src dst"
  have l: "length P \<le> 249" "0 < length P" using n by (simp_all add: P_def length_params)
  note r = read_packet_conn [OF assms(1) [folded P_def] l(1)] parse_header_conn [OF l(1)]
    accept_params_cr [OF n, where code = code, folded P_def]
  obtain h k where hk: "to_be_bytes sref = [h, k]" by (simp add: to_be_bytes_16)
  then have "from_be_bytes [h, k] = sref" using from_to_be_bytes_16 [of sref] by simp
  then show ?thesis
    using n l(2) by (simp add: cotp_accept_def r hk to_be_bytes_16 [of 0] send_cc_eq Let_def)
      (simp add: cotp_consts)?
qed

lemma cotp_connect_cc:
  assumes "inbound s = frame (conn_tpdu TPDU_CC 1 sref (cc_params code' src' dst')) @ zs"
    and n: "length (opt_src_tsap opts) + length (opt_dst_tsap opts) \<le> 240" "length src' + length dst' \<le> 240"
    and code: "code = (if tpdu_size_code opts = 0 then 10 else tpdu_size_code opts)"
  shows "cotp_connect s opts = Inr \<lparr>
    cc_stream = write_all (frame (conn_tpdu TPDU_CR 0 1 (cr_params code (opt_src_tsap opts) (opt_dst_tsap opts))))
      (s\<lparr>inbound := zs\<rparr>),
    max_tpdu = min (usize_shl1 (unat code)) (usize_shl1 (unat (min code' 24))), src_ref = 1, dst_ref = sref,
    src_tsap = opt_src_tsap opts, dst_tsap = opt_dst_tsap opts\<rparr>"
proof -
  define P where "P = cc_params code' src' dst'"
  have l: "length P \<le> 249" "0 < length P"
    using n(2) length_params(2) [of code' src' dst'] by (simp_all add: P_def cc_params_def write_param_def)
  let ?f = "frame (conn_tpdu TPDU_CR 0 1 (cr_params code (opt_src_tsap opts) (opt_dst_tsap opts)))"
  have "inbound (write_all ?f s) = frame (conn_tpdu TPDU_CC 1 sref P) @ zs"
    using assms(1) by (simp add: write_all_def P_def)
  note r = read_packet_conn [OF this l(1)] parse_header_conn [OF l(1)] parse_params_cc [OF n(2), where code = code', folded P_def]
  obtain h k where hk: "to_be_bytes sref = [h, k]" by (simp add: to_be_bytes_16)
  then have "from_be_bytes [h, k] = sref" using from_to_be_bytes_16 [of sref] by simp
  then show ?thesis
    using n(1) l(2)
    by (simp add: cotp_connect_def recv_cc_def send_cr_eq r hk to_be_bytes_16 [of 1] Let_def
        flip: code)
      (auto simp: cotp_consts write_all_def min_def)
qed

section \<open>Packets\<close>

text \<open>
  Packets of up to 65535 octets are read back: whatever a writer frames, a reader of the
  same octets gets as the payload, and reading stops at the end of the packet.
\<close>

theorem packet_roundtrip:
  assumes "4 + length p < 2 ^ 16"
  shows "\<exists>w. write_packet p s = Inr (write_all w s) \<and> length w = 4 + length p \<and>
    (\<forall>r zs. inbound r = w @ zs \<longrightarrow> read_packet r = Inr (p, r\<lparr>inbound := zs\<rparr>))"
proof (intro exI [of _ "frame p"] conjI allI impI)
  show "write_packet p s = Inr (write_all (frame p) s)"
    using assms by (intro write_packet_frame) (simp add: HEADER_LEN_def MAX_PACKET_def)
  show "length (frame p) = 4 + length p" by (simp add: frame_def)
  fix r :: stream and zs
  assume "inbound r = frame p @ zs"
  then show "read_packet r = Inr (p, r\<lparr>inbound := zs\<rparr>)"
    using assms by (intro read_packet_frame_small) (simp_all add: HEADER_LEN_def)
qed

theorem packet_roundtrip_witness:
  "\<exists>w. write_packet [0xde, 0xad] \<lparr>inbound = [], outbound = []\<rparr> = Inr (write_all w \<lparr>inbound = [], outbound = []\<rparr>)
    \<and> length w = 4 + length [0xde, 0xad :: u8] \<and>
    (\<forall>r zs. inbound r = w @ zs \<longrightarrow> read_packet r = Inr ([0xde, 0xad], r\<lparr>inbound := zs\<rparr>))"
  by (rule packet_roundtrip) simp

text \<open>
  C33. The size check of \<open>write_packet\<close> is too weak for its 16-bit length field: a payload
  whose packet has 65536 octets or more, up to the accepted maximum, is written without an
  error, and no reader of those octets gets it back; a payload that is returned at all is
  shorter than the one written.
\<close>

theorem packet_length_wraps:
  assumes "2 ^ 16 \<le> 4 + length p" "4 + length p \<le> MAX_PACKET"
  shows "\<exists>w. write_packet p s = Inr (write_all w s) \<and>
    (\<forall>r zs. inbound r = w @ zs \<longrightarrow>
      (case read_packet r of Inl _ \<Rightarrow> True | Inr (p', _) \<Rightarrow> length p' < length p))"
proof (intro exI [of _ "frame p"] conjI allI impI)
  show "write_packet p s = Inr (write_all (frame p) s)"
    using assms by (intro write_packet_frame) (simp add: HEADER_LEN_def)
  have m: "(4 + length p) mod 2 ^ 16 < 2 ^ 16" by simp
  fix r :: stream and zs
  assume "inbound r = frame p @ zs"
  then show "case read_packet r of Inl _ \<Rightarrow> True | Inr (p', _) \<Rightarrow> length p' < length p"
    using assms(1) m by (auto simp: read_packet_frame HEADER_LEN_def min_def)
qed

theorem packet_length_wraps_witness:
  "\<exists>w. write_packet (replicate 65532 0) \<lparr>inbound = [], outbound = []\<rparr>
      = Inr (write_all w \<lparr>inbound = [], outbound = []\<rparr>) \<and>
    (\<forall>r zs. inbound r = w @ zs \<longrightarrow>
      (case read_packet r of Inl _ \<Rightarrow> True | Inr (p', _) \<Rightarrow> length p' < length (replicate 65532 (0 :: u8))))"
  by (rule packet_length_wraps) (simp_all add: MAX_PACKET_def)

section \<open>Segmentation\<close>


definition idle_conn :: "nat \<Rightarrow> cotp_conn" where
  "idle_conn m = \<lparr>cc_stream = \<lparr>inbound = [], outbound = []\<rparr>, max_tpdu = m, src_ref = 1, dst_ref = 1,
     src_tsap = DEFAULT_TSAP, dst_tsap = DEFAULT_TSAP\<rparr>"


section \<open>Connection establishment\<close>

text \<open>
  C24. The two ends of the handshake agree: when the called end reads the octets the calling
  end writes and the calling end reads the answer, both get a connection, with the selectors
  crossed over, each other's references, and the same maximum size, for every proposed size
  code below 64.
\<close>

theorem handshake_agreement:
  assumes "length (opt_src_tsap opts) + length (opt_dst_tsap opts) \<le> 240"
    and "0 < tpdu_size_code opts" "tpdu_size_code opts < 64"
  shows "\<exists>cr. \<forall>s zs. inbound s = cr @ zs \<longrightarrow>
    (\<exists>sv cc. cotp_accept s = Inr sv \<and> cotp_written sv = outbound s @ cc \<and> cotp_pending sv = zs \<and>
       src_tsap sv = opt_dst_tsap opts \<and> dst_tsap sv = opt_src_tsap opts \<and>
       (\<forall>t zs'. inbound t = cc @ zs' \<longrightarrow>
         (\<exists>cl. cotp_connect t opts = Inr cl \<and> cotp_written cl = outbound t @ cr \<and> cotp_pending cl = zs' \<and>
            max_tpdu cl = max_tpdu sv \<and> dst_ref cl = src_ref sv \<and> dst_ref sv = src_ref cl)))"
proof -
  let ?code = "tpdu_size_code opts" and ?src = "opt_src_tsap opts" and ?dst = "opt_dst_tsap opts"
  let ?cr = "frame (conn_tpdu TPDU_CR 0 1 (cr_params ?code ?src ?dst))"
  let ?cc = "frame (conn_tpdu TPDU_CC 1 1 (cc_params ?code ?dst ?src))"
  have n: "length ?dst + length ?src \<le> 240" using assms(1) by simp
  have code: "?code = (if ?code = 0 then 10 else ?code)" using assms(2) by auto
  have sz: "min (usize_shl1 (unat ?code)) (usize_shl1 (unat (min ?code 24))) = usize_shl1 (unat (min ?code 24))"
  proof -
    have "unat (min ?code 24) \<le> unat ?code" "unat ?code < 64" "unat (min ?code 24) < 64"
      using assms(3) by (auto simp: min_def word_le_nat_alt word_less_nat_alt)
    then show ?thesis by (simp add: usize_shl1_def)
  qed
  show ?thesis
    apply (intro exI [of _ ?cr] allI impI)
    apply (intro exI conjI)
    apply (erule cotp_accept_cr [OF _ assms(1)])
    apply (simp_all add: cotp_written_def cotp_pending_def write_all_def)
    apply (intro allI impI)
    apply (intro exI conjI)
    apply (erule cotp_connect_cc [OF _ assms(1) n code])
    apply (simp_all add: write_all_def sz)
    done
qed

theorem handshake_agreement_witness:
  "length (opt_src_tsap default_options) + length (opt_dst_tsap default_options) \<le> 240 \<and>
   (\<exists>cr. \<forall>s zs. inbound s = cr @ zs \<longrightarrow>
    (\<exists>sv cc. cotp_accept s = Inr sv \<and> cotp_written sv = outbound s @ cc \<and> cotp_pending sv = zs \<and>
       src_tsap sv = opt_dst_tsap default_options \<and> dst_tsap sv = opt_src_tsap default_options \<and>
       (\<forall>t zs'. inbound t = cc @ zs' \<longrightarrow>
         (\<exists>cl. cotp_connect t default_options = Inr cl \<and> cotp_written cl = outbound t @ cr \<and> cotp_pending cl = zs' \<and>
            max_tpdu cl = max_tpdu sv \<and> dst_ref cl = src_ref sv \<and> dst_ref sv = src_ref cl))))"
proof -
  have "length (opt_src_tsap default_options) + length (opt_dst_tsap default_options) \<le> 240"
    "0 < tpdu_size_code default_options" "tpdu_size_code default_options < 64"
    by (simp_all add: default_options_def DEFAULT_TSAP_def)
  with handshake_agreement [OF this] show ?thesis by blast
qed

section \<open>Sessions\<close>

text \<open>
  C25. A session is established over COTP: the called end obtains the selectors and the user
  data of the CONNECT, and the calling end obtains the user data of the ACCEPT that answers
  it.
\<close>

theorem session_association:
  assumes "cotp_ready t"
    and "length calling + length called + length ud \<le> 65000" "length called' + length ud' \<le> 65000"
  shows "\<exists>w1. \<forall>r zs. cotp_ready r \<and> cotp_pending r = w1 @ zs \<longrightarrow>
    (\<exists>r1 r2 w2.
      accept_server cotp_receive r = Inr (\<lparr>ar_user_data = ud,
        ar_calling_ssel = (if calling = [] then None else Some calling),
        ar_called_ssel = (if called = [] then None else Some called)\<rparr>, r1) \<and>
      session_reply cotp_send r1 called' ud' = Inr r2 \<and> cotp_written r2 = cotp_written r @ w2 \<and> cotp_pending r2 = zs \<and>
      (\<forall>zs2. cotp_pending t = w2 @ zs2 \<longrightarrow>
        (\<exists>t2. connect_client cotp_send cotp_receive t calling called ud = Inr (ud', t2)
          \<and> cotp_written t2 = cotp_written t @ w1 \<and> cotp_pending t2 = zs2)))"
  by (rule cotp.connect_phase [OF assms])

theorem session_association_witness:
  "cotp_ready (idle_conn 1024) \<and>
   (\<exists>w1. \<forall>r zs. cotp_ready r \<and> cotp_pending r = w1 @ zs \<longrightarrow>
    (\<exists>r1 r2 w2.
      accept_server cotp_receive r = Inr (\<lparr>ar_user_data = [0x31],
        ar_calling_ssel = (if [0x00 :: u8, 0x01] = [] then None else Some [0x00, 0x01]),
        ar_called_ssel = (if [0x00 :: u8, 0x02] = [] then None else Some [0x00, 0x02])\<rparr>, r1) \<and>
      session_reply cotp_send r1 [0x00, 0x02] [0x32] = Inr r2 \<and> cotp_written r2 = cotp_written r @ w2 \<and> cotp_pending r2 = zs \<and>
      (\<forall>zs2. cotp_pending (idle_conn 1024) = w2 @ zs2 \<longrightarrow>
        (\<exists>t2. connect_client cotp_send cotp_receive (idle_conn 1024) [0x00, 0x01] [0x00, 0x02] [0x31] = Inr ([0x32], t2)
          \<and> cotp_written t2 = cotp_written (idle_conn 1024) @ w1 \<and> cotp_pending t2 = zs2))))"
proof -
  have "cotp_ready (idle_conn 1024)" by (simp add: cotp_ready_def idle_conn_def)
  moreover have "length [0x00, 0x01 :: u8] + length [0x00, 0x02 :: u8] + length [0x31 :: u8] \<le> 65000"
    "length [0x00, 0x02 :: u8] + length [0x32 :: u8] \<le> 65000"
    by simp_all
  ultimately show ?thesis using session_association by blast
qed

text \<open>
  In the data phase the user data of every message arrives unchanged over COTP, whatever
  its first octets are, and a refusal or an abort reaches the peer as that error with its user
  data.
\<close>

theorem session_messages:
  assumes "cotp_ready t" "length ud \<le> 65000"
  shows "(\<exists>t' w. send_data cotp_send t x = Inr t' \<and> cotp_written t' = cotp_written t @ w \<and>
      (\<forall>r zs. cotp_pending r = w @ zs \<longrightarrow>
        (\<exists>r'. receive_data cotp_receive r = Inr (x, r') \<and> cotp_pending r' = zs))) \<and>
    (\<exists>t' w. session_refuse cotp_send t ud = Inr t' \<and> cotp_written t' = cotp_written t @ w \<and>
      (\<forall>r zs. cotp_ready r \<and> cotp_pending r = w @ zs \<longrightarrow>
        connect_client cotp_send cotp_receive r calling called y = Inl (Refused REASON_USER_DATA ud))) \<and>
    (\<exists>t' w. session_abort cotp_send t ud = Inr t' \<and> cotp_written t' = cotp_written t @ w \<and>
      (\<forall>r zs. cotp_pending r = w @ zs \<longrightarrow> receive_data cotp_receive r = Inl (OsiAborted ud)))"
  using cotp.data_phase [OF assms(1), of x] cotp.refusal [OF assms, of calling called y] cotp.abortion [OF assms]
  by blast

theorem session_messages_witness:
  "(\<exists>t' w. send_data cotp_send (idle_conn 128) [0x01, 0x00] = Inr t' \<and> cotp_written t' = cotp_written (idle_conn 128) @ w \<and>
      (\<forall>r zs. cotp_pending r = w @ zs \<longrightarrow>
        (\<exists>r'. receive_data cotp_receive r = Inr ([0x01, 0x00], r') \<and> cotp_pending r' = zs))) \<and>
    (\<exists>t' w. session_refuse cotp_send (idle_conn 128) [0x61] = Inr t' \<and> cotp_written t' = cotp_written (idle_conn 128) @ w \<and>
      (\<forall>r zs. cotp_ready r \<and> cotp_pending r = w @ zs \<longrightarrow>
        connect_client cotp_send cotp_receive r [] [] [0x31] = Inl (Refused REASON_USER_DATA [0x61]))) \<and>
    (\<exists>t' w. session_abort cotp_send (idle_conn 128) [0x61] = Inr t' \<and> cotp_written t' = cotp_written (idle_conn 128) @ w \<and>
      (\<forall>r zs. cotp_pending r = w @ zs \<longrightarrow> receive_data cotp_receive r = Inl (OsiAborted [0x61])))"
  by (rule session_messages) (simp_all add: cotp_ready_def idle_conn_def)

end
