(* ===== verification/Time_Util.thy ===== *)
theory Time_Util
  imports Prelude "HOL-Library.Signed_Division"
begin

text \<open>
  The calendar arithmetic of \<open>src/time_util.rs\<close>. A \<open>SystemTime\<close> is the signed number of
  nanoseconds since the Unix epoch. The \<open>i64\<close> day, year and second counts are \<open>int\<close>: from
  every second count of an \<open>i64\<close> the intermediate values stay far inside the 64-bit range.
  Rust's \<open>/\<close> truncates towards zero and is \<open>sdiv\<close>; \<open>div_euclid\<close> and \<open>rem_euclid\<close> by a
  positive divisor are \<open>div\<close> and \<open>mod\<close>.
\<close>

type_synonym system_time = int

definition BINARY_TIME_EPOCH_DAYS :: int where "BINARY_TIME_EPOCH_DAYS = 5113"

abbreviation NANOS :: int where "NANOS \<equiv> 1000000000"

definition unix_parts :: "system_time \<Rightarrow> int \<times> int" where
  "unix_parts t =
     (if t \<ge> 0 then (t div NANOS, t mod NANOS)
      else let secs = (- t) div NANOS; nanos = (- t) mod NANOS
           in if nanos = 0 then (- secs, 0) else (- secs - 1, NANOS - nanos))"

definition from_unix :: "int \<Rightarrow> int \<Rightarrow> system_time" where
  "from_unix secs nanos =
     (let base = (if secs \<ge> 0 then 0 + secs * NANOS else 0 - (- secs) * NANOS) in base + nanos)"

definition days_from_civil :: "int \<Rightarrow> int \<Rightarrow> int \<Rightarrow> int" where
  "days_from_civil y m d =
     (let y = (if m \<le> 2 then y - 1 else y);
          era = (if y \<ge> 0 then y else y - 399) sdiv 400;
          yoe = y - era * 400;
          mp = (m + 9) mod 12;
          doy = (153 * mp + 2) sdiv 5 + d - 1;
          doe = yoe * 365 + yoe sdiv 4 - yoe sdiv 100 + doy
      in era * 146097 + doe - 719468)"

definition civil_from_days :: "int \<Rightarrow> int \<times> int \<times> int" where
  "civil_from_days z0 =
     (let z = z0 + 719468;
          era = (if z \<ge> 0 then z else z - 146096) sdiv 146097;
          doe = z - era * 146097;
          yoe = (doe - doe sdiv 1460 + doe sdiv 36524 - doe sdiv 146096) sdiv 365;
          y = yoe + era * 400;
          doy = doe - (365 * yoe + yoe sdiv 4 - yoe sdiv 100);
          mp = (5 * doy + 2) sdiv 153;
          d = doy - (153 * mp + 2) sdiv 5 + 1;
          m = (if mp < 10 then mp + 3 else mp - 9)
      in (if m \<le> 2 then y + 1 else y, m, d))"

definition civil_from_unix :: "int \<Rightarrow> int \<times> int \<times> int \<times> int \<times> int \<times> int" where
  "civil_from_unix secs =
     (let days = secs div 86400; rem = secs mod 86400; (y, mo, d) = civil_from_days days
      in (y, mo, d, rem sdiv 3600, (rem smod 3600) sdiv 60, rem smod 60))"

section \<open>Seconds and nanoseconds\<close>

lemma unix_parts_eq: "unix_parts t = (t div NANOS, t mod NANOS)"
proof (cases "t \<ge> 0")
  case False
  define u where "u = - t"
  have t: "t = - u" by (simp add: u_def)
  show ?thesis
    using False by (simp add: unix_parts_def t Let_def zdiv_zminus1_eq_if zmod_zminus1_eq_if)
qed (simp add: unix_parts_def)

lemma from_unix_eq: "from_unix secs nanos = secs * NANOS + nanos"
  by (simp add: from_unix_def)

lemma from_unix_parts: "case unix_parts t of (secs, nanos) \<Rightarrow> from_unix secs nanos = t"
  by (simp add: unix_parts_eq from_unix_eq)

lemma unix_parts_from: "0 \<le> nanos \<Longrightarrow> nanos < NANOS \<Longrightarrow> unix_parts (from_unix secs nanos) = (secs, nanos)"
  by (simp add: unix_parts_eq from_unix_eq)

section \<open>The civil calendar\<close>

text \<open>The Gregorian calendar as its rules are usually written.\<close>

definition leap_year :: "int \<Rightarrow> bool" where
  "leap_year y \<longleftrightarrow> y mod 4 = 0 \<and> (y mod 100 \<noteq> 0 \<or> y mod 400 = 0)"

definition days_in_month :: "int \<Rightarrow> int \<Rightarrow> int" where
  "days_in_month y m =
     (if m = 2 then (if leap_year y then 29 else 28)
      else if m = 4 \<or> m = 6 \<or> m = 9 \<or> m = 11 then 30 else 31)"

definition civil_date :: "int \<Rightarrow> int \<Rightarrow> int \<Rightarrow> bool" where
  "civil_date y m d \<longleftrightarrow> 1 \<le> m \<and> m \<le> 12 \<and> 1 \<le> d \<and> d \<le> days_in_month y m"

lemma sdiv_nonneg: "0 \<le> a \<Longrightarrow> 0 < b \<Longrightarrow> a sdiv b = a div (b :: int)"
  by (cases "a = 0") (simp_all add: signed_divide_int_def sgn_if)

lemma smod_nonneg: "0 \<le> a \<Longrightarrow> 0 < b \<Longrightarrow> a smod b = a mod (b :: int)"
  by (cases "a = 0") (simp_all add: signed_modulo_int_def sgn_if)

text \<open>The shifted dividend makes the truncating division a floor division.\<close>

lemma floor_by_shift:
  assumes b: "0 < (b :: int)" and s: "s = b - 1"
  shows "(if a \<ge> 0 then a else a - s) sdiv b = a div b"
proof (cases "a \<ge> 0")
  case False
  define n where "n = - a - 1"
  have a: "a = - n - 1" "0 \<le> n" using False by (simp_all add: n_def)
  have "a - s = - (n + b)" using a s by simp
  then have "(a - s) sdiv b = - ((n + b) div b)"
    using b a by (simp only: signed_divide_int_def) (simp add: sgn_if add.commute)
  also have "\<dots> = - (n div b) - 1" using b div_add_self2 [of b n] by simp
  also have "\<dots> = a div b"
  proof -
    have "a = b * (- (n div b) - 1) + (b - 1 - n mod b)"
      using div_mult_mod_eq [of n b] a by (simp add: algebra_simps)
    moreover have "0 \<le> b - 1 - n mod b" "b - 1 - n mod b < b"
      using pos_mod_bound [OF b, of n] pos_mod_sign [OF b, of n] by linarith+
    ultimately show ?thesis by (rule int_div_pos_eq [symmetric])
  qed
  finally show ?thesis using False by simp
qed (use b in \<open>simp add: sdiv_nonneg\<close>)

text \<open>
  A position in the 400-year era, decomposed into the century, the four-year group, the
  year of the group and the day of the March-based year. Only the last year of a group has
  day 365, and not in the last group of the first three centuries.
\<close>

definition era_pos :: "int \<Rightarrow> int \<Rightarrow> int \<Rightarrow> int \<Rightarrow> bool" where
  "era_pos c q y doy \<longleftrightarrow> 0 \<le> c \<and> c \<le> 3 \<and> 0 \<le> q \<and> q \<le> 24 \<and> 0 \<le> y \<and> y \<le> 3 \<and> 0 \<le> doy \<and> doy \<le> 365
     \<and> (doy = 365 \<longrightarrow> y = 3 \<and> (q = 24 \<longrightarrow> c = 3))"

definition era_day :: "int \<Rightarrow> int \<Rightarrow> int \<Rightarrow> int \<Rightarrow> int" where
  "era_day c q y doy = 36524 * c + 1461 * q + 365 * y + doy"

lemma div_unique_int: "0 < (b :: int) \<Longrightarrow> b * k \<le> a \<Longrightarrow> a < b * k + b \<Longrightarrow> a div b = k"
  by (rule int_div_pos_eq [of _ b k "a - b * k"]) simp_all

lemma era_year_quotients:
  assumes "0 \<le> c" "c \<le> 3" "0 \<le> q" "q \<le> 24" "0 \<le> y" "y \<le> (3 :: int)"
  shows "(100 * c + 4 * q + y) div 4 = 25 * c + q" "(100 * c + 4 * q + y) div 100 = c"
  using assms by (intro div_unique_int; simp)+

lemma era_year_of_day:
  assumes p: "era_pos c q y doy"
  shows "(era_day c q y doy - era_day c q y doy div 1460 + era_day c q y doy div 36524
    - era_day c q y doy div 146096) div 365 = 100 * c + 4 * q + y"
proof (cases "c = 3 \<and> q = 24 \<and> doy = 365")
  case True
  with p have "y = 3" by (simp add: era_pos_def)
  with True show ?thesis by (simp add: era_day_def)
next
  case False
  let ?D = "era_day c q y doy"
  note b = p [unfolded era_pos_def]
  have last: "q = 24 \<and> y = 3 \<longrightarrow> doy \<le> 364" using b False by auto
  have "?D div 36524 = c"
    using b last by (intro div_unique_int) (auto simp: era_day_def)
  moreover have "?D div 146096 = 0"
    using b last False by (intro div_unique_int) (auto simp: era_day_def)
  moreover define e :: int where "e = (if 24 * c + q + 365 * y + doy \<ge> 1460 then 1 else 0)"
  moreover have "?D div 1460 = 25 * c + q + e"
    using b by (intro div_unique_int) (auto simp: era_day_def e_def)
  moreover have "(36500 * c + 1460 * q + 365 * y + (doy - e)) div 365 = 100 * c + 4 * q + y"
    using b by (intro div_unique_int) (auto simp: e_def)
  ultimately show ?thesis by (simp add: era_day_def algebra_simps)
qed

lemma era_pos_exists:
  assumes "0 \<le> doe" "doe \<le> 146096"
  obtains c q y doy where "era_pos c q y doy" "doe = era_day c q y doy"
proof -
  define c where "c = min 3 (doe div 36524)"
  define r where "r = doe - 36524 * c"
  define q where "q = r div 1461"
  define r2 where "r2 = r mod 1461"
  define y where "y = min 3 (r2 div 365)"
  have c: "0 \<le> c" "c \<le> 3" and r: "0 \<le> r" "r \<le> 36524" "r = 36524 \<longrightarrow> c = 3"
    using assms by (auto simp: c_def r_def min_def)
  have q: "0 \<le> q" "q \<le> 24" and r2: "0 \<le> r2" "r2 \<le> 1460" and rq: "r = 1461 * q + r2"
    using r by (auto simp: q_def r2_def)
  have y: "0 \<le> y" "y \<le> 3" "365 * y \<le> r2" "r2 \<le> 365 * y + 365" "r2 = 365 * y + 365 \<longrightarrow> y = 3"
    using r2 by (auto simp: y_def min_def)
  show ?thesis
  proof (rule that [of c q y "r2 - 365 * y"])
    show "era_pos c q y (r2 - 365 * y)"
      using c q y r rq by (auto simp: era_pos_def)
    show "doe = era_day c q y (r2 - 365 * y)"
      using rq by (simp add: era_day_def r_def)
  qed
qed

lemma mod_eq_0_small: "0 < x \<Longrightarrow> x \<le> n \<Longrightarrow> x mod n = 0 \<longleftrightarrow> x = (n :: int)"
  by (cases "x = n") simp_all

lemma mod_shift: "(n * k + x) mod n = x mod (n :: int)"
  by simp

lemma leap_year_era:
  assumes "era_pos c q y doy"
  shows "leap_year (400 * E + (100 * c + 4 * q + y) + 1) \<longleftrightarrow> y = 3 \<and> (q = 24 \<longrightarrow> c = 3)"
proof -
  let ?Y = "400 * E + (100 * c + 4 * q + y) + 1"
  note b = assms [unfolded era_pos_def]
  have "?Y mod 4 = (y + 1) mod 4"
    using mod_shift [of 4 "100 * E + 25 * c + q" "y + 1"] by (simp add: algebra_simps)
  moreover have "?Y mod 100 = (4 * q + y + 1) mod 100"
    using mod_shift [of 100 "4 * E + c" "4 * q + y + 1"] by (simp add: algebra_simps)
  moreover have "?Y mod 400 = (100 * c + 4 * q + y + 1) mod 400"
    using mod_shift [of 400 E "100 * c + 4 * q + y + 1"] by (simp add: algebra_simps)
  moreover have "(y + 1) mod 4 = 0 \<longleftrightarrow> y + 1 = 4"
    "(4 * q + y + 1) mod 100 = 0 \<longleftrightarrow> 4 * q + y + 1 = 100"
    "(100 * c + 4 * q + y + 1) mod 400 = 0 \<longleftrightarrow> 100 * c + 4 * q + y + 1 = 400"
    using b by (intro mod_eq_0_small; simp)+
  ultimately have "leap_year ?Y \<longleftrightarrow> y + 1 = 4 \<and> (4 * q + y + 1 \<noteq> 100 \<or> 100 * c + 4 * q + y + 1 = 400)"
    by (simp only: leap_year_def)
  moreover have "y + 1 = 4 \<and> (4 * q + y + 1 \<noteq> 100 \<or> 100 * c + 4 * q + y + 1 = 400)
      \<longleftrightarrow> y = 3 \<and> (q = 24 \<longrightarrow> c = 3)"
    using b by (cases "y = 3"; cases "q = 24") auto
  ultimately show ?thesis by (simp only:)
qed

text \<open>Months of the March-based year: month \<open>mp\<close> starts at day \<open>(153 * mp + 2) div 5\<close>.\<close>

lemma month_cases:
  "1 \<le> m \<Longrightarrow> m \<le> (12 :: int) \<Longrightarrow> m \<in> {1, 2, 3, 4, 5, 6, 7, 8, 9, 10, 11, 12}"
  by (simp; presburger)

lemma month_of_doy:
  assumes "0 \<le> doy" "doy \<le> (365 :: int)"
  defines "mp \<equiv> (5 * doy + 2) div 153"
  defines "d \<equiv> doy - (153 * mp + 2) div 5 + 1" and "m \<equiv> (if mp < 10 then mp + 3 else mp - 9)"
  shows "0 \<le> mp" "(m + 9) mod 12 = mp" "1 \<le> m" "m \<le> 12" "1 \<le> d"
    "d \<le> (if m = 2 then (if doy = 365 then 29 else 28)
          else if m = 4 \<or> m = 6 \<or> m = 9 \<or> m = 11 then 30 else 31)"
proof -
  have b: "153 * mp \<le> 5 * doy + 2" "5 * doy + 2 < 153 * mp + 153"
    unfolding mp_def by presburger+
  with assms have r: "0 \<le> mp" "mp \<le> 11" by linarith+
  then have "mp \<in> {0, 1, 2, 3, 4, 5, 6, 7, 8, 9, 10, 11}"
    using month_cases [of "mp + 1"] by simp
  then show "0 \<le> mp" "(m + 9) mod 12 = mp" "1 \<le> m" "m \<le> 12" "1 \<le> d"
    "d \<le> (if m = 2 then (if doy = 365 then 29 else 28)
          else if m = 4 \<or> m = 6 \<or> m = 9 \<or> m = 11 then 30 else 31)"
    using b assms(1,2) by (auto simp: m_def d_def)
qed

lemma doy_of_month:
  assumes "1 \<le> m" "m \<le> 12" "1 \<le> d"
    "d \<le> (if m = 2 then (if L then 29 else 28)
          else if m = 4 \<or> m = 6 \<or> m = 9 \<or> m = 11 then 30 else (31 :: int))"
  defines "mp \<equiv> (m + 9) mod 12"
  defines "doy \<equiv> (153 * mp + 2) div 5 + d - 1"
  shows "0 \<le> doy" "doy \<le> 365" "doy = 365 \<Longrightarrow> m \<le> 2 \<and> L" "(5 * doy + 2) div 153 = mp"
    "(if mp < 10 then mp + 3 else mp - 9) = m" "0 \<le> mp"
proof -
  have m: "m \<in> {1, 2, 3, 4, 5, 6, 7, 8, 9, 10, 11, 12}" using assms(1,2) by (rule month_cases)
  then show "0 \<le> doy" "doy \<le> 365" "doy = 365 \<Longrightarrow> m \<le> 2 \<and> L"
    "(if mp < 10 then mp + 3 else mp - 9) = m" "0 \<le> mp"
    using assms(3,4) by (auto simp: mp_def doy_def split: if_splits)
  have "153 * mp \<le> 5 * doy + 2" "5 * doy + 2 < 153 * mp + 153"
    using m assms(3,4) by (auto simp: mp_def doy_def split: if_splits)
  then show "(5 * doy + 2) div 153 = mp" by (intro div_unique_int) simp_all
qed

lemma days_of_pos:
  assumes p: "era_pos c q y doy" and m: "1 \<le> m" "m \<le> 12"
    and doy: "doy = (153 * ((m + 9) mod 12) + 2) div 5 + d - 1"
    and Y: "Y = 400 * E + (100 * c + 4 * q + y)"
  shows "days_from_civil (if m \<le> 2 then Y + 1 else Y) m d
    = E * 146097 + era_day c q y doy - 719468"
proof -
  note b = p [unfolded era_pos_def]
  let ?yoe = "100 * c + 4 * q + y"
  have e1: "(if m \<le> 2 then (if m \<le> 2 then Y + 1 else Y) - 1 else (if m \<le> 2 then Y + 1 else Y)) = Y"
    by simp
  have e2: "(if 0 \<le> Y then Y else Y - 399) sdiv 400 = E"
    by (rule trans [OF floor_by_shift div_unique_int]) (use b Y in auto)
  have e3: "Y - E * 400 = ?yoe" using Y by simp
  have e4: "?yoe sdiv 4 = 25 * c + q" "?yoe sdiv 100 = c"
    using era_year_quotients [of c q y] b by (simp_all add: sdiv_nonneg)
  have e5: "(153 * ((m + 9) mod 12) + 2) sdiv 5 = (153 * ((m + 9) mod 12) + 2) div 5"
    by (rule sdiv_nonneg) simp_all
  show ?thesis
    unfolding days_from_civil_def Let_def e1 e2 e3 e4 e5 using doy by (simp add: era_day_def)
qed

lemma civil_of_pos:
  assumes p: "era_pos c q y doy"
    and mp: "mp = (5 * doy + 2) div 153" and m: "m = (if mp < 10 then mp + 3 else mp - 9)"
    and Y: "Y = 400 * E + (100 * c + 4 * q + y)"
  shows "civil_from_days (E * 146097 + era_day c q y doy - 719468)
    = (if m \<le> 2 then Y + 1 else Y, m, doy - (153 * mp + 2) div 5 + 1)"
proof -
  note b = p [unfolded era_pos_def]
  note r = era_year_quotients [of c q y]
  let ?D = "era_day c q y doy" and ?z = "E * 146097 + era_day c q y doy"
  have D: "0 \<le> ?D" "?D \<le> 146096" using b by (auto simp: era_day_def)
  have E: "(if ?z \<ge> 0 then ?z else ?z - 146096) sdiv 146097 = E"
    by (rule trans [OF floor_by_shift div_unique_int]) (use D in auto)
  have mp0: "0 \<le> mp" using month_of_doy(1) [of doy] b mp by simp
  have e0: "?z - 719468 + 719468 = ?z" and e1: "?z - E * 146097 = ?D" by simp_all
  have "?D - ?D sdiv 1460 + ?D sdiv 36524 - ?D sdiv 146096 \<ge> 0"
    using D by (simp add: sdiv_nonneg)
  then have e2: "(?D - ?D sdiv 1460 + ?D sdiv 36524 - ?D sdiv 146096) sdiv 365 = 100 * c + 4 * q + y"
    using era_year_of_day [OF p] D by (simp add: sdiv_nonneg)
  have e3: "?D - (365 * (100 * c + 4 * q + y) + (100 * c + 4 * q + y) sdiv 4
      - (100 * c + 4 * q + y) sdiv 100) = doy"
    using b r by (simp add: era_day_def sdiv_nonneg)
  have e4: "(5 * doy + 2) sdiv 153 = mp" "(153 * mp + 2) sdiv 5 = (153 * mp + 2) div 5"
    using b mp0 by (simp_all add: sdiv_nonneg mp)
  have e5: "100 * c + 4 * q + y + E * 400 = Y" using Y by simp
  show ?thesis
    unfolding civil_from_days_def Let_def e0 E e1 e2 e3 e4 e5 m ..
qed

text \<open>Every day count is a position in an era.\<close>

lemma day_pos:
  obtains E c q y doy where "era_pos c q y doy" "z = E * 146097 + era_day c q y doy - 719468"
proof -
  have "0 \<le> (z + 719468) mod 146097" "(z + 719468) mod 146097 \<le> 146096" by simp_all
  then obtain c q y doy where "era_pos c q y doy" "(z + 719468) mod 146097 = era_day c q y doy"
    by (rule era_pos_exists)
  with that [of c q y doy "(z + 719468) div 146097"] show ?thesis
    by (simp add: algebra_simps minus_div_mult_eq_mod [symmetric])
qed

lemma civil_from_days_valid:
  assumes "civil_from_days z = (Y', m, d)"
  shows "civil_date Y' m d \<and> days_from_civil Y' m d = z"
proof -
  obtain E c q y doy where p: "era_pos c q y doy" and z: "z = E * 146097 + era_day c q y doy - 719468"
    by (rule day_pos)
  define mp where "mp = (5 * doy + 2) div 153"
  define Y where "Y = 400 * E + (100 * c + 4 * q + y)"
  note b = p [unfolded era_pos_def]
  define m' where "m' = (if mp < 10 then mp + 3 else mp - 9)"
  have "(Y', m, d) = (if m' \<le> 2 then Y + 1 else Y, m', doy - (153 * mp + 2) div 5 + 1)"
    using civil_of_pos [OF p mp_def m'_def Y_def] assms by (simp only: z)
  then have m: "m = m'" and e: "Y' = (if m \<le> 2 then Y + 1 else Y)" "m = (if mp < 10 then mp + 3 else mp - 9)"
    "d = doy - (153 * mp + 2) div 5 + 1"
    by (simp_all only: prod.inject m'_def)
  have "0 \<le> doy" "doy \<le> 365" using b by simp_all
  note mo = month_of_doy [OF this, folded mp_def, folded e(2,3)]
  have "doy = 365 \<longrightarrow> leap_year (Y + 1)"
    using leap_year_era [OF p, of E] b unfolding Y_def by auto
  then have "civil_date Y' m d"
    using mo(3-6) e(1) by (auto simp: civil_date_def days_in_month_def split: if_splits)
  moreover have "doy = (153 * ((m + 9) mod 12) + 2) div 5 + d - 1" using mo(2) e(3) by simp
  from days_of_pos [OF p mo(3,4) this Y_def] have "days_from_civil Y' m d = z"
    unfolding e(1) z .
  ultimately show ?thesis ..
qed

lemma civil_from_days_from_civil:
  assumes "civil_date Y' m d"
  shows "civil_from_days (days_from_civil Y' m d) = (Y', m, d)"
proof -
  define Y where "Y = (if m \<le> 2 then Y' - 1 else Y')"
  define E where "E = Y div 400"
  define yoe where "yoe = Y mod 400"
  define c where "c = yoe div 100"
  define q where "q = (yoe mod 100) div 4"
  define y where "y = (yoe mod 100) mod 4"
  have yoe: "0 \<le> yoe" "yoe \<le> 399" by (simp_all add: yoe_def)
  have r: "0 \<le> c" "c \<le> 3" "0 \<le> q" "q \<le> 24" "0 \<le> y" "y \<le> 3" and yo: "yoe = 100 * c + 4 * q + y"
    using yoe by (simp_all add: c_def q_def y_def)
  have Y: "Y = 400 * E + (100 * c + 4 * q + y)"
    unfolding yo [symmetric] by (simp add: E_def yoe_def)
  have Y': "Y' = (if m \<le> 2 then Y + 1 else Y)" by (simp add: Y_def)
  define doy where "doy = (153 * ((m + 9) mod 12) + 2) div 5 + d - 1"
  have "1 \<le> m" "m \<le> 12" "1 \<le> d"
    "d \<le> (if m = 2 then (if leap_year Y' then 29 else 28)
          else if m = 4 \<or> m = 6 \<or> m = 9 \<or> m = 11 then 30 else 31)"
    using assms by (auto simp: civil_date_def days_in_month_def)
  note mo = doy_of_month [OF this, folded doy_def] and m = this(1,2)
  have p0: "era_pos c q y 0" using r by (simp add: era_pos_def)
  have "doy = 365 \<longrightarrow> y = 3 \<and> (q = 24 \<longrightarrow> c = 3)"
    using mo(3) leap_year_era [OF p0, of E] by (auto simp: Y' Y algebra_simps)
  then have p: "era_pos c q y doy" using r mo by (simp add: era_pos_def)
  from days_of_pos [OF p m doy_def Y] Y' have
    "days_from_civil Y' m d = E * 146097 + era_day c q y doy - 719468" by simp
  then show ?thesis
    using civil_of_pos [OF p mo(4) [symmetric] refl Y] mo(5) by (simp add: Y' doy_def)
qed

end
