(* ===== verification/Mms_Value.thy ===== *)
theory Mms_Value
  imports Asn1_Oid Time_Util Osi_Transport
begin

text \<open>
  MMS values and errors: \<open>src/mms/errors.rs\<close> and \<open>src/mms/value.rs\<close>. A value is a datatype
  with the variants of the source's enum; octet and text contents are octet lists, floats bit
  patterns, and the eight octets of a \<open>UtcTime\<close> a list that the well-formedness predicate
  fixes to length eight. Formatted texts of protocol errors are structured reasons; the text
  rendering of values (\<open>Display\<close>) is not modelled.
\<close>

section \<open>Errors\<close>

datatype data_access_error =
    ObjectInvalidated
  | HardwareFault
  | TemporarilyUnavailable
  | ObjectAccessDenied
  | ObjectUndefined
  | InvalidAddress
  | TypeUnsupported
  | TypeInconsistent
  | ObjectAttributeInconsistent
  | ObjectAccessUnsupported
  | ObjectNonExistent
  | ObjectValueInvalid
  | OtherError u8

fun dae_code :: "data_access_error \<Rightarrow> u8" where
  "dae_code ObjectInvalidated = 0"
| "dae_code HardwareFault = 1"
| "dae_code TemporarilyUnavailable = 2"
| "dae_code ObjectAccessDenied = 3"
| "dae_code ObjectUndefined = 4"
| "dae_code InvalidAddress = 5"
| "dae_code TypeUnsupported = 6"
| "dae_code TypeInconsistent = 7"
| "dae_code ObjectAttributeInconsistent = 8"
| "dae_code ObjectAccessUnsupported = 9"
| "dae_code ObjectNonExistent = 10"
| "dae_code ObjectValueInvalid = 11"
| "dae_code (OtherError n) = n"

definition dae_from_code :: "u8 \<Rightarrow> data_access_error" where
  "dae_from_code code =
     (if code = 0 then ObjectInvalidated
      else if code = 1 then HardwareFault
      else if code = 2 then TemporarilyUnavailable
      else if code = 3 then ObjectAccessDenied
      else if code = 4 then ObjectUndefined
      else if code = 5 then InvalidAddress
      else if code = 6 then TypeUnsupported
      else if code = 7 then TypeInconsistent
      else if code = 8 then ObjectAttributeInconsistent
      else if code = 9 then ObjectAccessUnsupported
      else if code = 10 then ObjectNonExistent
      else if code = 11 then ObjectValueInvalid
      else OtherError code)"

record service_error =
  se_class :: u8
  se_code :: u8
  se_rejected :: bool
  se_detail :: string

definition service_error_new :: "u8 \<Rightarrow> u8 \<Rightarrow> service_error" where
  "service_error_new class code = \<lparr>se_class = class, se_code = code, se_rejected = False, se_detail = ''''\<rparr>"

definition with_detail :: "service_error \<Rightarrow> string \<Rightarrow> service_error" where
  "with_detail e detail = e\<lparr>se_detail := detail\<rparr>"

datatype mms_reason =
    DataNestingExceeded
  | DataWithTag tag
  | BinaryTimeOctets nat
  | UnsupportedDataTag u32
  | UtcTimeOctets nat
  | TimeOfDayOctets nat
  | TypeNestingExceeded
  | TypeSpecWithTag tag
  | ArrayOfElements u64
  | BitStringOfBits i64
  | UnsupportedTypeTag u32
  | MaterialisesValues nat
  | ReasonText string

datatype mms_error =
    MmsService service_error
  | MmsAccess data_access_error
  | MmsAsn1 asn1_error
  | MmsOsi osi_error
  | MmsIo
  | MmsProtocol mms_reason
  | MmsRejected int
  | MmsAborted string
  | AssociationRejected string
  | AuthenticationRequired
  | NotDeleted
  | MmsClosed
  | MmsTimeout
  | ReportQueueFull

definition DIAG_AUTHENTICATION_FAILURE :: int where "DIAG_AUTHENTICATION_FAILURE = 13"
definition DIAG_AUTHENTICATION_REQUIRED :: int where "DIAG_AUTHENTICATION_REQUIRED = 14"

fun is_authentication_failure :: "mms_error \<Rightarrow> bool" where
  "is_authentication_failure (MmsRejected d) =
     (d = DIAG_AUTHENTICATION_FAILURE \<or> d = DIAG_AUTHENTICATION_REQUIRED)"
| "is_authentication_failure _ = False"

fun as_service_error :: "mms_error \<Rightarrow> service_error option" where
  "as_service_error (MmsService se) = Some se"
| "as_service_error _ = None"

fun err_as_access_error :: "mms_error \<Rightarrow> data_access_error option" where
  "err_as_access_error (MmsAccess e) = Some e"
| "err_as_access_error _ = None"

text \<open>\<open>?\<close> on a BER error inside the MMS layer.\<close>

abbreviation asn1_try :: "asn1_error + 'a \<Rightarrow> mms_error + 'a" where
  "asn1_try m \<equiv> map_err MmsAsn1 m"

section \<open>Time quality\<close>

type_synonym time_quality = u8

definition LEAP_SECONDS_KNOWN :: time_quality where "LEAP_SECONDS_KNOWN = 0x80"
definition CLOCK_FAILURE :: time_quality where "CLOCK_FAILURE = 0x40"
definition CLOCK_NOT_SYNCHRONIZED :: time_quality where "CLOCK_NOT_SYNCHRONIZED = 0x20"
definition ACCURACY_UNSPECIFIED :: time_quality where "ACCURACY_UNSPECIFIED = 0x1f"
definition TQ_DEFAULT :: time_quality where "TQ_DEFAULT = 0x80 OR 10"

definition tq_accuracy :: "u8 \<Rightarrow> time_quality" where
  "tq_accuracy n = LEAP_SECONDS_KNOWN OR min n 24"

definition accuracy_bits :: "time_quality \<Rightarrow> u8" where
  "accuracy_bits q = q AND 0x1f"

definition tq_has :: "time_quality \<Rightarrow> time_quality \<Rightarrow> bool" where
  "tq_has q flag \<longleftrightarrow> q AND flag \<noteq> 0"

section \<open>Values\<close>

datatype mms_value =
    NoneV
  | ArrayV "mms_value list"
  | StructureV "mms_value list"
  | BooleanV bool
  | BitStringV bit_string
  | IntegerV i64
  | UnsignedV u64
  | Float32V f32
  | Float64V f64
  | OctetStringV bytes
  | VisibleStringV bytes
  | GeneralizedTimeV bytes
  | BinaryTimeV bytes
  | MmsStringV bytes
  | UtcTimeV bytes
  | DataAccessErrorV data_access_error

datatype value_type =
    TyNone | TyArray | TyStructure | TyBoolean | TyBitString | TyInteger | TyUnsigned | TyFloat32
  | TyFloat64 | TyOctetString | TyVisibleString | TyGeneralizedTime | TyBinaryTime | TyMmsString
  | TyUtcTime | TyDataAccessError

fun type_of_value :: "mms_value \<Rightarrow> value_type" where
  "type_of_value NoneV = TyNone"
| "type_of_value (ArrayV _) = TyArray"
| "type_of_value (StructureV _) = TyStructure"
| "type_of_value (BooleanV _) = TyBoolean"
| "type_of_value (BitStringV _) = TyBitString"
| "type_of_value (IntegerV _) = TyInteger"
| "type_of_value (UnsignedV _) = TyUnsigned"
| "type_of_value (Float32V _) = TyFloat32"
| "type_of_value (Float64V _) = TyFloat64"
| "type_of_value (OctetStringV _) = TyOctetString"
| "type_of_value (VisibleStringV _) = TyVisibleString"
| "type_of_value (GeneralizedTimeV _) = TyGeneralizedTime"
| "type_of_value (BinaryTimeV _) = TyBinaryTime"
| "type_of_value (MmsStringV _) = TyMmsString"
| "type_of_value (UtcTimeV _) = TyUtcTime"
| "type_of_value (DataAccessErrorV _) = TyDataAccessError"

definition utc_time_parts :: "int \<Rightarrow> int \<Rightarrow> time_quality \<Rightarrow> mms_value" where
  "utc_time_parts secs nanos q =
     (let frac = (of_int ((nanos * 2 ^ 24) div 1000000000) :: u32); s = (of_int secs :: u32)
      in UtcTimeV [ucast (drop_bit 24 s), ucast (drop_bit 16 s), ucast (drop_bit 8 s), ucast s,
           ucast (drop_bit 16 frac), ucast (drop_bit 8 frac), ucast frac, q])"

definition utc_time :: "system_time \<Rightarrow> time_quality \<Rightarrow> mms_value" where
  "utc_time t q = (case unix_parts t of (secs, nanos) \<Rightarrow> utc_time_parts secs nanos q)"

definition utc_time_raw :: "bytes \<Rightarrow> mms_error + mms_value" where
  "utc_time_raw b =
     (if length b = 8 then Inr (UtcTimeV b) else Inl (MmsProtocol (UtcTimeOctets (length b))))"

definition binary_time :: "system_time \<Rightarrow> mms_value" where
  "binary_time t =
     (case unix_parts t of (secs, nanos) \<Rightarrow>
        let days_since_epoch = secs div 86400;
            ms = (of_int ((secs mod 86400) * 1000 + nanos div 1000000) :: u32);
            days = (of_int (max (days_since_epoch - BINARY_TIME_EPOCH_DAYS) 0) :: u16)
        in BinaryTimeV [ucast (drop_bit 24 ms), ucast (drop_bit 16 ms), ucast (drop_bit 8 ms), ucast ms,
             ucast (drop_bit 8 days), ucast days])"

definition binary_time_raw :: "bytes \<Rightarrow> mms_error + mms_value" where
  "binary_time_raw b =
     (if length b \<noteq> 4 \<and> length b \<noteq> 6 then Inl (MmsProtocol (TimeOfDayOctets (length b)))
      else Inr (BinaryTimeV b))"

section \<open>Accessors\<close>

fun as_bool :: "mms_value \<Rightarrow> bool" where
  "as_bool (BooleanV b) = b"
| "as_bool _ = False"

text \<open>\<open>f as i64\<close>: truncation towards zero, saturating at the ends of the range, 0 for a NaN.\<close>

definition f64_trunc :: "f64 \<Rightarrow> int" where
  "f64_trunc x =
     (let e = f64_exp x; m = (if e = 0 then f64_frac x else 2 ^ 52 + f64_frac x);
          mag = (if e \<ge> 1075 then int m * 2 ^ (e - 1075) else int m div 2 ^ (1075 - max e 1))
      in if f64_sign x = 0 then mag else - mag)"

definition f64_as_i64 :: "f64 \<Rightarrow> i64" where
  "f64_as_i64 x =
     (if f64_nan x then 0
      else if f64_exp x = 2047 then (if f64_sign x = 0 then of_int (2 ^ 63 - 1) else of_int (- (2 ^ 63)))
      else of_int (max (- (2 ^ 63)) (min (2 ^ 63 - 1) (f64_trunc x))))"

fun as_i64 :: "mms_value \<Rightarrow> i64" where
  "as_i64 (IntegerV n) = n"
| "as_i64 (UnsignedV n) = n"
| "as_i64 (BooleanV b) = (if b then 1 else 0)"
| "as_i64 (Float32V f) = f64_as_i64 (f64_of_f32 f)"
| "as_i64 (Float64V f) = f64_as_i64 f"
| "as_i64 _ = 0"

definition as_i32 :: "mms_value \<Rightarrow> u32" where
  "as_i32 v = ucast (as_i64 v)"

definition as_u64 :: "mms_value \<Rightarrow> u64" where
  "as_u64 v = (case v of UnsignedV n \<Rightarrow> n | _ \<Rightarrow> as_i64 v)"

definition as_u32 :: "mms_value \<Rightarrow> u32" where
  "as_u32 v = ucast (as_u64 v)"

fun value_bytes :: "mms_value \<Rightarrow> bytes" where
  "value_bytes (BitStringV bs) = bs_bits bs"
| "value_bytes (OctetStringV b) = b"
| "value_bytes (VisibleStringV b) = b"
| "value_bytes (GeneralizedTimeV b) = b"
| "value_bytes (BinaryTimeV b) = b"
| "value_bytes (MmsStringV b) = b"
| "value_bytes (UtcTimeV b) = b"
| "value_bytes _ = []"

fun value_bit_len :: "mms_value \<Rightarrow> nat" where
  "value_bit_len (BitStringV bs) = bs_length bs"
| "value_bit_len _ = 0"

fun value_bit :: "mms_value \<Rightarrow> nat \<Rightarrow> bool option" where
  "value_bit (BitStringV bs) i = bs_bit bs i"
| "value_bit _ i = Some False"

fun value_set_bit :: "mms_value \<Rightarrow> nat \<Rightarrow> bool \<Rightarrow> mms_value option" where
  "value_set_bit (BitStringV bs) i on = map_option BitStringV (set_bit_at bs i on)"
| "value_set_bit v i on = Some v"

fun children :: "mms_value \<Rightarrow> mms_value list" where
  "children (ArrayV c) = c"
| "children (StructureV c) = c"
| "children _ = []"

definition value_len :: "mms_value \<Rightarrow> nat" where
  "value_len v = length (children v)"

definition value_index :: "mms_value \<Rightarrow> nat \<Rightarrow> mms_value option" where
  "value_index v i = (if i < length (children v) then Some (children v ! i) else None)"

fun set_index :: "mms_value \<Rightarrow> nat \<Rightarrow> mms_value \<Rightarrow> mms_value" where
  "set_index (ArrayV cs) i c = ArrayV (cs[i := c])"
| "set_index (StructureV cs) i c = StructureV (cs[i := c])"
| "set_index v i c = v"

fun as_access_error :: "mms_value \<Rightarrow> data_access_error option" where
  "as_access_error (DataAccessErrorV e) = Some e"
| "as_access_error _ = None"

fun value_time :: "mms_value \<Rightarrow> system_time option" where
  "value_time (UtcTimeV b) =
     (let secs = uint (from_be_bytes [b ! 0, b ! 1, b ! 2, b ! 3] :: u32);
          frac = push_bit 16 (unat (b ! 4)) OR push_bit 8 (unat (b ! 5)) OR unat (b ! 6);
          nanos = drop_bit 24 (frac * 1000000000)
      in Some (from_unix secs (int nanos)))"
| "value_time (BinaryTimeV b) =
     (if length b = 4 \<or> length b = 6 then
        (let ms = uint (from_be_bytes [b ! 0, b ! 1, b ! 2, b ! 3] :: u32);
             days = (if length b = 6 then uint (from_be_bytes [b ! 4, b ! 5] :: u16) else 0);
             secs = (BINARY_TIME_EPOCH_DAYS + days) * 86400 + ms div 1000
         in Some (from_unix secs ((ms mod 1000) * 1000000)))
      else None)"
| "value_time _ = None"

fun value_time_quality :: "mms_value \<Rightarrow> time_quality" where
  "value_time_quality (UtcTimeV b) = b ! 7"
| "value_time_quality _ = 0"

section \<open>Equality\<close>

text \<open>The \<open>PartialEq\<close> of the source: two NaNs of the same width are equal.\<close>

fun value_eq :: "mms_value \<Rightarrow> mms_value \<Rightarrow> bool" where
  "value_eq NoneV w = (w = NoneV)"
| "value_eq (ArrayV a) w = (case w of ArrayV b \<Rightarrow> list_all2 value_eq a b | _ \<Rightarrow> False)"
| "value_eq (StructureV a) w = (case w of StructureV b \<Rightarrow> list_all2 value_eq a b | _ \<Rightarrow> False)"
| "value_eq (BooleanV a) w = (case w of BooleanV b \<Rightarrow> a = b | _ \<Rightarrow> False)"
| "value_eq (BitStringV a) w = (case w of BitStringV b \<Rightarrow> a = b | _ \<Rightarrow> False)"
| "value_eq (IntegerV a) w = (case w of IntegerV b \<Rightarrow> a = b | _ \<Rightarrow> False)"
| "value_eq (UnsignedV a) w = (case w of UnsignedV b \<Rightarrow> a = b | _ \<Rightarrow> False)"
| "value_eq (Float32V a) w = (case w of Float32V b \<Rightarrow> f32_eq a b \<or> f32_nan a \<and> f32_nan b | _ \<Rightarrow> False)"
| "value_eq (Float64V a) w = (case w of Float64V b \<Rightarrow> f64_eq a b \<or> f64_nan a \<and> f64_nan b | _ \<Rightarrow> False)"
| "value_eq (OctetStringV a) w = (case w of OctetStringV b \<Rightarrow> a = b | _ \<Rightarrow> False)"
| "value_eq (VisibleStringV a) w = (case w of VisibleStringV b \<Rightarrow> a = b | _ \<Rightarrow> False)"
| "value_eq (GeneralizedTimeV a) w = (case w of GeneralizedTimeV b \<Rightarrow> a = b | _ \<Rightarrow> False)"
| "value_eq (BinaryTimeV a) w = (case w of BinaryTimeV b \<Rightarrow> a = b | _ \<Rightarrow> False)"
| "value_eq (MmsStringV a) w = (case w of MmsStringV b \<Rightarrow> a = b | _ \<Rightarrow> False)"
| "value_eq (UtcTimeV a) w = (case w of UtcTimeV b \<Rightarrow> a = b | _ \<Rightarrow> False)"
| "value_eq (DataAccessErrorV a) w = (case w of DataAccessErrorV b \<Rightarrow> a = b | _ \<Rightarrow> False)"

lemma value_eq_refl: "value_eq v v"
  by (induction v) (auto simp: list_all2_same f32_eq_def f64_eq_def)

lemma value_eq_sym: "value_eq v w \<Longrightarrow> value_eq w v"
proof (induction v arbitrary: w)
  case (ArrayV vs)
  then show ?case
    by (cases w) (auto simp: list_all2_conv_all_nth)
next
  case (StructureV vs)
  then show ?case
    by (cases w) (auto simp: list_all2_conv_all_nth)
qed (auto simp: f32_eq_def f64_eq_def split: mms_value.splits)

lemma list_all2_trans_elems:
  "\<lbrakk>\<And>a b c. a \<in> set as \<Longrightarrow> P a b \<Longrightarrow> P b c \<Longrightarrow> P a c; list_all2 P as bs; list_all2 P bs cs\<rbrakk>
    \<Longrightarrow> list_all2 P as cs"
  by (simp add: list_all2_conv_all_nth) (metis nth_mem)

lemma value_eq_trans: "value_eq u v \<Longrightarrow> value_eq v w \<Longrightarrow> value_eq u w"
proof (induction u arbitrary: v w)
  case (ArrayV us)
  from ArrayV.prems obtain vs ws where "v = ArrayV vs" "w = ArrayV ws"
    by (cases v) (auto split: mms_value.splits)
  with ArrayV show ?case by (auto intro: list_all2_trans_elems)
next
  case (StructureV us)
  from StructureV.prems obtain vs ws where "v = StructureV vs" "w = StructureV ws"
    by (cases v) (auto split: mms_value.splits)
  with StructureV show ?case by (auto intro: list_all2_trans_elems)
qed (auto simp: f32_eq_def f64_eq_def split: mms_value.splits)

section \<open>Codes\<close>

lemma dae_code_from_code [simp]: "dae_code (dae_from_code c) = c"
  by (simp add: dae_from_code_def)

text \<open>Canonical: a code that has a name is not carried as an unnamed one.\<close>

definition dae_canonical :: "data_access_error \<Rightarrow> bool" where
  "dae_canonical e \<longleftrightarrow> (case e of OtherError n \<Rightarrow> 11 < n | _ \<Rightarrow> True)"

lemma dae_from_code_code: "dae_canonical e \<Longrightarrow> dae_from_code (dae_code e) = e"
  by (cases e) (auto simp: dae_canonical_def dae_from_code_def)

lemma dae_canonical_from_code: "dae_canonical (dae_from_code c)"
proof -
  have "11 < c" if "c \<noteq> 0" "c \<noteq> 1" "c \<noteq> 2" "c \<noteq> 3" "c \<noteq> 4" "c \<noteq> 5" "c \<noteq> 6" "c \<noteq> 7" "c \<noteq> 8" "c \<noteq> 9"
    "c \<noteq> 10" "c \<noteq> 11" for c :: u8
  proof -
    have "unat c \<noteq> 0" "unat c \<noteq> 1" "unat c \<noteq> 2" "unat c \<noteq> 3" "unat c \<noteq> 4" "unat c \<noteq> 5" "unat c \<noteq> 6"
      "unat c \<noteq> 7" "unat c \<noteq> 8" "unat c \<noteq> 9" "unat c \<noteq> 10" "unat c \<noteq> 11"
      using that by (simp_all add: word_unat_eq_iff)
    then have "11 < unat c" by presburger
    then show ?thesis by (simp add: word_less_nat_alt)
  qed
  then show ?thesis by (simp add: dae_canonical_def dae_from_code_def)
qed

section \<open>Timestamps\<close>

text \<open>The octets of a word and back, as the timestamp formats spell them out.\<close>

lemma u32_octets:
  "from_be_bytes [ucast (drop_bit 24 s), ucast (drop_bit 16 s), ucast (drop_bit 8 s), ucast s] = (s :: u32)"
  using from_to_be_bytes_32 [of s] by (simp only: to_be_bytes_32)

lemma u24_octets:
  assumes "unat (f :: u32) < 2 ^ 24"
  shows "push_bit 16 (unat (ucast (drop_bit 16 f) :: u8)) OR push_bit 8 (unat (ucast (drop_bit 8 f) :: u8))
    OR unat (ucast f :: u8) = unat f"
proof -
  have o: "unat (ucast (drop_bit k f) :: u8) = unat f div 2 ^ k mod 256" for k
    by (simp add: unsigned_ucast_eq take_bit_eq_mod unat_drop_bit_div)
  have "unat f div 2 ^ 16 < 256" using assms by (simp add: less_mult_imp_div_less)
  then have a: "unat (ucast (drop_bit 16 f) :: u8) = unat f div 2 ^ 16" using o [of 16] by simp
  have b: "unat f div 2 ^ 16 * 256 + unat f div 2 ^ 8 mod 256 = unat f div 2 ^ 8"
    "unat f div 2 ^ 8 * 256 + unat f mod 256 = unat f"
    using octet_horner [of "unat f" 8] octet_horner [of "unat f" 0] by simp_all
  have p: "push_bit 16 x OR push_bit 8 y OR z = push_bit 8 (push_bit 8 x OR y) OR (z :: nat)" for x y z
    by (simp add: push_bit_or or.assoc)
  have "push_bit 8 (unat f div 2 ^ 16) OR unat f div 2 ^ 8 mod 256 = unat f div 2 ^ 8"
    using nat_push_or [of "unat f div 2 ^ 8 mod 256" 8 "unat f div 2 ^ 16"] b(1) by simp
  moreover have "push_bit 8 (unat f div 2 ^ 8) OR unat f mod 256 = unat f"
    using nat_push_or [of "unat f mod 256" 8 "unat f div 2 ^ 8"] b(2) by simp
  ultimately show ?thesis unfolding p a using o [of 8] o [of 0] by simp
qed

lemma value_time_octets:
  assumes "unat (f :: u32) < 2 ^ 24"
  shows "value_time (UtcTimeV [ucast (drop_bit 24 s), ucast (drop_bit 16 s), ucast (drop_bit 8 s), ucast s,
    ucast (drop_bit 16 f), ucast (drop_bit 8 f), ucast f, q])
    = Some (uint (s :: u32) * NANOS + (int (unat f) * NANOS) div 2 ^ 24)"
  using u24_octets [OF assms]
  by (simp add: Let_def u32_octets from_unix_eq drop_bit_nat_def zdiv_int)

lemma utc_time_decodes:
  assumes "0 \<le> secs" "secs < 2 ^ 32" "0 \<le> nanos" "nanos < NANOS"
  defines "frac \<equiv> (nanos * 2 ^ 24) div NANOS"
  shows "value_time (utc_time_parts secs nanos q) = Some (secs * NANOS + (frac * NANOS) div 2 ^ 24)"
    "value_time_quality (utc_time_parts secs nanos q) = q"
proof -
  have "nanos * 2 ^ 24 < NANOS * 2 ^ 24" using assms(4) by simp
  then have f: "0 \<le> frac" "frac < 2 ^ 24"
    using assms(3) unfolding frac_def by (simp_all add: div_less_iff_less_mult)
  then have u: "unat (of_int frac :: u32) = nat frac" by (simp add: unsigned_of_int take_bit_int_eq_self nat_less_iff)
  have s: "uint (of_int secs :: u32) = secs" using assms(1,2) by (simp add: uint_word_of_int)
  have "unat (of_int frac :: u32) < 2 ^ 24" using f u by (simp add: nat_less_iff)
  from value_time_octets [OF this, of "of_int secs" q] f(1)
  show "value_time (utc_time_parts secs nanos q) = Some (secs * NANOS + (frac * NANOS) div 2 ^ 24)"
    unfolding utc_time_parts_def Let_def frac_def [symmetric] u s by simp
  show "value_time_quality (utc_time_parts secs nanos q) = q"
    by (simp add: utc_time_parts_def Let_def)
qed

lemma div_bounds:
  assumes "0 < (d :: int)"
  shows "a div d * d \<le> a" "a < a div d * d + d"
  using div_mult_mod_eq [of a d] pos_mod_bound [OF assms, of a] pos_mod_sign [OF assms, of a] by linarith+

text \<open>The 24-bit fraction loses at most 60 nanoseconds and never moves a time forward.\<close>

lemma fraction_error:
  assumes "0 \<le> nanos"
  defines "back \<equiv> ((nanos * 2 ^ 24) div NANOS * NANOS) div 2 ^ 24"
  shows "back \<le> nanos" "nanos < back + 61"
proof -
  define q where "q = (nanos * 2 ^ 24) div NANOS"
  have "q * NANOS \<le> nanos * 2 ^ 24" "nanos * 2 ^ 24 < q * NANOS + NANOS"
    unfolding q_def by (rule div_bounds; simp)+
  moreover have "back * 2 ^ 24 \<le> q * NANOS" "q * NANOS < back * 2 ^ 24 + 2 ^ 24"
    unfolding back_def q_def by (rule div_bounds; simp)+
  ultimately show "back \<le> nanos" "nanos < back + 61" by simp_all
qed

text \<open>A \<open>TimeOfDay\<close> keeps the millisecond, from 1984 on and for 65536 days.\<close>

lemma binary_time_decodes:
  assumes lo: "BINARY_TIME_EPOCH_DAYS * 86400 * NANOS \<le> t"
    and hi: "t < (BINARY_TIME_EPOCH_DAYS + 2 ^ 16) * 86400 * NANOS"
  shows "value_time (binary_time t) = Some (t - t mod 1000000)"
proof -
  define secs where "secs = t div NANOS"
  define nanos where "nanos = t mod NANOS"
  define days where "days = secs div 86400 - BINARY_TIME_EPOCH_DAYS"
  define ms where "ms = secs mod 86400 * 1000 + nanos div 1000000"
  have t: "t = secs * NANOS + nanos" and n: "0 \<le> nanos" "nanos < NANOS"
    by (simp_all add: secs_def nanos_def)
  have "BINARY_TIME_EPOCH_DAYS * 86400 \<le> secs" "secs < (BINARY_TIME_EPOCH_DAYS + 65536) * 86400"
    using lo hi unfolding t using n by simp_all
  then have d: "0 \<le> days" "days < 65536"
    unfolding days_def
    by (simp_all add: pos_imp_zdiv_neg_iff less_diff_eq diff_less_eq div_less_iff_less_mult
        less_eq_div_iff_mult_less_eq algebra_simps)
  have m: "0 \<le> secs mod 86400" "secs mod 86400 < 86400" by simp_all
  have sd: "secs = secs div 86400 * 86400 + secs mod 86400" by simp
  have n6: "0 \<le> nanos div 1000000" "nanos div 1000000 < 1000" using n by auto
  then have ms: "0 \<le> ms" "ms < 2 ^ 32" "ms div 1000 = secs mod 86400" "ms mod 1000 = nanos div 1000000"
    using m unfolding ms_def by simp_all
  have ud: "uint (of_int days :: u16) = days" using d by (simp add: uint_word_of_int)
  have um: "uint (of_int ms :: u32) = ms" using ms by (simp add: uint_word_of_int)
  have "binary_time t = BinaryTimeV [ucast (drop_bit 24 (of_int ms :: u32)), ucast (drop_bit 16 (of_int ms :: u32)),
      ucast (drop_bit 8 (of_int ms :: u32)), ucast (of_int ms :: u32),
      ucast (drop_bit 8 (of_int days :: u16)), ucast (of_int days :: u16)]"
    using d(1) unfolding binary_time_def unix_parts_eq secs_def [symmetric] nanos_def [symmetric] prod.case Let_def
      ms_def [symmetric] days_def [symmetric] by simp
  then have "value_time (binary_time t) =
      Some (((BINARY_TIME_EPOCH_DAYS + days) * 86400 + ms div 1000) * NANOS + (ms mod 1000) * 1000000)"
    by (simp add: Let_def u32_octets from_unix_eq ud um)
  also have "(BINARY_TIME_EPOCH_DAYS + days) * 86400 + ms div 1000 = secs"
    unfolding ms(3) days_def using sd by simp
  also have "secs * NANOS + (ms mod 1000) * 1000000 = t - t mod 1000000"
  proof -
    have "t = 1000000 * (secs * 1000) + nanos" using t by simp
    then have "t mod 1000000 = nanos mod 1000000" by (metis mod_shift)
    then show ?thesis
      unfolding ms(4) using t by (simp add: minus_mod_eq_div_mult)
  qed
  finally show ?thesis .
qed

lemma utc_time_close:
  assumes "0 \<le> t" "t < 2 ^ 32 * NANOS"
  shows "\<exists>t'. value_time (utc_time t q) = Some t' \<and> t' \<le> t \<and> t \<le> t' + 60 \<and>
    value_time_quality (utc_time t q) = q"
proof -
  define s n where "s = t div NANOS" and "n = t mod NANOS"
  have t: "t = s * NANOS + n" and n: "0 \<le> n" "n < NANOS" by (simp_all add: s_def n_def)
  have s: "0 \<le> s" "s < 2 ^ 32" using assms by (auto simp: s_def div_less_iff_less_mult)
  define b where "b = (n * 2 ^ 24) div NANOS * NANOS div 2 ^ 24"
  have "value_time (utc_time t q) = Some (s * NANOS + b)" "value_time_quality (utc_time t q) = q"
    using utc_time_decodes [OF s n, of q] unfolding utc_time_def unix_parts_eq s_def n_def b_def by auto
  moreover have "b \<le> n" "n < b + 61" using fraction_error [OF n(1)] unfolding b_def by auto
  ultimately show ?thesis using t by simp
qed

end
