(* ===== verification/Mms_Codec.thy ===== *)
theory Mms_Codec
  imports Mms_Value
begin

text \<open>
  The encoding of MMS \<open>Data\<close>: \<open>src/mms/value_codec.rs\<close>. The loop over the children of an
  array or structure reads an element and decodes it at the next depth; its item decoder
  is \<open>decode_data_at\<close>, as the unfolding lemma shows, and the round trip rests on the loop
  contract \<open>item_loop\<close>.
\<close>

definition TAG_DATA_ARRAY :: u32 where "TAG_DATA_ARRAY = 1"
definition TAG_DATA_STRUCTURE :: u32 where "TAG_DATA_STRUCTURE = 2"
definition TAG_DATA_BOOLEAN :: u32 where "TAG_DATA_BOOLEAN = 3"
definition TAG_DATA_BIT_STRING :: u32 where "TAG_DATA_BIT_STRING = 4"
definition TAG_DATA_INTEGER :: u32 where "TAG_DATA_INTEGER = 5"
definition TAG_DATA_UNSIGNED :: u32 where "TAG_DATA_UNSIGNED = 6"
definition TAG_DATA_FLOAT :: u32 where "TAG_DATA_FLOAT = 7"
definition TAG_DATA_OCTET_STRING :: u32 where "TAG_DATA_OCTET_STRING = 9"
definition TAG_DATA_VIS_STRING :: u32 where "TAG_DATA_VIS_STRING = 10"
definition TAG_DATA_GEN_TIME :: u32 where "TAG_DATA_GEN_TIME = 11"
definition TAG_DATA_BIN_TIME :: u32 where "TAG_DATA_BIN_TIME = 12"
definition TAG_DATA_MMS_STRING :: u32 where "TAG_DATA_MMS_STRING = 16"
definition TAG_DATA_UTC_TIME :: u32 where "TAG_DATA_UTC_TIME = 17"
definition MAX_VALUE_DEPTH :: nat where "MAX_VALUE_DEPTH = 32"

lemmas data_tags = TAG_DATA_ARRAY_def TAG_DATA_STRUCTURE_def TAG_DATA_BOOLEAN_def TAG_DATA_BIT_STRING_def
  TAG_DATA_INTEGER_def TAG_DATA_UNSIGNED_def TAG_DATA_FLOAT_def TAG_DATA_OCTET_STRING_def
  TAG_DATA_VIS_STRING_def TAG_DATA_GEN_TIME_def TAG_DATA_BIN_TIME_def TAG_DATA_MMS_STRING_def
  TAG_DATA_UTC_TIME_def

section \<open>Encoding\<close>

text \<open>\<open>filter_map\<close> is \<open>List.map_filter\<close>.\<close>

lemma map_filter_cong [fundef_cong]:
  "xs = ys \<Longrightarrow> (\<And>x. x \<in> set ys \<Longrightarrow> f x = g x) \<Longrightarrow> List.map_filter f xs = List.map_filter g ys"
  by (induction ys arbitrary: xs) (auto simp: List.map_filter_def)

fun data_element :: "mms_value \<Rightarrow> element option" where
  "data_element NoneV = None"
| "data_element (ArrayV cs) =
     Some (cons (context_constructed TAG_DATA_ARRAY) (List.map_filter data_element cs))"
| "data_element (StructureV cs) =
     Some (cons (context_constructed TAG_DATA_STRUCTURE) (List.map_filter data_element cs))"
| "data_element (BooleanV b) = Some (bool_elem (context_primitive TAG_DATA_BOOLEAN) b)"
| "data_element (BitStringV bs) = Some (bit_string_elem (context_primitive TAG_DATA_BIT_STRING) bs)"
| "data_element (IntegerV n) = Some (int_elem (context_primitive TAG_DATA_INTEGER) n)"
| "data_element (UnsignedV n) = Some (uint_elem (context_primitive TAG_DATA_UNSIGNED) n)"
| "data_element (Float32V f) = Some (prim (context_primitive TAG_DATA_FLOAT) (append_float32 f))"
| "data_element (Float64V f) = Some (prim (context_primitive TAG_DATA_FLOAT) (append_float64 f))"
| "data_element (OctetStringV b) = Some (prim (context_primitive TAG_DATA_OCTET_STRING) b)"
| "data_element (VisibleStringV b) = Some (prim (context_primitive TAG_DATA_VIS_STRING) b)"
| "data_element (GeneralizedTimeV b) = Some (prim (context_primitive TAG_DATA_GEN_TIME) b)"
| "data_element (BinaryTimeV b) = Some (prim (context_primitive TAG_DATA_BIN_TIME) b)"
| "data_element (MmsStringV b) = Some (prim (context_primitive TAG_DATA_MMS_STRING) b)"
| "data_element (UtcTimeV b) = Some (prim (context_primitive TAG_DATA_UTC_TIME) b)"
| "data_element (DataAccessErrorV e) = Some (uint_elem (context_primitive 0) (ucast (dae_code e)))"

definition append_data :: "mms_value \<Rightarrow> bytes" where
  "append_data v = (case data_element v of Some el \<Rightarrow> append_elem el | None \<Rightarrow> [])"

definition encode_data :: "mms_value \<Rightarrow> bytes" where
  "encode_data v = append_data v"

section \<open>Decoding\<close>

function
  decode_data_tlv :: "tag \<Rightarrow> bytes \<Rightarrow> nat \<Rightarrow> mms_error + mms_value" and
  decode_children :: "nat \<Rightarrow> decoder \<Rightarrow> mms_error + mms_value list"
where
  "decode_data_tlv t content depth =
     (if tag_cls t \<noteq> ContextSpecific then Inl (MmsProtocol (DataWithTag t))
      else if tag_number t = TAG_DATA_ARRAY then
        try_bind (decode_children (Suc depth) (decoder_new content)) (\<lambda>cs. Inr (ArrayV cs))
      else if tag_number t = TAG_DATA_STRUCTURE then
        try_bind (decode_children (Suc depth) (decoder_new content)) (\<lambda>cs. Inr (StructureV cs))
      else if tag_number t = TAG_DATA_BOOLEAN then
        try_bind (asn1_try (decode_bool content)) (\<lambda>b. Inr (BooleanV b))
      else if tag_number t = TAG_DATA_BIT_STRING then
        try_bind (asn1_try (decode_bit_string content)) (\<lambda>b. Inr (BitStringV b))
      else if tag_number t = TAG_DATA_INTEGER then
        try_bind (asn1_try (decode_int content)) (\<lambda>n. Inr (IntegerV n))
      else if tag_number t = TAG_DATA_UNSIGNED then
        try_bind (asn1_try (decode_uint content)) (\<lambda>n. Inr (UnsignedV n))
      else if tag_number t = TAG_DATA_FLOAT then
        try_bind (asn1_try (decode_float content))
          (\<lambda>f. Inr (if length content = 5 then Float32V (f32_of_f64 f) else Float64V f))
      else if tag_number t = TAG_DATA_OCTET_STRING then Inr (OctetStringV content)
      else if tag_number t = TAG_DATA_VIS_STRING then Inr (VisibleStringV content)
      else if tag_number t = TAG_DATA_GEN_TIME then Inr (GeneralizedTimeV content)
      else if tag_number t = TAG_DATA_BIN_TIME then
        (if length content \<noteq> 4 \<and> length content \<noteq> 6
         then Inl (MmsProtocol (BinaryTimeOctets (length content)))
         else Inr (BinaryTimeV content))
      else if tag_number t = TAG_DATA_MMS_STRING then Inr (MmsStringV content)
      else if tag_number t = TAG_DATA_UTC_TIME then utc_time_raw content
      else if tag_number t = 0 \<and> \<not> constructed t then
        try_bind (asn1_try (decode_uint content))
          (\<lambda>code. Inr (DataAccessErrorV (dae_from_code (ucast code))))
      else Inl (MmsProtocol (UnsupportedDataTag (tag_number t))))"
| "decode_children depth inner =
     (if \<not> more_data inner then Inr []
      else if depth > MAX_VALUE_DEPTH then Inl (MmsProtocol DataNestingExceeded)
      else try_bind (asn1_try (read_tlv inner)) (\<lambda>(tlv, inner').
        case tlv of (t, content) \<Rightarrow>
          try_bind (decode_data_tlv t content depth) (\<lambda>v.
            try_bind (decode_children depth inner') (\<lambda>vs. Inr (v # vs)))))"
  by pat_completeness auto
termination
proof (relation "measure (case_sum (\<lambda>(t, content, depth). 2 * length content + 1)
    (\<lambda>(depth, inner). 2 * (length (dec_data inner) - dec_off inner)))", goal_cases)
  case (4 depth inner r tlv inner' t content)
  then have "read_tlv inner = Inr ((t, content), inner')" by simp
  from read_tlv_content_length [OF this] read_tlv_progress [OF this] show ?case by simp linarith
next
  case (5 depth inner r tlv inner' t content v)
  then have "read_tlv inner = Inr ((t, content), inner')" by simp
  from read_tlv_progress [OF this] show ?case by auto
qed simp_all

declare decode_data_tlv.simps [simp del] decode_children.simps [simp del]

definition decode_data_at :: "nat \<Rightarrow> decoder \<Rightarrow> mms_error + (mms_value \<times> decoder)" where
  "decode_data_at depth d =
     (if depth > MAX_VALUE_DEPTH then Inl (MmsProtocol DataNestingExceeded)
      else try_bind (asn1_try (read_tlv d)) (\<lambda>((t, content), d').
        try_bind (decode_data_tlv t content depth) (\<lambda>v. Inr (v, d'))))"

definition decode_data :: "decoder \<Rightarrow> mms_error + (mms_value \<times> decoder)" where
  "decode_data d = decode_data_at 0 d"

definition decode_access_result :: "decoder \<Rightarrow> mms_error + (mms_value \<times> decoder)" where
  "decode_access_result d =
     try_bind (asn1_try (peek d)) (\<lambda>t.
       if tag_cls t = ContextSpecific \<and> tag_number t = 0 \<and> \<not> constructed t then
         try_bind (asn1_try (read_tlv d)) (\<lambda>((_, content), d').
           try_bind (asn1_try (decode_uint content)) (\<lambda>code.
             Inr (DataAccessErrorV (dae_from_code (ucast code)), d')))
       else decode_data d)"

text \<open>The children loop is the loop of the source over \<open>decode_data_at\<close>.\<close>

lemma decode_children_loop:
  "decode_children depth d =
     (if more_data d then
        try_bind (decode_data_at depth d) (\<lambda>(v, d'). try_bind (decode_children depth d') (\<lambda>vs. Inr (v # vs)))
      else Inr [])"
proof (cases "asn1_try (read_tlv d)")
  case (Inl e)
  then show ?thesis by (simp add: decode_children.simps [of depth d] decode_data_at_def)
next
  case (Inr r)
  obtain t content d' where "r = ((t, content), d')" by (metis prod.exhaust)
  with Inr show ?thesis
    by (cases "decode_data_tlv t content depth")
      (simp_all add: decode_children.simps [of depth d] decode_data_at_def)
qed

section \<open>Round trip\<close>

text \<open>
  The values that have a wire form: no empty value inside, contents as the constructors
  build them. The only value the wire changes is a NaN of width 32, which the decoder's
  detour through \<open>f64\<close> makes quiet; \<open>wire_value\<close> is what arrives.
\<close>

fun data_ok :: "mms_value \<Rightarrow> bool" where
  "data_ok NoneV = False"
| "data_ok (ArrayV cs) = list_all data_ok cs"
| "data_ok (StructureV cs) = list_all data_ok cs"
| "data_ok (BitStringV bs) = bs_wf bs"
| "data_ok (BinaryTimeV b) = (length b = 4 \<or> length b = 6)"
| "data_ok (UtcTimeV b) = (length b = 8)"
| "data_ok (DataAccessErrorV e) = dae_canonical e"
| "data_ok _ = True"

fun value_depth :: "mms_value \<Rightarrow> nat" where
  "value_depth (ArrayV cs) = (if cs = [] then 0 else Suc (Max (set (map value_depth cs))))"
| "value_depth (StructureV cs) = (if cs = [] then 0 else Suc (Max (set (map value_depth cs))))"
| "value_depth _ = 0"

fun wire_value :: "mms_value \<Rightarrow> mms_value" where
  "wire_value (ArrayV cs) = ArrayV (map wire_value cs)"
| "wire_value (StructureV cs) = StructureV (map wire_value cs)"
| "wire_value (Float32V f) = Float32V (f32_of_f64 (f64_of_f32 f))"
| "wire_value v = v"

lemma data_element_Some: "data_ok v \<Longrightarrow> \<exists>e. data_element v = Some e"
  by (cases v) simp_all

lemma map_filter_all_Some:
  "\<forall>x \<in> set xs. \<exists>y. f x = Some y \<Longrightarrow> List.map_filter f xs = map (the \<circ> f) xs"
  by (induction xs) (auto simp: List.map_filter_def)

lemma elem_tags_ok_data: "data_element v = Some e \<Longrightarrow> elem_tags_ok e"
proof (induction v arbitrary: e)
  case (ArrayV cs)
  then have "\<forall>x \<in> set (List.map_filter data_element cs). elem_tags_ok x"
    by (auto simp: List.map_filter_def)
  with ArrayV.prems show ?case by (auto simp: cons_def list_all_iff data_tags)
next
  case (StructureV cs)
  then have "\<forall>x \<in> set (List.map_filter data_element cs). elem_tags_ok x"
    by (auto simp: List.map_filter_def)
  with StructureV.prems show ?case by (auto simp: cons_def list_all_iff data_tags)
qed (auto simp: prim_def bool_elem_def int_elem_def uint_elem_def bit_string_elem_def data_tags)

lemma append_data_children:
  assumes "data_ok v" "v = ArrayV cs \<or> v = StructureV cs"
  shows "append_data v =
    append_tlv (context_constructed (if v = ArrayV cs then TAG_DATA_ARRAY else TAG_DATA_STRUCTURE))
      (concat (map append_data cs))"
proof -
  let ?es = "List.map_filter data_element cs"
  have ok: "\<forall>c \<in> set cs. \<exists>e. data_element c = Some e"
    using assms data_element_Some by (auto simp: list_all_iff)
  have "list_all elem_tags_ok ?es"
    using elem_tags_ok_data by (auto simp: list_all_iff List.map_filter_def)
  note a = append_elem_constructed [OF this]
  have "map append_elem ?es = map append_data cs"
    using ok by (auto simp: map_filter_all_Some append_data_def)
  with assms(2) a show ?thesis by (auto simp: append_data_def cons_def)
qed

lemma append_data_nonempty: "data_ok v \<Longrightarrow> append_data v \<noteq> []"
  using data_element_Some [of v]
  by (cases v) (auto simp: append_data_def prim_def bool_elem_def int_elem_def uint_elem_def
      bit_string_elem_def cons_def)

lemma decode_data_at_tlv:
  assumes "rest d = append_tlv t c @ zs" "length c < 2 ^ 32" "k \<le> MAX_VALUE_DEPTH"
    "decode_data_tlv t c k = Inr v"
  shows "decode_data_at k d = Inr (v, advance (length (append_tlv t c)) d)"
  using assms by (simp add: decode_data_at_def read_tlv_append_tlv [OF assms(1,2)])

lemma length_append_tlv_content: "length c < length (append_tlv t c)"
  by (simp add: append_tlv_def append_tag_nonempty)

lemma value_depth_child: "c \<in> set cs \<Longrightarrow> value_depth c < Suc (Max (set (map value_depth cs)))"
  by (simp add: less_Suc_eq_le)

lemma length_concat_member: "x \<in> set xs \<Longrightarrow> length (f x) \<le> length (concat (map f xs))"
  by (induction xs) auto

text \<open>The induction step for arrays and structures: the loop contract on the children.\<close>

lemma decode_children_append:
  assumes IH: "\<And>c d zs. \<lbrakk>c \<in> set cs; rest d = append_data c @ zs\<rbrakk> \<Longrightarrow>
      decode_data_at k d = Inr (wire_value c, advance (length (append_data c)) d)"
    and ok: "list_all data_ok cs"
  shows "decode_children k (decoder_new (concat (map append_data cs))) = Inr (map wire_value cs)"
proof -
  have "item_loop append_data wire_value (decode_data_at k) (\<lambda>c. c \<in> set cs) (decode_children k)"
    using IH ok append_data_nonempty decode_children_loop
    by unfold_locales (auto simp: list_all_iff)
  from item_loop.loop_new [OF this, of cs] show ?thesis by simp
qed

lemma decode_node:
  assumes v: "v = ArrayV cs \<or> v = StructureV cs"
    and IH: "\<And>c k d zs. \<lbrakk>c \<in> set cs; data_ok c; k + value_depth c \<le> MAX_VALUE_DEPTH;
        length (append_data c) < 2 ^ 32; rest d = append_data c @ zs\<rbrakk> \<Longrightarrow>
      decode_data_at k d = Inr (wire_value c, advance (length (append_data c)) d)"
    and ok: "data_ok v" and k: "k + value_depth v \<le> MAX_VALUE_DEPTH"
    and n: "length (append_data v) < 2 ^ 32" and r: "rest d = append_data v @ zs"
  shows "decode_data_at k d = Inr (wire_value v, advance (length (append_data v)) d)"
proof -
  let ?t = "context_constructed (if v = ArrayV cs then TAG_DATA_ARRAY else TAG_DATA_STRUCTURE)"
  let ?c = "concat (map append_data cs)"
  have a: "append_data v = append_tlv ?t ?c" by (rule append_data_children [OF ok v])
  have lc: "length ?c < 2 ^ 32" using n length_append_tlv_content [of ?c ?t] unfolding a by linarith
  have "decode_children (Suc k) (decoder_new ?c) = Inr (map wire_value cs)"
  proof (rule decode_children_append)
    fix c d zs
    assume c: "c \<in> set cs" and r: "rest d = append_data c @ zs"
    have "length (append_data c) < 2 ^ 32" using lc length_concat_member [OF c, of append_data] by linarith
    then show "decode_data_at (Suc k) d = Inr (wire_value c, advance (length (append_data c)) d)"
      using v ok k r c value_depth_child [OF c]
      by (intro IH [OF c]) (auto simp: list_all_iff split: if_splits)
  qed (use v ok in auto)
  then have "decode_data_tlv ?t ?c k = Inr (wire_value v)"
    using v by (auto simp: decode_data_tlv.simps data_tags)
  then show ?thesis
    using k r lc unfolding a by (intro decode_data_at_tlv) auto
qed

text \<open>The element of a value that has no children.\<close>

fun leaf_tlv :: "mms_value \<Rightarrow> tag \<times> bytes" where
  "leaf_tlv (BooleanV b) = (context_primitive TAG_DATA_BOOLEAN, [if b then 0xff else 0x00])"
| "leaf_tlv (BitStringV bs) = (context_primitive TAG_DATA_BIT_STRING, append_bit_string bs)"
| "leaf_tlv (IntegerV n) = (context_primitive TAG_DATA_INTEGER, append_int n)"
| "leaf_tlv (UnsignedV n) = (context_primitive TAG_DATA_UNSIGNED, append_uint n)"
| "leaf_tlv (Float32V f) = (context_primitive TAG_DATA_FLOAT, append_float32 f)"
| "leaf_tlv (Float64V f) = (context_primitive TAG_DATA_FLOAT, append_float64 f)"
| "leaf_tlv (OctetStringV b) = (context_primitive TAG_DATA_OCTET_STRING, b)"
| "leaf_tlv (VisibleStringV b) = (context_primitive TAG_DATA_VIS_STRING, b)"
| "leaf_tlv (GeneralizedTimeV b) = (context_primitive TAG_DATA_GEN_TIME, b)"
| "leaf_tlv (BinaryTimeV b) = (context_primitive TAG_DATA_BIN_TIME, b)"
| "leaf_tlv (MmsStringV b) = (context_primitive TAG_DATA_MMS_STRING, b)"
| "leaf_tlv (UtcTimeV b) = (context_primitive TAG_DATA_UTC_TIME, b)"
| "leaf_tlv (DataAccessErrorV e) = (context_primitive 0, append_uint (ucast (dae_code e)))"
| "leaf_tlv _ = (TAG_NULL, [])"

lemma ucast_ucast_u8: "ucast (ucast (x :: u8) :: u64) = x"
  by (rule bit_word_eqI) (simp add: octet_bits)

lemma decode_leaf:
  assumes "data_ok v" "\<not> (\<exists>cs. v = ArrayV cs \<or> v = StructureV cs)"
  shows "append_data v = (case leaf_tlv v of (t, c) \<Rightarrow> append_tlv t c)"
    "(case leaf_tlv v of (t, c) \<Rightarrow> decode_data_tlv t c k) = Inr (wire_value v)"
proof -
  show "append_data v = (case leaf_tlv v of (t, c) \<Rightarrow> append_tlv t c)"
    using assms
    by (cases v) (simp_all add: append_data_def prim_def bool_elem_def int_elem_def uint_elem_def
        bit_string_elem_def append_tlv_def)
  show "(case leaf_tlv v of (t, c) \<Rightarrow> decode_data_tlv t c k) = Inr (wire_value v)"
    using assms
    by (cases v) (simp_all add: decode_data_tlv.simps data_tags decode_append_bit_string utc_time_raw_def
        dae_from_code_code decode_bool_def ucast_ucast_u8)
qed

lemma decode_data_at_append:
  "data_ok v \<Longrightarrow> k + value_depth v \<le> MAX_VALUE_DEPTH \<Longrightarrow> length (append_data v) < 2 ^ 32 \<Longrightarrow>
     rest d = append_data v @ zs \<Longrightarrow>
     decode_data_at k d = Inr (wire_value v, advance (length (append_data v)) d)"
proof (induction v arbitrary: k d zs rule: measure_induct_rule [where f = size])
  case (less v)
  show ?case
  proof (cases "\<exists>cs. v = ArrayV cs \<or> v = StructureV cs")
    case True
    then obtain cs where cs: "v = ArrayV cs \<or> v = StructureV cs" by blast
    have "size c < size v" if "c \<in> set cs" for c
      using cs size_list_estimation' [OF that order_refl, of size] by auto
    with less.IH show ?thesis by (intro decode_node [OF cs _ less.prems]) blast
  next
    case False
    obtain t c where tc: "leaf_tlv v = (t, c)" by fastforce
    have a: "append_data v = append_tlv t c" and d: "decode_data_tlv t c k = Inr (wire_value v)"
      using decode_leaf [OF less.prems(1) False] tc by simp_all
    show ?thesis
      using less.prems(2-4) length_append_tlv_content [of c t] d unfolding a
      by (intro decode_data_at_tlv) auto
  qed
qed

text \<open>The loop over encoded values, at any depth.\<close>

interpretation data_items: item_loop append_data wire_value "decode_data_at k"
  "\<lambda>v. data_ok v \<and> k + value_depth v \<le> MAX_VALUE_DEPTH \<and> length (append_data v) < 2 ^ 32"
  "decode_children k" for k
  by unfold_locales
    (use append_data_nonempty decode_data_at_append decode_children_loop in auto)

lemma wire_value_eq: "value_eq (wire_value v) v"
proof (induction v)
  case (ArrayV cs)
  then show ?case by (simp add: list_all2_conv_all_nth)
next
  case (StructureV cs)
  then show ?case by (simp add: list_all2_conv_all_nth)
next
  case (Float32V f)
  show ?case
    using f32_of_f64_of_f32 [of f] f32_nan_of_f64_of_f32 [of f] by (cases "f32_nan f") (auto simp: f32_eq_def)
qed (simp_all add: f64_eq_def)

section \<open>What the decoder produces\<close>

lemma decode_data_progress:
  "decode_data_at k d = Inr (v, d') \<Longrightarrow>
     dec_data d' = dec_data d \<and> dec_off d < dec_off d' \<and> dec_off d' \<le> length (dec_data d)"
  by (auto simp: decode_data_at_def try_bind_Inr_iff dest!: read_tlv_progress split: if_splits)

lemma value_depth_node:
  assumes "cs = [] \<or> (\<forall>c \<in> set cs. Suc k + value_depth c \<le> n)" "k \<le> n"
  shows "k + value_depth (ArrayV cs) \<le> n" "k + value_depth (StructureV cs) \<le> n"
proof -
  have "Max (value_depth ` set cs) \<in> value_depth ` set cs" if "cs \<noteq> []"
    using that by (intro Max_in) simp_all
  with assms have "cs \<noteq> [] \<Longrightarrow> Suc (k + Max (value_depth ` set cs)) \<le> n" by fastforce
  with assms(2) show "k + value_depth (ArrayV cs) \<le> n" "k + value_depth (StructureV cs) \<le> n" by auto
qed

lemma decode_data_wf:
  "decode_data_tlv t c k = Inr v \<Longrightarrow> k \<le> MAX_VALUE_DEPTH \<Longrightarrow> data_ok v \<and> k + value_depth v \<le> MAX_VALUE_DEPTH"
  "decode_children k d = Inr vs \<Longrightarrow> vs = [] \<or> k \<le> MAX_VALUE_DEPTH \<and>
     (\<forall>v \<in> set vs. data_ok v \<and> k + value_depth v \<le> MAX_VALUE_DEPTH)"
proof (induct t c k and k d arbitrary: v and vs rule: decode_data_tlv_decode_children.induct)
  case (1 t c k)
  consider (array) cs where "tag_cls t = ContextSpecific" "tag_number t = TAG_DATA_ARRAY"
      "decode_children (Suc k) (decoder_new c) = Inr cs" "v = ArrayV cs"
    | (struct) cs where "tag_cls t = ContextSpecific" "tag_number t = TAG_DATA_STRUCTURE"
      "decode_children (Suc k) (decoder_new c) = Inr cs" "v = StructureV cs"
    | (leaf) "data_ok v" "value_depth v = 0"
    using "1.prems"(1)
    by (auto simp: decode_data_tlv.simps [of t c k] try_bind_Inr_iff utc_time_raw_def decode_bit_string_wf
        dae_canonical_from_code split: if_splits)
  then show ?case
  proof cases
    case array
    with "1.hyps"(1) [of cs] "1.prems"(2) value_depth_node(1) [of cs k MAX_VALUE_DEPTH]
    show ?thesis by (auto simp: list_all_iff)
  next
    case struct
    with "1.hyps"(2) [of cs] "1.prems"(2) value_depth_node(2) [of cs k MAX_VALUE_DEPTH]
    show ?thesis by (auto simp: list_all_iff data_tags)
  next
    case leaf
    with "1.prems"(2) show ?thesis by simp
  qed
next
  case (2 k d)
  show ?case
  proof (cases "more_data d \<and> k \<le> MAX_VALUE_DEPTH")
    case True
    with "2.prems" obtain t c d' v ws where h: "read_tlv d = Inr ((t, c), d')"
      "decode_data_tlv t c k = Inr v" "decode_children k d' = Inr ws" "vs = v # ws"
      by (auto simp: decode_children.simps [of k d] try_bind_Inr_iff)
    have "data_ok v \<and> k + value_depth v \<le> MAX_VALUE_DEPTH"
      using True h "2.hyps"(1) [of "((t, c), d')" "(t, c)" d' t c v] by auto
    moreover have "ws = [] \<or> (\<forall>v \<in> set ws. data_ok v \<and> k + value_depth v \<le> MAX_VALUE_DEPTH)"
      using True h "2.hyps"(2) [of "((t, c), d')" "(t, c)" d' t c v ws] by auto
    ultimately show ?thesis using True h(4) by auto
  qed (use "2.prems" in \<open>auto simp: decode_children.simps [of k d] split: if_splits\<close>)
qed

section \<open>Sizes\<close>

text \<open>An upper bound of the encoded size: every element adds at most eleven octets.\<close>

fun size_bound :: "mms_value \<Rightarrow> nat" where
  "size_bound (ArrayV cs) = 11 + sum_list (map size_bound cs)"
| "size_bound (StructureV cs) = 11 + sum_list (map size_bound cs)"
| "size_bound (BitStringV bs) = 12 + length (bs_bits bs)"
| "size_bound (OctetStringV b) = 11 + length b"
| "size_bound (VisibleStringV b) = 11 + length b"
| "size_bound (GeneralizedTimeV b) = 11 + length b"
| "size_bound (BinaryTimeV b) = 11 + length b"
| "size_bound (MmsStringV b) = 11 + length b"
| "size_bound (UtcTimeV b) = 11 + length b"
| "size_bound _ = 20"

lemma length_append_tlv_bound: "length (append_tlv t c) \<le> 11 + length c"
  using base128_len_range(2) [of "tag_number t"]
  by (simp add: append_tlv_def length_append_tag length_size_def)

lemma length_encode_data: "data_ok v \<Longrightarrow> length (encode_data v) \<le> size_bound v"
proof (induction v rule: measure_induct_rule [where f = size])
  case (less v)
  show ?case
  proof (cases "\<exists>cs. v = ArrayV cs \<or> v = StructureV cs")
    case True
    then obtain cs where cs: "v = ArrayV cs \<or> v = StructureV cs" by blast
    have "length (append_data c) \<le> size_bound c" if "c \<in> set cs" for c
      using cs less that size_list_estimation' [OF that order_refl, of size]
      by (auto simp: list_all_iff encode_data_def)
    then have "length (concat (map append_data cs)) \<le> sum_list (map size_bound cs)"
      by (auto simp: length_concat comp_def intro: sum_list_mono)
    then show ?thesis
      using cs append_data_children [OF less.prems cs]
        length_append_tlv_bound [of "context_constructed (if v = ArrayV cs then TAG_DATA_ARRAY else TAG_DATA_STRUCTURE)"
          "concat (map append_data cs)"]
      by (auto simp: encode_data_def)
  next
    case False
    obtain t c where tc: "leaf_tlv v = (t, c)" by fastforce
    have i: "int_size n \<le> 9" for n using int_size_range(2) [of n] by simp
    have "length c + 11 \<le> size_bound v"
      using tc False less.prems uint_size_range(2) i
      by (cases v) (auto simp: append_bit_string_def)
    then show ?thesis
      using decode_leaf(1) [OF less.prems False] tc length_append_tlv_bound [of t c] by (simp add: encode_data_def)
  qed
qed

end
