(* ===== verification/Asn1_Fields.thy ===== *)
theory Asn1_Fields
  imports Asn1_Element
begin

text \<open>
  Evaluating a decoder on encoded fields. \<open>dec_at xs ys\<close> is the cursor after the octets \<open>xs\<close>
  with \<open>ys\<close> to come; on it the read operations are rewrite rules, so that a grammar written as
  a sequence of fields is decoded by simplification.
\<close>

named_theorems field_simps \<open>reading a field that has been encoded\<close>

definition dec_at :: "bytes \<Rightarrow> bytes \<Rightarrow> decoder" where
  "dec_at xs ys = \<lparr>dec_data = xs @ ys, dec_off = length xs\<rparr>"

lemma decoder_new_at [field_simps]: "decoder_new data = dec_at [] data"
  by (simp add: decoder_new_def dec_at_def)

lemma rest_dec_at [simp]: "rest (dec_at xs ys) = ys"
  by (simp add: rest_def dec_at_def)

lemma more_dec_at [field_simps]: "more_data (dec_at xs ys) \<longleftrightarrow> ys \<noteq> []"
  by (simp add: more_data_rest)

lemma advance_dec_at: "advance (length ys) (dec_at xs (ys @ zs)) = dec_at (xs @ ys) zs"
  by (simp add: advance_def dec_at_def)

lemma advance_dec_at_end: "advance (length ys) (dec_at xs ys) = dec_at (xs @ ys) []"
  by (simp add: advance_def dec_at_def)

lemma append_tlv_nonempty [simp]: "append_tlv t c \<noteq> []"
  by (simp add: append_tlv_def append_tag_nonempty)

text \<open>Contents that fit a length field, kept as a predicate so that the rules apply unchanged.\<close>

definition fits :: "bytes \<Rightarrow> bool" where
  "fits c \<longleftrightarrow> length c < 2 ^ 32"

lemma read_tlv_field [field_simps]:
  "fits c \<Longrightarrow> read_tlv (dec_at xs (append_tlv t c @ zs)) = Inr ((t, c), dec_at (xs @ append_tlv t c) zs)"
  using read_tlv_append_tlv [of "dec_at xs (append_tlv t c @ zs)" t c zs]
  by (simp add: advance_dec_at fits_def)

lemma read_tlv_last [field_simps]:
  "fits c \<Longrightarrow> read_tlv (dec_at xs (append_tlv t c)) = Inr ((t, c), dec_at (xs @ append_tlv t c) [])"
  using read_tlv_field [of c xs t "[]"] by simp

lemma expect_field [field_simps]:
  "fits c \<Longrightarrow> expect_tag t (dec_at xs (append_tlv t c @ zs)) = Inr (c, dec_at (xs @ append_tlv t c) zs)"
  by (simp add: expect_tag_def read_tlv_field)

lemma expect_last [field_simps]:
  "fits c \<Longrightarrow> expect_tag t (dec_at xs (append_tlv t c)) = Inr (c, dec_at (xs @ append_tlv t c) [])"
  using expect_field [of c t xs "[]"] by simp

lemma peek_field [field_simps]:
  "peek (dec_at xs (append_tlv t c @ zs)) = Inr t" "peek (dec_at xs (append_tlv t c)) = Inr t"
  using peek_append_tlv [of "dec_at xs (append_tlv t c @ zs)" t c zs]
    peek_append_tlv [of "dec_at xs (append_tlv t c)" t c "[]"] by simp_all

lemma optional_field [field_simps]:
  "fits c \<Longrightarrow> optional_tag t (dec_at xs (append_tlv t c @ zs)) = Inr (Some c, dec_at (xs @ append_tlv t c) zs)"
  "t \<noteq> u \<Longrightarrow> optional_tag u (dec_at xs (append_tlv t c @ zs)) = Inr (None, dec_at xs (append_tlv t c @ zs))"
  by (simp_all add: optional_tag_def more_dec_at peek_field read_tlv_field)

lemma optional_last [field_simps]:
  "fits c \<Longrightarrow> optional_tag t (dec_at xs (append_tlv t c)) = Inr (Some c, dec_at (xs @ append_tlv t c) [])"
  "t \<noteq> u \<Longrightarrow> optional_tag u (dec_at xs (append_tlv t c)) = Inr (None, dec_at xs (append_tlv t c))"
  "optional_tag u (dec_at xs []) = Inr (None, dec_at xs [])"
  using optional_field(1) [of c t xs "[]"] optional_field(2) [of t u xs c "[]"]
  by (simp_all add: optional_tag_def more_dec_at)

lemma expect_mismatch [field_simps]:
  "t \<noteq> u \<Longrightarrow> fits c \<Longrightarrow>
     expect_tag u (dec_at xs (append_tlv t c @ zs)) = Inl (Unexpected u t (length xs))"
  by (simp add: expect_tag_def read_tlv_field) (simp add: dec_at_def)

section \<open>Optional fields\<close>

lemma tag_eq_simps [simp]:
  "context_primitive m = context_primitive n \<longleftrightarrow> m = n"
  "context_constructed m = context_constructed n \<longleftrightarrow> m = n"
  "context_primitive m \<noteq> context_constructed n" "context_constructed m \<noteq> context_primitive n"
  by simp_all

definition opt_tlv :: "tag \<Rightarrow> bytes option \<Rightarrow> bytes" where
  "opt_tlv t c = (case c of None \<Rightarrow> [] | Some b \<Rightarrow> append_tlv t b)"

lemma opt_tlv_simps [simp]: "opt_tlv t None = []" "opt_tlv t (Some c) = append_tlv t c"
  by (simp_all add: opt_tlv_def)

text \<open>The octets \<open>zs\<close> do not start with the tag \<open>t\<close>: an optional field of that tag is absent.\<close>

definition no_lead :: "tag \<Rightarrow> bytes \<Rightarrow> bool" where
  "no_lead t zs \<longleftrightarrow> (\<forall>xs. optional_tag t (dec_at xs zs) = Inr (None, dec_at xs zs))"

lemma no_lead_simps [simp]:
  "no_lead t []"
  "t \<noteq> u \<Longrightarrow> no_lead t (append_tlv u c)"
  "t \<noteq> u \<Longrightarrow> no_lead t (append_tlv u c @ zs)"
  by (auto simp: no_lead_def optional_field optional_last)

lemma no_lead_opt [simp]:
  "t \<noteq> u \<Longrightarrow> no_lead t zs \<Longrightarrow> no_lead t (opt_tlv u c @ zs)"
  "t \<noteq> u \<Longrightarrow> no_lead t (opt_tlv u c)"
  by (cases c; simp)+

definition opt_fits :: "bytes option \<Rightarrow> bool" where
  "opt_fits c = (case c of None \<Rightarrow> True | Some b \<Rightarrow> fits b)"

lemma opt_fits_simps [simp]: "opt_fits None" "opt_fits (Some b) = fits b"
  by (simp_all add: opt_fits_def)

lemma optional_opt [field_simps]:
  "opt_fits c \<Longrightarrow> no_lead t zs \<Longrightarrow>
     optional_tag t (dec_at xs (opt_tlv t c @ zs)) = Inr (c, dec_at (xs @ opt_tlv t c) zs)"
  by (cases c) (auto simp: no_lead_def optional_field)

lemma optional_opt_last [field_simps]:
  "opt_fits c \<Longrightarrow> optional_tag t (dec_at xs (opt_tlv t c)) = Inr (c, dec_at (xs @ opt_tlv t c) [])"
  by (cases c) (auto simp: optional_last)

section \<open>Contents\<close>

lemma fits_contents [simp]:
  "fits []" "fits (append_uint u)" "fits (append_int i)" "fits [b]"
  using uint_size_range(2) [of u] int_size_range(2) [of i] by (simp_all add: fits_def)

lemma fits_to_be_bytes [simp]: "fits (to_be_bytes (w :: u16))" "fits (to_be_bytes (v :: u32))"
  by (simp_all add: fits_def)

lemma fits_shorter: "fits ys \<Longrightarrow> length xs \<le> length ys \<Longrightarrow> fits xs"
  by (simp add: fits_def)

lemma fits_member: "fits (concat (map f xs)) \<Longrightarrow> x \<in> set xs \<Longrightarrow> fits (f x)"
  by (erule fits_shorter) (induction xs, auto)

lemma fits_tlv: "fits (append_tlv t c) \<Longrightarrow> fits c"
  by (erule fits_shorter) (simp add: append_tlv_def)

lemma fits_append: "fits (xs @ ys) \<Longrightarrow> fits xs \<and> fits ys"
  by (simp add: fits_def)

section \<open>Elements as fields\<close>

lemma append_elem_fields [simp]:
  "append_elem (prim t v) = append_tlv t v"
  "append_elem (uint_elem t u) = append_tlv t (append_uint u)"
  "append_elem (int_elem t i) = append_tlv t (append_int i)"
  "append_elem (bool_elem t b) = append_tlv t [if b then 0xff else 0x00]"
  "append_elem (bit_string_elem t bs) = append_tlv t (append_bit_string bs)"
  "append_elem (raw_content t c) = append_tlv (t\<lparr>constructed := True\<rparr>) c"
  "append_elem (raw_tlv v) = v"
  by (simp_all add: prim_def uint_elem_def int_elem_def bool_elem_def bit_string_elem_def
      raw_content_def raw_tlv_def append_tlv_def)

lemma elem_tags_ok_fields [simp]:
  "elem_tags_ok (prim t v) \<longleftrightarrow> unat (tag_number t) < 2 ^ 28"
  "elem_tags_ok (uint_elem t u) \<longleftrightarrow> unat (tag_number t) < 2 ^ 28"
  "elem_tags_ok (int_elem t i) \<longleftrightarrow> unat (tag_number t) < 2 ^ 28"
  "elem_tags_ok (bool_elem t b) \<longleftrightarrow> unat (tag_number t) < 2 ^ 28"
  "elem_tags_ok (bit_string_elem t bs) \<longleftrightarrow> unat (tag_number t) < 2 ^ 28"
  "elem_tags_ok (raw_content t c) \<longleftrightarrow> unat (tag_number t) < 2 ^ 28"
  "elem_tags_ok (raw_tlv v)"
  "elem_tags_ok (cons t es) \<longleftrightarrow> unat (tag_number t) < 2 ^ 28 \<and> list_all elem_tags_ok es"
  by (simp_all add: prim_def uint_elem_def int_elem_def bool_elem_def bit_string_elem_def
      raw_content_def raw_tlv_def cons_def)

lemma append_elem_cons [simp]:
  "list_all elem_tags_ok es \<Longrightarrow>
     append_elem (cons t es) = append_tlv (t\<lparr>constructed := True\<rparr>) (concat (map append_elem es))"
  unfolding cons_def by (rule append_elem_constructed)

end
