(* ===== verification/Rust_String.thy ===== *)
theory Rust_String
  imports Prelude
begin

text \<open>
  The strings of the Rust sources. A \<open>String\<close> is its UTF-8 octets; \<open>String::from_utf8_lossy\<close>
  of the standard library replaces every maximal ill-formed part by \<open>U+FFFD\<close>. The lemmas show
  that it returns a valid string, and a valid string unchanged.
\<close>

type_synonym rust_string = bytes

section \<open>UTF-8\<close>

definition cont_octet :: "bytes \<Rightarrow> nat \<Rightarrow> bool" where
  "cont_octet bs i \<longleftrightarrow> i < length bs \<and> 0x80 \<le> bs ! i \<and> bs ! i \<le> 0xbf"

definition octet_in :: "bytes \<Rightarrow> nat \<Rightarrow> u8 \<Rightarrow> u8 \<Rightarrow> bool" where
  "octet_in bs i lo hi \<longleftrightarrow> i < length bs \<and> lo \<le> bs ! i \<and> bs ! i \<le> hi"

text \<open>The second octet after a given lead octet of a sequence of three or four.\<close>

definition second_octet :: "bytes \<Rightarrow> bool" where
  "second_octet bs =
     (let b = bs ! 0 in
      if b = 0xe0 then octet_in bs 1 0xa0 0xbf
      else if b = 0xed then octet_in bs 1 0x80 0x9f
      else if b = 0xf0 then octet_in bs 1 0x90 0xbf
      else if b = 0xf4 then octet_in bs 1 0x80 0x8f
      else cont_octet bs 1)"

text \<open>
  One step of the validation: whether the octets start with a character, and how many octets
  the character or the ill-formed part has.
\<close>

definition utf8_step :: "bytes \<Rightarrow> bool \<times> nat" where
  "utf8_step bs =
     (let b = bs ! 0 in
      if b < 0x80 then (True, 1)
      else if 0xc2 \<le> b \<and> b \<le> 0xdf then (if cont_octet bs 1 then (True, 2) else (False, 1))
      else if 0xe0 \<le> b \<and> b \<le> 0xef then
        (if \<not> second_octet bs then (False, 1)
         else if cont_octet bs 2 then (True, 3) else (False, 2))
      else if 0xf0 \<le> b \<and> b \<le> 0xf4 then
        (if \<not> second_octet bs then (False, 1)
         else if \<not> cont_octet bs 2 then (False, 2)
         else if cont_octet bs 3 then (True, 4) else (False, 3))
      else (False, 1))"

lemma utf8_step_pos: "0 < snd (utf8_step bs)"
  by (simp add: utf8_step_def Let_def)

function utf8_lossy :: "bytes \<Rightarrow> rust_string" where
  "utf8_lossy bs =
     (if bs = [] then []
      else let n = snd (utf8_step bs)
           in (if fst (utf8_step bs) then take n bs else [0xef, 0xbf, 0xbd]) @ utf8_lossy (drop n bs))"
  by pat_completeness auto
termination
  by (relation "measure length") (auto simp: utf8_step_pos)

function utf8_valid :: "bytes \<Rightarrow> bool" where
  "utf8_valid bs =
     (if bs = [] then True
      else if fst (utf8_step bs) then utf8_valid (drop (snd (utf8_step bs)) bs)
      else False)"
  by pat_completeness auto
termination
  by (relation "measure length") (auto simp: utf8_step_pos)

declare utf8_lossy.simps [simp del] utf8_valid.simps [simp del]

lemma utf8_Nil [simp]: "utf8_lossy [] = []" "utf8_valid []"
  by (simp_all add: utf8_lossy.simps [of "[]"] utf8_valid.simps [of "[]"])

lemma utf8_lossy_valid: "utf8_valid bs \<Longrightarrow> utf8_lossy bs = bs"
proof (induction bs rule: utf8_lossy.induct)
  case (1 bs)
  then show ?case
    by (simp add: utf8_lossy.simps [of bs] utf8_valid.simps [of bs] Let_def split: if_splits)
qed

text \<open>A character is recognised by its own octets, whatever follows.\<close>

lemma octets_prefix:
  assumes "i < n" "n \<le> length bs"
  shows "(take n bs @ ys) ! i = bs ! i" "cont_octet (take n bs @ ys) i = cont_octet bs i"
    "octet_in (take n bs @ ys) i lo hi = octet_in bs i lo hi"
  using assms by (auto simp: cont_octet_def octet_in_def nth_append)

lemma utf8_step_length: "bs \<noteq> [] \<Longrightarrow> fst (utf8_step bs) \<Longrightarrow> snd (utf8_step bs) \<le> length bs"
  by (auto simp: utf8_step_def Let_def cont_octet_def Suc_le_eq split: if_splits)

lemma utf8_step_char:
  assumes "bs \<noteq> []" "fst (utf8_step bs)"
  shows "utf8_step (take (snd (utf8_step bs)) bs @ ys) = (True, snd (utf8_step bs))"
proof -
  define n where "n = snd (utf8_step bs)"
  have n: "n \<le> length bs" "0 < n"
    using utf8_step_length [OF assms] utf8_step_pos [of bs] by (simp_all add: n_def)
  have s: "utf8_step bs = (True, n)" using assms by (simp add: n_def prod_eq_iff)
  have "second_octet (take n bs @ ys) = second_octet bs" if "1 < n"
    using that n by (simp add: second_octet_def octets_prefix)
  then have "utf8_step (take n bs @ ys) = utf8_step bs"
    using s n by (simp add: utf8_step_def octets_prefix Let_def split: if_splits)
  with s show ?thesis by (simp add: n_def)
qed

lemma utf8_valid_char:
  assumes "bs \<noteq> []" "fst (utf8_step bs)"
  shows "utf8_valid (take (snd (utf8_step bs)) bs @ ys) = utf8_valid ys"
  using utf8_step_char [OF assms, of ys] utf8_step_length [OF assms] utf8_step_pos [of bs]
  by (simp add: utf8_valid.simps [of "take (snd (utf8_step bs)) bs @ ys"] assms)

lemma utf8_valid_lossy: "utf8_valid (utf8_lossy bs)"
proof (induction bs rule: utf8_lossy.induct)
  case (1 bs)
  have r: "utf8_step (0xef # 0xbf # 0xbd # ys) = (True, 3)" for ys
    by (simp add: utf8_step_def second_octet_def cont_octet_def)
  show ?case
  proof (cases "bs = [] \<or> fst (utf8_step bs)")
    case True
    with 1 show ?thesis
      by (auto simp: utf8_lossy.simps [of bs] Let_def utf8_valid_char)
  next
    case False
    with 1 r show ?thesis
      by (simp add: utf8_lossy.simps [of bs] Let_def utf8_valid.simps [of "0xef # 0xbf # 0xbd # ys" for ys])
  qed
qed

lemma utf8_valid_ascii: "\<forall>b \<in> set bs. b < 0x80 \<Longrightarrow> utf8_valid bs"
  by (induction bs) (simp_all add: utf8_valid.simps [of "b # bs" for b bs] utf8_step_def)

lemma utf8_lossy_ascii: "\<forall>b \<in> set bs. b < 0x80 \<Longrightarrow> utf8_lossy bs = bs"
  by (rule utf8_lossy_valid, rule utf8_valid_ascii)

end
