(* ===== verification/Mms_TypeSpec.thy ===== *)
theory Mms_TypeSpec
  imports Mms_Codec Asn1_Fields Rust_String
begin

text \<open>
  Type specifications of MMS variables: \<open>src/mms/typespec.rs\<close>. The size of a specification is
  an \<open>i32\<close> kept as its 32-bit word. The lemmas show that an encoded specification is decoded to
  itself, and that what a decoded one materialises is bounded.
\<close>

section \<open>Data\<close>

datatype type_spec = TypeSpec
    (ts_kind: "value_type option") (ts_size: "32 word") (ts_elements: nat)
    (ts_element: "type_spec option") (ts_components: "component list")
  and component = Component (cp_name: rust_string) (cp_spec: type_spec)

definition ts_scalar :: "value_type \<Rightarrow> type_spec" where
  "ts_scalar kind = TypeSpec (Some kind) 0 0 None []"

definition ts_sized :: "value_type \<Rightarrow> 32 word \<Rightarrow> type_spec" where
  "ts_sized kind sz = TypeSpec (Some kind) sz 0 None []"

definition ts_array :: "nat \<Rightarrow> type_spec \<Rightarrow> type_spec" where
  "ts_array elements element = TypeSpec (Some TyArray) 0 elements (Some element) []"

definition ts_structure :: "component list \<Rightarrow> type_spec" where
  "ts_structure components = TypeSpec (Some TyStructure) 0 0 None components"

section \<open>Encoding and materialising\<close>

text \<open>An optional element as the children of a constructed one.\<close>

definition opt_child :: "element option \<Rightarrow> element list" where
  "opt_child e = (case e of None \<Rightarrow> [] | Some x \<Rightarrow> [x])"

fun ts_ber :: "type_spec \<Rightarrow> element option" and component_ber :: "component \<Rightarrow> element" where
  "ts_ber (TypeSpec kind sz n e cs) =
     (case kind of
        None \<Rightarrow> None
      | Some TyArray \<Rightarrow>
          Some (cons (context_constructed TAG_DATA_ARRAY)
            [uint_elem (context_primitive 1) (of_nat n),
             cons (context_constructed 2) (case e of None \<Rightarrow> [] | Some x \<Rightarrow> opt_child (ts_ber x))])
      | Some TyStructure \<Rightarrow>
          Some (cons (context_constructed TAG_DATA_STRUCTURE)
            [cons (context_constructed 1) (map component_ber cs)])
      | Some TyBoolean \<Rightarrow> Some (prim (context_primitive TAG_DATA_BOOLEAN) [])
      | Some TyBitString \<Rightarrow> Some (int_elem (context_primitive TAG_DATA_BIT_STRING) (scast sz))
      | Some TyInteger \<Rightarrow> Some (uint_elem (context_primitive TAG_DATA_INTEGER) (scast sz))
      | Some TyUnsigned \<Rightarrow> Some (uint_elem (context_primitive TAG_DATA_UNSIGNED) (scast sz))
      | Some TyFloat32 \<Rightarrow>
          Some (cons (context_constructed TAG_DATA_FLOAT) [int_elem TAG_INTEGER 32, int_elem TAG_INTEGER 8])
      | Some TyFloat64 \<Rightarrow>
          Some (cons (context_constructed TAG_DATA_FLOAT) [int_elem TAG_INTEGER 64, int_elem TAG_INTEGER 11])
      | Some TyOctetString \<Rightarrow> Some (int_elem (context_primitive TAG_DATA_OCTET_STRING) (scast sz))
      | Some TyVisibleString \<Rightarrow> Some (int_elem (context_primitive TAG_DATA_VIS_STRING) (scast sz))
      | Some TyGeneralizedTime \<Rightarrow> Some (prim (context_primitive TAG_DATA_GEN_TIME) [])
      | Some TyBinaryTime \<Rightarrow> Some (bool_elem (context_primitive TAG_DATA_BIN_TIME) True)
      | Some TyMmsString \<Rightarrow> Some (int_elem (context_primitive TAG_DATA_MMS_STRING) (scast sz))
      | Some TyUtcTime \<Rightarrow> Some (prim (context_primitive TAG_DATA_UTC_TIME) [])
      | Some _ \<Rightarrow> None)"
| "component_ber (Component name spec) =
     cons TAG_SEQUENCE [prim (context_primitive 0) name, cons (context_constructed 1) (opt_child (ts_ber spec))]"

fun default_value :: "type_spec \<Rightarrow> mms_value" and component_default :: "component \<Rightarrow> mms_value" where
  "default_value (TypeSpec kind sz n e cs) =
     (case kind of
        None \<Rightarrow> NoneV
      | Some TyArray \<Rightarrow> ArrayV (map (\<lambda>_. case e of None \<Rightarrow> NoneV | Some x \<Rightarrow> default_value x) [0..<n])
      | Some TyStructure \<Rightarrow> StructureV (map component_default cs)
      | Some TyBoolean \<Rightarrow> BooleanV False
      | Some TyBitString \<Rightarrow> BitStringV (bit_string_new (nat \<bar>sint sz\<bar>))
      | Some TyInteger \<Rightarrow> IntegerV 0
      | Some TyUnsigned \<Rightarrow> UnsignedV 0
      | Some TyFloat32 \<Rightarrow> Float32V 0
      | Some TyFloat64 \<Rightarrow> Float64V 0
      | Some TyOctetString \<Rightarrow> OctetStringV []
      | Some TyVisibleString \<Rightarrow> VisibleStringV []
      | Some TyMmsString \<Rightarrow> MmsStringV []
      | Some TyGeneralizedTime \<Rightarrow> GeneralizedTimeV []
      | Some TyBinaryTime \<Rightarrow> BinaryTimeV (replicate 6 0)
      | Some TyUtcTime \<Rightarrow> UtcTimeV (replicate 8 0)
      | Some _ \<Rightarrow> NoneV)"
| "component_default (Component name spec) = default_value spec"

section \<open>Bounds\<close>

definition MAX_ARRAY_ELEMENTS :: nat where "MAX_ARRAY_ELEMENTS = 65536"
definition MAX_BIT_STRING_BITS :: int where "MAX_BIT_STRING_BITS = 65536"
definition MAX_DEFAULT_VALUES :: nat where "MAX_DEFAULT_VALUES = 1048576"
definition VALUE_CEILING :: nat where "VALUE_CEILING = MAX_DEFAULT_VALUES + 1"

fun value_count :: "type_spec \<Rightarrow> nat" and count_components :: "nat \<Rightarrow> component list \<Rightarrow> nat" where
  "value_count (TypeSpec kind sz n e cs) =
     (case kind of
        Some TyArray \<Rightarrow>
          let per = (case e of None \<Rightarrow> 0 | Some x \<Rightarrow> value_count x) in
          if per = 0 \<or> n = 0 then 1
          else if n \<ge> VALUE_CEILING div per then VALUE_CEILING
          else 1 + n * per
      | Some TyStructure \<Rightarrow> count_components 1 cs
      | _ \<Rightarrow> 1)"
| "count_components acc [] = acc"
| "count_components acc (Component name spec # cs) =
     (let acc' = acc + value_count spec
      in if acc' \<ge> VALUE_CEILING then VALUE_CEILING else count_components acc' cs)"

section \<open>Decoding\<close>

lemma expect_tag_progress:
  assumes "expect_tag t d = Inr (c, d')"
  shows "dec_data d' = dec_data d \<and> dec_off d < dec_off d' \<and> dec_off d' \<le> length (dec_data d) \<and>
    length c + 2 \<le> dec_off d' - dec_off d"
proof -
  have "read_tlv d = Inr ((t, c), d')"
    using assms by (auto simp: expect_tag_def try_bind_Inr_iff split: if_splits)
  from read_tlv_progress [OF this] read_tlv_content_length [OF this] show ?thesis by simp
qed

lemma optional_tag_progress:
  assumes "optional_tag t d = Inr (c, d')"
  shows "dec_data d' = dec_data d \<and> dec_off d \<le> dec_off d' \<and> (dec_off d \<le> length (dec_data d) \<longrightarrow> dec_off d' \<le> length (dec_data d))"
  using assms by (auto simp: optional_tag_def try_bind_Inr_iff dest!: read_tlv_progress split: if_splits)

text \<open>
  The two fields of an array or structure that come before its element type or its components.
\<close>

definition array_header :: "bytes \<Rightarrow> mms_error + (nat \<times> bytes)" where
  "array_header content =
     try_bind (asn1_try (optional_tag (context_primitive 0) (decoder_new content))) (\<lambda>(_, inner).
       try_bind (asn1_try (expect_tag (context_primitive 1) inner)) (\<lambda>(nc, inner').
         try_bind (asn1_try (decode_uint nc)) (\<lambda>declared.
           if declared > of_nat MAX_ARRAY_ELEMENTS then Inl (MmsProtocol (ArrayOfElements declared))
           else try_bind (asn1_try (expect_tag (context_constructed 2) inner')) (\<lambda>(ec, _).
             Inr (unat declared, ec)))))"

definition structure_header :: "bytes \<Rightarrow> mms_error + bytes" where
  "structure_header content =
     try_bind (asn1_try (optional_tag (context_primitive 0) (decoder_new content))) (\<lambda>(_, inner).
       try_bind (asn1_try (expect_tag (context_constructed 1) inner)) (\<lambda>(cc, _). Inr cc))"

definition component_header :: "bytes \<Rightarrow> mms_error + (rust_string \<times> bytes)" where
  "component_header seq =
     try_bind (asn1_try (optional_tag (context_primitive 0) (decoder_new seq))) (\<lambda>(name, cd).
       try_bind (asn1_try (expect_tag (context_constructed 1) cd)) (\<lambda>(sc, _).
         Inr (case name of Some n \<Rightarrow> utf8_lossy n | None \<Rightarrow> [], sc)))"

lemma header_lengths:
  "array_header c = Inr (n, ec) \<Longrightarrow> length ec < length c"
  "structure_header c = Inr cc \<Longrightarrow> length cc < length c"
  "component_header c = Inr (name, sc) \<Longrightarrow> length sc < length c"
  by (auto simp: array_header_def structure_header_def component_header_def try_bind_Inr_iff
      dest!: expect_tag_progress optional_tag_progress split: if_splits)

text \<open>Every type that has no parts.\<close>

definition decode_simple_type :: "u32 \<Rightarrow> bytes \<Rightarrow> mms_error + type_spec" where
  "decode_simple_type n content =
     (if n = TAG_DATA_BOOLEAN then Inr (ts_scalar TyBoolean)
      else if n = TAG_DATA_BIT_STRING then
        try_bind (asn1_try (decode_int content)) (\<lambda>bits.
          if sint bits < - MAX_BIT_STRING_BITS \<or> sint bits > MAX_BIT_STRING_BITS
          then Inl (MmsProtocol (BitStringOfBits bits))
          else Inr (ts_sized TyBitString (ucast bits)))
      else if n = TAG_DATA_INTEGER then
        try_bind (asn1_try (decode_uint content)) (\<lambda>w. Inr (ts_sized TyInteger (ucast w)))
      else if n = TAG_DATA_UNSIGNED then
        try_bind (asn1_try (decode_uint content)) (\<lambda>w. Inr (ts_sized TyUnsigned (ucast w)))
      else if n = TAG_DATA_FLOAT then
        try_bind (asn1_try (expect_tag TAG_INTEGER (decoder_new content))) (\<lambda>(fw, _).
          try_bind (asn1_try (decode_int fw)) (\<lambda>width.
            Inr (ts_scalar (if sint width > 32 then TyFloat64 else TyFloat32))))
      else if n = TAG_DATA_OCTET_STRING then
        try_bind (asn1_try (decode_int content)) (\<lambda>w. Inr (ts_sized TyOctetString (ucast w)))
      else if n = TAG_DATA_VIS_STRING then
        try_bind (asn1_try (decode_int content)) (\<lambda>w. Inr (ts_sized TyVisibleString (ucast w)))
      else if n = TAG_DATA_GEN_TIME then Inr (ts_scalar TyGeneralizedTime)
      else if n = TAG_DATA_BIN_TIME then Inr (ts_scalar TyBinaryTime)
      else if n = TAG_DATA_MMS_STRING then
        try_bind (asn1_try (decode_int content)) (\<lambda>w. Inr (ts_sized TyMmsString (ucast w)))
      else if n = TAG_DATA_UTC_TIME then Inr (ts_scalar TyUtcTime)
      else Inl (MmsProtocol (UnsupportedTypeTag n)))"

function
  decode_type_spec_at :: "decoder \<Rightarrow> nat \<Rightarrow> mms_error + (type_spec \<times> decoder)" and
  decode_components :: "nat \<Rightarrow> decoder \<Rightarrow> mms_error + component list"
where
  "decode_type_spec_at d depth =
     (if depth > MAX_VALUE_DEPTH then Inl (MmsProtocol TypeNestingExceeded)
      else try_bind (asn1_try (read_tlv d)) (\<lambda>(tlv, d').
        case tlv of (t, content) \<Rightarrow>
          try_bind
            (if tag_cls t \<noteq> ContextSpecific then Inl (MmsProtocol (TypeSpecWithTag t))
             else if tag_number t = TAG_DATA_ARRAY then
               try_bind (array_header content) (\<lambda>(n, ec).
                 try_bind (decode_type_spec_at (decoder_new ec) (depth + 1)) (\<lambda>r.
                   Inr (ts_array n (fst r))))
             else if tag_number t = TAG_DATA_STRUCTURE then
               try_bind (structure_header content) (\<lambda>cc.
                 try_bind (decode_components (depth + 1) (decoder_new cc)) (\<lambda>cs.
                   Inr (ts_structure cs)))
             else decode_simple_type (tag_number t) content)
            (\<lambda>ts. Inr (ts, d'))))"
| "decode_components depth comps =
     (if \<not> more_data comps then Inr []
      else try_bind (asn1_try (expect_tag TAG_SEQUENCE comps)) (\<lambda>(sq, comps').
        try_bind (component_header sq) (\<lambda>(name, sc).
          try_bind (decode_type_spec_at (decoder_new sc) depth) (\<lambda>r.
            try_bind (decode_components depth comps') (\<lambda>cs.
              Inr (Component name (fst r) # cs))))))"
  by pat_completeness auto
termination
proof (relation "measure (case_sum (\<lambda>(d, depth). length (dec_data d) - dec_off d)
    (\<lambda>(depth, d). length (dec_data d) - dec_off d))", goal_cases)
  case (2 d depth x tlv d' t content y n ec)
  then have "read_tlv d = Inr ((t, content), d')" "array_header content = Inr (n, ec)" by simp_all
  from read_tlv_content_length [OF this(1)] read_tlv_progress [OF this(1)] header_lengths(1) [OF this(2)]
  show ?case by auto
next
  case (3 d depth x tlv d' t content cc)
  then have "read_tlv d = Inr ((t, content), d')" "structure_header content = Inr cc" by simp_all
  from read_tlv_content_length [OF this(1)] read_tlv_progress [OF this(1)] header_lengths(2) [OF this(2)]
  show ?case by auto
next
  case (4 depth comps x sq comps' y name sc)
  then have "expect_tag TAG_SEQUENCE comps = Inr (sq, comps')" "component_header sq = Inr (name, sc)" by simp_all
  from expect_tag_progress [OF this(1)] header_lengths(3) [OF this(2)] show ?case by auto
next
  case (5 depth comps x sq comps' y name sc r)
  then have "expect_tag TAG_SEQUENCE comps = Inr (sq, comps')" by simp
  from expect_tag_progress [OF this] show ?case by auto
qed simp_all

declare decode_type_spec_at.simps [simp del] decode_components.simps [simp del]

definition decode_type_spec :: "decoder \<Rightarrow> mms_error + (type_spec \<times> decoder)" where
  "decode_type_spec d =
     try_bind (decode_type_spec_at d 0) (\<lambda>(ts, d').
       if value_count ts > MAX_DEFAULT_VALUES then Inl (MmsProtocol (MaterialisesValues (value_count ts)))
       else Inr (ts, d'))"

section \<open>Round trip\<close>

text \<open>The specifications that the constructors build with sizes the decoder accepts.\<close>

fun ts_ok :: "type_spec \<Rightarrow> bool" and component_ok :: "component \<Rightarrow> bool" where
  "ts_ok (TypeSpec kind sz n e cs) =
     (case kind of
        Some TyArray \<Rightarrow> sz = 0 \<and> n \<le> MAX_ARRAY_ELEMENTS \<and> cs = [] \<and> (case e of None \<Rightarrow> False | Some x \<Rightarrow> ts_ok x)
      | Some TyStructure \<Rightarrow> sz = 0 \<and> n = 0 \<and> e = None \<and> list_all component_ok cs
      | Some k \<Rightarrow>
          n = 0 \<and> e = None \<and> cs = [] \<and>
          (if k = TyBitString then \<bar>sint sz\<bar> \<le> MAX_BIT_STRING_BITS
           else if k \<in> {TyInteger, TyUnsigned, TyOctetString, TyVisibleString, TyMmsString} then True
           else k \<notin> {TyNone, TyDataAccessError} \<and> sz = 0)
      | None \<Rightarrow> False)"
| "component_ok (Component name spec) \<longleftrightarrow> utf8_valid name \<and> ts_ok spec"

fun ts_depth :: "type_spec \<Rightarrow> nat" and component_depth :: "component \<Rightarrow> nat" where
  "ts_depth (TypeSpec kind sz n e cs) =
     (case kind of
        Some TyArray \<Rightarrow> (case e of None \<Rightarrow> 0 | Some x \<Rightarrow> Suc (ts_depth x))
      | Some TyStructure \<Rightarrow> (if cs = [] then 0 else Suc (Max (set (map component_depth cs))))
      | _ \<Rightarrow> 0)"
| "component_depth (Component name spec) = ts_depth spec"

definition ts_bytes :: "type_spec \<Rightarrow> bytes" where
  "ts_bytes ts = concat (map append_elem (opt_child (ts_ber ts)))"

definition component_bytes :: "component \<Rightarrow> bytes" where
  "component_bytes c = append_elem (component_ber c)"

lemma ts_ber_Some: "ts_ok ts \<Longrightarrow> \<exists>e. ts_ber ts = Some e"
  by (cases ts) (auto split: option.splits value_type.splits)

lemma ber_tags_ok:
  "list_all elem_tags_ok (opt_child (ts_ber ts))"
  "elem_tags_ok (component_ber c)"
proof (induction ts and c)
  case (TypeSpec kind sz n e cs)
  then show ?case
    by (auto simp: opt_child_def cons_def prim_def uint_elem_def int_elem_def bool_elem_def data_tags list_all_iff
        TAG_INTEGER_def split: option.splits value_type.splits)
next
  case (Component name spec)
  then show ?case by (simp add: cons_def prim_def TAG_SEQUENCE_def)
qed

lemma append_cons:
  assumes "constructed t" "list_all elem_tags_ok es"
  shows "append_elem (cons t es) = append_tlv t (concat (map append_elem es))"
proof -
  have "t\<lparr>constructed := True\<rparr> = t" using assms(1) by simp
  with append_elem_constructed [OF assms(2), of t] show ?thesis by (simp only: cons_def)
qed

lemma cons_tags_ok:
  "elem_tags_ok (cons t es) = (unat (tag_number t) < 2 ^ 28 \<and> list_all elem_tags_ok es)"
  "elem_tags_ok (prim t c) = (unat (tag_number t) < 2 ^ 28)" "elem_tags_ok (uint_elem t n) = (unat (tag_number t) < 2 ^ 28)"
  by (simp_all add: cons_def prim_def uint_elem_def)

lemma append_leaf:
  "append_elem (prim t c) = append_tlv t c" "append_elem (uint_elem t n) = append_tlv t (append_uint n)"
  "append_elem (int_elem t i) = append_tlv t (append_int i)"
  by (simp_all add: prim_def uint_elem_def int_elem_def append_tlv_def)

lemma component_bytes_eq:
  "component_bytes (Component name spec) =
     append_tlv TAG_SEQUENCE (append_tlv (context_primitive 0) name @ append_tlv (context_constructed 1) (ts_bytes spec))"
  using ber_tags_ok(1) [of spec] by (simp add: component_bytes_def append_cons append_leaf ts_bytes_def cons_tags_ok)

lemma ts_bytes_array:
  "ts_bytes (ts_array n x) =
     append_tlv (context_constructed TAG_DATA_ARRAY)
       (append_tlv (context_primitive 1) (append_uint (of_nat n)) @ append_tlv (context_constructed 2) (ts_bytes x))"
  using ber_tags_ok(1) [of x]
  by (simp add: ts_bytes_def ts_array_def opt_child_def [of "Some _"] append_cons append_leaf cons_tags_ok data_tags)

lemma ts_bytes_structure:
  "ts_bytes (ts_structure cs) =
     append_tlv (context_constructed TAG_DATA_STRUCTURE)
       (append_tlv (context_constructed 1) (concat (map component_bytes cs)))"
  using ber_tags_ok(2)
  by (simp add: ts_bytes_def ts_structure_def opt_child_def append_cons list_all_iff component_bytes_def [abs_def] comp_def data_tags)

lemma narrow_size [simp]:
  "ucast (scast (sz :: 32 word) :: 64 word) = sz" "sint (scast (sz :: 32 word) :: 64 word) = sint sz"
proof -
  show "ucast (scast sz :: 64 word) = sz" by (rule bit_word_eqI) (auto simp: bit_simps)
  show "sint (scast sz :: 64 word) = sint sz"
    by (rule sint_up_scast) (simp add: is_up)
qed

text \<open>The element of a type that has no parts.\<close>

fun simple_tlv :: "value_type \<Rightarrow> 32 word \<Rightarrow> tag \<times> bytes" where
  "simple_tlv TyBoolean sz = (context_primitive TAG_DATA_BOOLEAN, [])"
| "simple_tlv TyBitString sz = (context_primitive TAG_DATA_BIT_STRING, append_int (scast sz))"
| "simple_tlv TyInteger sz = (context_primitive TAG_DATA_INTEGER, append_uint (scast sz))"
| "simple_tlv TyUnsigned sz = (context_primitive TAG_DATA_UNSIGNED, append_uint (scast sz))"
| "simple_tlv TyFloat32 sz = (context_constructed TAG_DATA_FLOAT,
     append_tlv TAG_INTEGER (append_int 32) @ append_tlv TAG_INTEGER (append_int 8))"
| "simple_tlv TyFloat64 sz = (context_constructed TAG_DATA_FLOAT,
     append_tlv TAG_INTEGER (append_int 64) @ append_tlv TAG_INTEGER (append_int 11))"
| "simple_tlv TyOctetString sz = (context_primitive TAG_DATA_OCTET_STRING, append_int (scast sz))"
| "simple_tlv TyVisibleString sz = (context_primitive TAG_DATA_VIS_STRING, append_int (scast sz))"
| "simple_tlv TyGeneralizedTime sz = (context_primitive TAG_DATA_GEN_TIME, [])"
| "simple_tlv TyBinaryTime sz = (context_primitive TAG_DATA_BIN_TIME, [0xff])"
| "simple_tlv TyMmsString sz = (context_primitive TAG_DATA_MMS_STRING, append_int (scast sz))"
| "simple_tlv TyUtcTime sz = (context_primitive TAG_DATA_UTC_TIME, [])"
| "simple_tlv _ sz = (TAG_NULL, [])"

lemma simple_type:
  assumes "ts_ok ts" "ts_kind ts = Some k" "k \<notin> {TyArray, TyStructure}" "simple_tlv k (ts_size ts) = (t, c)"
  shows "ts_bytes ts = append_tlv t c" "tag_cls t = ContextSpecific" "tag_number t \<noteq> TAG_DATA_ARRAY"
    "tag_number t \<noteq> TAG_DATA_STRUCTURE" "decode_simple_type (tag_number t) c = Inr ts"
proof -
  obtain sz n e cs where ts: "ts = TypeSpec (Some k) sz n e cs" using assms(2) by (cases ts) simp
  have e: "append_elem (bool_elem u True) = append_tlv u [0xff]" for u
    by (simp add: bool_elem_def append_leaf)
  show "ts_bytes ts = append_tlv t c"
    using assms by (cases k)
      (auto simp: ts ts_bytes_def opt_child_def append_leaf append_cons cons_tags_ok int_elem_def e data_tags TAG_INTEGER_def)
  have f: "fits (append_int v)" for v
    using int_size_range(2) [of v] by (simp add: fits_def)
  show "tag_cls t = ContextSpecific" "tag_number t \<noteq> TAG_DATA_ARRAY" "tag_number t \<noteq> TAG_DATA_STRUCTURE"
    using assms by (cases k; auto simp: ts data_tags)+
  show "decode_simple_type (tag_number t) c = Inr ts"
    using assms by (cases k)
      (auto simp: ts data_tags decode_simple_type_def field_simps f ts_scalar_def ts_sized_def)
qed

lemma headers_read:
  "n \<le> MAX_ARRAY_ELEMENTS \<Longrightarrow> fits b \<Longrightarrow>
     array_header (append_tlv (context_primitive 1) (append_uint (of_nat n)) @ append_tlv (context_constructed 2) b) = Inr (n, b)"
  "fits b \<Longrightarrow> structure_header (append_tlv (context_constructed 1) b) = Inr b"
  "utf8_valid name \<Longrightarrow> fits name \<Longrightarrow> fits b \<Longrightarrow>
     component_header (append_tlv (context_primitive 0) name @ append_tlv (context_constructed 1) b) = Inr (name, b)"
proof -
  have u: "fits (append_uint v)" for v
    using uint_size_range(2) [of v] by (simp add: fits_def)
  have n: "\<not> of_nat MAX_ARRAY_ELEMENTS < (of_nat n :: 64 word)" "unat (of_nat n :: 64 word) = n" if "n \<le> MAX_ARRAY_ELEMENTS"
    using that by (simp_all add: MAX_ARRAY_ELEMENTS_def word_less_nat_alt unat_of_nat)
  show "n \<le> MAX_ARRAY_ELEMENTS \<Longrightarrow> fits b \<Longrightarrow>
     array_header (append_tlv (context_primitive 1) (append_uint (of_nat n)) @ append_tlv (context_constructed 2) b) = Inr (n, b)"
    by (simp add: array_header_def field_simps u n)
qed (simp_all add: structure_header_def component_header_def field_simps utf8_lossy_valid)

text \<open>One turn of the loop over the components.\<close>

definition decode_component :: "nat \<Rightarrow> decoder \<Rightarrow> mms_error + (component \<times> decoder)" where
  "decode_component k d =
     try_bind (asn1_try (expect_tag TAG_SEQUENCE d)) (\<lambda>(sq, d').
       try_bind (component_header sq) (\<lambda>(name, sc).
         try_bind (decode_type_spec_at (decoder_new sc) k) (\<lambda>r. Inr (Component name (fst r), d'))))"

lemma decode_components_loop:
  "decode_components k d =
     (if more_data d then
        try_bind (decode_component k d) (\<lambda>(c, d'). try_bind (decode_components k d') (\<lambda>cs. Inr (c # cs)))
      else Inr [])"
  by (auto simp: decode_components.simps [of k d] decode_component_def try_bind_def split: sum.split)

lemma fits_parts:
  "fits (append_tlv t c) \<Longrightarrow> fits c" "fits (a @ b) \<Longrightarrow> fits a" "fits (a @ b) \<Longrightarrow> fits b"
  "fits (concat xss) \<Longrightarrow> xs \<in> set xss \<Longrightarrow> fits xs"
proof -
  show "fits (append_tlv t c) \<Longrightarrow> fits c"
    using length_append_tlv_content [of c t] by (simp add: fits_def)
  show "fits (concat xss) \<Longrightarrow> xs \<in> set xss \<Longrightarrow> fits xs"
    using length_concat_member [of xs xss "\<lambda>x. x"] by (simp add: fits_def)
qed (simp_all add: fits_def)

lemma decode_component_bytes:
  assumes IH: "\<And>d zs. rest d = ts_bytes spec @ zs \<Longrightarrow> decode_type_spec_at d k = Inr (spec, advance (length (ts_bytes spec)) d)"
    and "utf8_valid name" "fits (component_bytes (Component name spec))" "rest d = component_bytes (Component name spec) @ zs"
  shows "decode_component k d = Inr (Component name spec, advance (length (component_bytes (Component name spec))) d)"
proof -
  let ?c = "append_tlv (context_primitive 0) name @ append_tlv (context_constructed 1) (ts_bytes spec)"
  have f: "fits ?c" "fits name" "fits (ts_bytes spec)"
    using assms(3) unfolding component_bytes_eq by (blast dest: fits_parts)+
  have "component_header ?c = Inr (name, ts_bytes spec)"
    using assms(2) f by (intro headers_read(3))
  moreover have "decode_type_spec_at (decoder_new (ts_bytes spec)) k = Inr (spec, advance (length (ts_bytes spec)) (decoder_new (ts_bytes spec)))"
    by (rule IH [of _ "[]"]) simp
  moreover have "expect_tag TAG_SEQUENCE d = Inr (?c, advance (length (append_tlv TAG_SEQUENCE ?c)) d)"
    using assms(4) f(1) unfolding component_bytes_eq by (intro expect_append_tlv) (simp_all add: fits_def)
  ultimately show ?thesis
    unfolding component_bytes_eq by (simp add: decode_component_def)
qed

lemma decode_components_bytes:
  assumes IH: "\<And>spec d zs. spec \<in> cp_spec ` set cs \<Longrightarrow> ts_ok spec \<Longrightarrow> fits (ts_bytes spec) \<Longrightarrow> rest d = ts_bytes spec @ zs \<Longrightarrow>
      decode_type_spec_at d k = Inr (spec, advance (length (ts_bytes spec)) d)"
    and ok: "list_all component_ok cs" and f: "fits (concat (map component_bytes cs))"
  shows "decode_components k (decoder_new (concat (map component_bytes cs))) = Inr cs"
proof -
  have "decode_component k d = Inr (c, advance (length (component_bytes c)) d)"
    if c: "c \<in> set cs" and r: "rest d = component_bytes c @ zs" for c d zs
  proof (cases c)
    case (Component name spec)
    have fc: "fits (component_bytes c)" using f c by (auto intro: fits_parts(4))
    then have "fits (ts_bytes spec)"
      unfolding Component component_bytes_eq by (blast dest: fits_parts)
    moreover have "spec \<in> cp_spec ` set cs" using c Component by force
    moreover have "component_ok c" using ok c by (simp add: list_all_iff)
    ultimately show ?thesis
      using r fc unfolding Component by (intro decode_component_bytes IH) simp_all
  qed
  moreover have "component_bytes c \<noteq> []" for c
    by (cases c) (simp add: component_bytes_eq)
  ultimately have "item_loop component_bytes (\<lambda>c. c) (decode_component k) (\<lambda>c. c \<in> set cs) (decode_components k)"
    using decode_components_loop by unfold_locales auto
  from item_loop.loop_new [OF this, of cs] show ?thesis by simp
qed

lemma decode_type_spec_tlv:
  assumes "rest d = append_tlv t c @ zs" "fits (append_tlv t c)" "k \<le> MAX_VALUE_DEPTH" "tag_cls t = ContextSpecific"
    and "(if tag_number t = TAG_DATA_ARRAY then
            try_bind (array_header c) (\<lambda>(n, ec). try_bind (decode_type_spec_at (decoder_new ec) (k + 1)) (\<lambda>r. Inr (ts_array n (fst r))))
          else if tag_number t = TAG_DATA_STRUCTURE then
            try_bind (structure_header c) (\<lambda>cc. try_bind (decode_components (k + 1) (decoder_new cc)) (\<lambda>cs. Inr (ts_structure cs)))
          else decode_simple_type (tag_number t) c) = Inr ts"
  shows "decode_type_spec_at d k = Inr (ts, advance (length (append_tlv t c)) d)"
proof -
  have "read_tlv d = Inr ((t, c), advance (length (append_tlv t c)) d)"
    using assms(1) fits_parts(1) [OF assms(2)] by (intro read_tlv_append_tlv) (simp_all add: fits_def)
  then show ?thesis
    using assms(3-5) by (simp add: decode_type_spec_at.simps [of d k])
qed

lemma decode_type_spec_at_bytes:
  "ts_ok ts \<Longrightarrow> k + ts_depth ts \<le> MAX_VALUE_DEPTH \<Longrightarrow> fits (ts_bytes ts) \<Longrightarrow> rest d = ts_bytes ts @ zs \<Longrightarrow>
     decode_type_spec_at d k = Inr (ts, advance (length (ts_bytes ts)) d)"
proof (induction ts arbitrary: k d zs rule: measure_induct_rule [where f = size])
  case (less ts)
  consider (array) n x where "ts = ts_array n x" "n \<le> MAX_ARRAY_ELEMENTS" "ts_ok x"
    | (struct) cs where "ts = ts_structure cs" "list_all component_ok cs"
    | (simple) kind where "ts_kind ts = Some kind" "kind \<notin> {TyArray, TyStructure}"
    using less.prems(1)
    by (cases ts; cases "ts_kind ts") (auto simp: ts_array_def ts_structure_def split: option.splits value_type.splits)
  then show ?case
  proof cases
    case array
    let ?c = "append_tlv (context_primitive 1) (append_uint (of_nat n)) @ append_tlv (context_constructed 2) (ts_bytes x)"
    have b: "ts_bytes ts = append_tlv (context_constructed TAG_DATA_ARRAY) ?c"
      unfolding array(1) by (rule ts_bytes_array)
    have f: "fits (ts_bytes x)" using less.prems(3) unfolding b by (blast dest: fits_parts)
    have "decode_type_spec_at (decoder_new (ts_bytes x)) (k + 1) = Inr (x, advance (length (ts_bytes x)) (decoder_new (ts_bytes x)))"
      using less.prems(2) array f by (intro less.IH [of _ _ _ "[]"]) (simp_all add: ts_array_def)
    then show ?thesis
      using less.prems(2-4) array headers_read(1) [OF array(2) f] unfolding b
      by (intro decode_type_spec_tlv) (simp_all add: data_tags)
  next
    case struct
    let ?c = "append_tlv (context_constructed 1) (concat (map component_bytes cs))"
    have b: "ts_bytes ts = append_tlv (context_constructed TAG_DATA_STRUCTURE) ?c"
      unfolding struct(1) by (rule ts_bytes_structure)
    have f: "fits (concat (map component_bytes cs))" using less.prems(3) unfolding b by (blast dest: fits_parts)
    have "decode_components (k + 1) (decoder_new (concat (map component_bytes cs))) = Inr cs"
    proof (rule decode_components_bytes [OF _ struct(2) f])
      fix spec d zs
      assume c: "spec \<in> cp_spec ` set cs" "ts_ok spec" "fits (ts_bytes spec)" "rest d = ts_bytes spec @ zs"
      then obtain name where c': "Component name spec \<in> set cs" by (metis component.collapse imageE)
      have "size spec < size ts"
        using struct(1) size_list_estimation' [OF c' order_refl, of size] by (simp add: ts_structure_def)
      moreover have "component_depth (Component name spec) \<le> Max (set (map component_depth cs))"
        using c' by (intro Max_ge) (simp_all del: component_depth.simps)
      then have "k + 1 + ts_depth spec \<le> MAX_VALUE_DEPTH"
        using less.prems(2) c' struct(1) by (auto simp: ts_structure_def split: if_splits)
      ultimately show "decode_type_spec_at d (k + 1) = Inr (spec, advance (length (ts_bytes spec)) d)"
        using c by (intro less.IH)
    qed
    then show ?thesis
      using less.prems(2-4) struct headers_read(2) [OF f] unfolding b
      by (intro decode_type_spec_tlv) (simp_all add: data_tags)
  next
    case simple
    obtain t c where tc: "simple_tlv kind (ts_size ts) = (t, c)" by fastforce
    note s = simple_type [OF less.prems(1) simple tc]
    show ?thesis
      using less.prems(2-4) s(2-5) unfolding s(1) by (intro decode_type_spec_tlv) simp_all
  qed
qed

section \<open>What the decoder accepts\<close>

lemma decode_simple_ok: "decode_simple_type n c = Inr ts \<Longrightarrow> ts_ok ts \<and> ts_depth ts = 0"
proof -
  have b: "\<bar>sint (ucast (bits :: 64 word) :: 32 word)\<bar> \<le> MAX_BIT_STRING_BITS"
    if "- MAX_BIT_STRING_BITS \<le> sint bits" "sint bits \<le> MAX_BIT_STRING_BITS" for bits
  proof -
    have "sint (ucast bits :: 32 word) = signed_take_bit 31 (sint bits)"
      by (simp add: sint_uint unsigned_ucast_eq signed_take_bit_take_bit)
    moreover have "signed_take_bit 31 (sint bits) = sint bits"
      using that by (intro signed_take_bit_int_eq_self) (simp_all add: MAX_BIT_STRING_BITS_def)
    ultimately show ?thesis using that by simp
  qed
  show "decode_simple_type n c = Inr ts \<Longrightarrow> ts_ok ts \<and> ts_depth ts = 0"
    by (auto simp: decode_simple_type_def ts_scalar_def ts_sized_def try_bind_Inr_iff b not_less split: if_splits)
qed

lemma array_header_bound: "array_header c = Inr (n, ec) \<Longrightarrow> n \<le> MAX_ARRAY_ELEMENTS"
  by (auto simp: array_header_def try_bind_Inr_iff not_less word_le_nat_alt MAX_ARRAY_ELEMENTS_def split: if_splits)

lemma component_header_name: "component_header c = Inr (name, sc) \<Longrightarrow> utf8_valid name"
  by (auto simp: component_header_def try_bind_Inr_iff utf8_valid_lossy split: option.splits)

lemma ts_depth_structure:
  assumes "\<forall>c\<in>set cs. Suc k + component_depth c \<le> n" "k \<le> n"
  shows "k + ts_depth (ts_structure cs) \<le> n"
proof (cases "cs = []")
  case False
  then have "Max (set (map component_depth cs)) \<in> set (map component_depth cs)" by (intro Max_in) simp_all
  then obtain c where "c \<in> set cs" "Max (set (map component_depth cs)) = component_depth c" by auto
  with assms(1) False show ?thesis by (auto simp: ts_structure_def)
qed (use assms(2) in \<open>simp add: ts_structure_def\<close>)

lemma decode_type_spec_ok:
  "decode_type_spec_at d k = Inr (ts, d') \<Longrightarrow> ts_ok ts \<and> k + ts_depth ts \<le> MAX_VALUE_DEPTH"
  "decode_components k d = Inr cs \<Longrightarrow> list_all component_ok cs \<and> (\<forall>c\<in>set cs. k + component_depth c \<le> MAX_VALUE_DEPTH)"
proof (induct d k and k d arbitrary: ts d' and cs rule: decode_type_spec_at_decode_components.induct)
  case (1 d k)
  from "1.prems" obtain t c where h: "k \<le> MAX_VALUE_DEPTH" "read_tlv d = Inr ((t, c), d')" "tag_cls t = ContextSpecific"
    by (auto simp: decode_type_spec_at.simps [of d k] try_bind_Inr_iff split: if_splits)
  consider (array) n ec x d1 where "tag_number t = TAG_DATA_ARRAY" "array_header c = Inr (n, ec)"
      "decode_type_spec_at (decoder_new ec) (k + 1) = Inr (x, d1)" "ts = ts_array n x"
    | (struct) cc cs where "tag_number t = TAG_DATA_STRUCTURE" "structure_header c = Inr cc"
      "decode_components (k + 1) (decoder_new cc) = Inr cs" "ts = ts_structure cs"
    | (simple) "decode_simple_type (tag_number t) c = Inr ts"
    using "1.prems" h by (auto simp: decode_type_spec_at.simps [of d k] try_bind_Inr_iff split: if_splits)
  then show ?case
  proof cases
    case array
    have "ts_ok x \<and> (k + 1) + ts_depth x \<le> MAX_VALUE_DEPTH"
      using "1.hyps"(1) [of "((t, c), d')" "(t, c)" d' t c "(n, ec)" n ec x d1] h array by (simp add: not_less)
    with array array_header_bound show ?thesis by (auto simp: ts_array_def)
  next
    case struct
    have "list_all component_ok cs \<and> (\<forall>c\<in>set cs. (k + 1) + component_depth c \<le> MAX_VALUE_DEPTH)"
      using "1.hyps"(2) [of "((t, c), d')" "(t, c)" d' t c cc cs] h struct by (simp add: not_less data_tags)
    with struct(4) h(1) ts_depth_structure [of cs k] show ?thesis by (simp add: ts_structure_def)
  next
    case simple
    from decode_simple_ok [OF this] h(1) show ?thesis by simp
  qed
next
  case (2 k d)
  show ?case
  proof (cases "more_data d")
    case True
    with "2.prems" obtain sq d1 name sc spec d2 cs' where h: "expect_tag TAG_SEQUENCE d = Inr (sq, d1)"
      "component_header sq = Inr (name, sc)" "decode_type_spec_at (decoder_new sc) k = Inr (spec, d2)"
      "decode_components k d1 = Inr cs'" "cs = Component name spec # cs'"
      by (auto simp: decode_components.simps [of k d] try_bind_Inr_iff)
    have "ts_ok spec \<and> k + ts_depth spec \<le> MAX_VALUE_DEPTH"
      using "2.hyps"(1) [of "(sq, d1)" sq d1 "(name, sc)" name sc spec d2] True h by simp
    moreover have "list_all component_ok cs' \<and> (\<forall>c\<in>set cs'. k + component_depth c \<le> MAX_VALUE_DEPTH)"
      using "2.hyps"(2) [of "(sq, d1)" sq d1 "(name, sc)" name sc "(spec, d2)" cs'] True h by simp
    ultimately show ?thesis
      using h(5) component_header_name [OF h(2)] by simp
  qed (use "2.prems" in \<open>simp add: decode_components.simps [of k d]\<close>)
qed

section \<open>What is materialised\<close>

fun values_in :: "mms_value \<Rightarrow> nat" where
  "values_in (ArrayV vs) = 1 + sum_list (map values_in vs)"
| "values_in (StructureV vs) = 1 + sum_list (map values_in vs)"
| "values_in v = 1"

lemma value_count_pos: "0 < value_count ts" "0 < acc \<Longrightarrow> 0 < count_components acc cs"
  by (induction ts and acc cs rule: value_count_count_components.induct)
     (auto simp: Let_def VALUE_CEILING_def split: option.split value_type.split)

lemma sum_list_const_upt: "sum_list (map (\<lambda>_. k) [0..<n]) = n * (k :: nat)"
  by (simp add: sum_list_triv)

lemma value_count_exact:
  "ts_ok ts \<Longrightarrow> value_count ts < VALUE_CEILING \<Longrightarrow> values_in (default_value ts) = value_count ts"
  "list_all component_ok cs \<Longrightarrow> count_components acc cs < VALUE_CEILING \<Longrightarrow>
     count_components acc cs = acc + sum_list (map (values_in \<circ> component_default) cs)"
proof (induction ts and acc cs rule: value_count_count_components.induct)
  case (1 kind sz n e cs)
  show ?case
  proof (cases "kind = Some TyArray")
    case True
    then obtain x where x: "e = Some x" "ts_ok x" using "1.prems"(1) by (auto split: option.splits)
    let ?per = "value_count x"
    have "?per < VALUE_CEILING \<and> \<not> n \<ge> VALUE_CEILING div ?per" if "n \<noteq> 0"
    proof -
      have lt: "n < VALUE_CEILING div ?per"
        using "1.prems"(2) True x value_count_pos(1) [of x] that by (auto simp: Let_def split: if_splits)
      then have "1 < VALUE_CEILING div ?per" using that by linarith
      then have "\<not> VALUE_CEILING \<le> ?per" using div_le_mono [of VALUE_CEILING ?per ?per] value_count_pos(1) [of x] by fastforce
      with lt show ?thesis by simp
    qed
    moreover have "values_in (default_value x) = ?per" if "?per < VALUE_CEILING"
      using 1 True x that by simp
    ultimately show ?thesis
      using True x value_count_pos(1) [of x] by (cases "n = 0") (simp_all add: Let_def sum_list_const_upt comp_def)
  next
    case False
    then show ?thesis
      using 1 by (auto simp: comp_def split: option.splits value_type.splits)
  qed
next
  case (3 acc name spec cs)
  then show ?case by (auto simp: Let_def split: if_splits)
qed simp

end
