(* ===== verification/Mms_Correct.thy ===== *)
theory Mms_Correct
  imports Mms_TypeSpec
begin

text \<open>
  The correctness of MMS values and their encoding, and of the calendar and timestamp
  arithmetic they use.
\<close>

section \<open>The encoding of values\<close>

text \<open>
  C16. Values survive the wire: a value of at most 32 levels whose encoding fits a length
  field is decoded, anywhere in a stream, to a value that compares equal to it, and the cursor
  stops right behind it. Without a 32-bit NaN inside it is the identical value.
\<close>

theorem data_roundtrip:
  assumes "data_ok v" "value_depth v \<le> MAX_VALUE_DEPTH" "length (encode_data v) < 2 ^ 32"
    and "rest d = encode_data v @ zs"
  shows "decode_data d = Inr (wire_value v, advance (length (encode_data v)) d) \<and> value_eq (wire_value v) v"
  using decode_data_at_append [of v 0 d zs] assms wire_value_eq [of v]
  by (simp add: decode_data_def encode_data_def)

theorem data_roundtrip_witness:
  "decode_data (decoder_new (encode_data (StructureV [BooleanV True, Float32V 0x40490fdb, VisibleStringV [0x4f, 0x6e]]) @ [0x99]))
     = Inr (wire_value (StructureV [BooleanV True, Float32V 0x40490fdb, VisibleStringV [0x4f, 0x6e]]),
         advance (length (encode_data (StructureV [BooleanV True, Float32V 0x40490fdb, VisibleStringV [0x4f, 0x6e]])))
           (decoder_new (encode_data (StructureV [BooleanV True, Float32V 0x40490fdb, VisibleStringV [0x4f, 0x6e]]) @ [0x99])))
   \<and> value_eq (wire_value (StructureV [BooleanV True, Float32V 0x40490fdb, VisibleStringV [0x4f, 0x6e]]))
       (StructureV [BooleanV True, Float32V 0x40490fdb, VisibleStringV [0x4f, 0x6e]])"
proof (rule data_roundtrip)
  show "length (encode_data (StructureV [BooleanV True, Float32V 0x40490fdb, VisibleStringV [0x4f, 0x6e]])) < 2 ^ 32"
    by (rule le_less_trans [OF length_encode_data]) simp_all
qed (simp_all add: MAX_VALUE_DEPTH_def)

text \<open>
  C17. Whatever octets arrive, a value the decoder accepts is one the encoder can send: it has
  no empty value inside, well-formed bit strings, timestamps of a legal size, named error codes
  under their names, and at most 32 levels.
\<close>

theorem decoded_data_wf:
  assumes "decode_data d = Inr (v, d')"
  shows "data_ok v \<and> value_depth v \<le> MAX_VALUE_DEPTH \<and> dec_off d < dec_off d' \<and> dec_off d' \<le> length (dec_data d)"
proof -
  from assms have r: "decode_data_at 0 d = Inr (v, d')" by (simp add: decode_data_def)
  then obtain t c where "decode_data_tlv t c 0 = Inr v"
    by (auto simp: decode_data_at_def try_bind_Inr_iff)
  from decode_data_wf(1) [OF this] decode_data_progress [OF r] show ?thesis by simp
qed

theorem decoded_data_wf_witness:
  "decode_data (decoder_new [0xa2, 0x03, 0x83, 0x01, 0x01]) =
     Inr (StructureV [BooleanV True], advance 5 (decoder_new [0xa2, 0x03, 0x83, 0x01, 0x01])) \<and>
   data_ok (StructureV [BooleanV True]) \<and> value_depth (StructureV [BooleanV True]) \<le> MAX_VALUE_DEPTH"
proof -
  have "decode_data (decoder_new [0xa2, 0x03, 0x83, 0x01, 0x01]) =
     Inr (StructureV [BooleanV True], advance 5 (decoder_new [0xa2, 0x03, 0x83, 0x01, 0x01]))"
    by code_simp
  with decoded_data_wf [OF this] show ?thesis by blast
qed

text \<open>A value of \<open>n\<close> structures inside each other.\<close>

fun nested :: "nat \<Rightarrow> mms_value" where
  "nested 0 = BooleanV True"
| "nested (Suc n) = StructureV [nested n]"

lemma data_ok_nested: "data_ok (nested n)"
  by (induction n) simp_all

lemma size_bound_nested: "size_bound (nested n) = 11 * n + 20"
  by (induction n) simp_all

lemma decode_nested:
  "MAX_VALUE_DEPTH < k + n \<Longrightarrow> length (append_data (nested n)) < 2 ^ 32 \<Longrightarrow> rest d = append_data (nested n) @ zs \<Longrightarrow>
     decode_data_at k d = Inl (MmsProtocol DataNestingExceeded)"
proof (induction n arbitrary: k d zs)
  case (Suc n)
  let ?c = "append_data (nested n)" and ?t = "context_constructed TAG_DATA_STRUCTURE"
  have a: "append_data (nested (Suc n)) = append_tlv ?t ?c"
    using append_data_children [of "nested (Suc n)" "[nested n]"] data_ok_nested [of n] by simp
  have n: "length ?c < 2 ^ 32"
    using Suc.prems(2) length_append_tlv_content [of ?c ?t] unfolding a by linarith
  have "decode_data_at (Suc k) (decoder_new ?c) = Inl (MmsProtocol DataNestingExceeded)"
    using Suc.prems n by (intro Suc.IH [of _ _ "[]"]) simp_all
  then have "decode_children (Suc k) (decoder_new ?c) = Inl (MmsProtocol DataNestingExceeded)"
    using append_data_nonempty [OF data_ok_nested, of n]
    by (simp add: decode_children_loop [of "Suc k"] more_data_rest)
  then have "decode_data_tlv ?t ?c k = Inl (MmsProtocol DataNestingExceeded)"
    by (simp add: decode_data_tlv.simps data_tags)
  with Suc.prems(3) n show ?case
    unfolding a by (simp add: decode_data_at_def read_tlv_append_tlv)
qed (simp add: decode_data_at_def)

text \<open>
  The depth limit holds: a value of more than 32 nested structures, however deep, is
  rejected as nested too deeply.
\<close>

theorem data_nesting_limit:
  assumes "MAX_VALUE_DEPTH < n" "length (encode_data (nested n)) < 2 ^ 32"
  shows "decode_data (decoder_new (encode_data (nested n))) = Inl (MmsProtocol DataNestingExceeded)"
  using decode_nested [of 0 n "decoder_new (encode_data (nested n))" "[]"] assms
  by (simp add: decode_data_def encode_data_def)

theorem data_nesting_limit_witness:
  "decode_data (decoder_new (encode_data (nested 33))) = Inl (MmsProtocol DataNestingExceeded)"
proof (rule data_nesting_limit)
  show "length (encode_data (nested 33)) < 2 ^ 32"
    by (rule le_less_trans [OF length_encode_data [OF data_ok_nested]]) (simp add: size_bound_nested)
qed (simp add: MAX_VALUE_DEPTH_def)

text \<open>
  The comparison that decides whether a value changed is an equivalence on all values,
  NaN measurands included: reflexive, symmetric and transitive.
\<close>

theorem value_eq_equivalence: "equivp value_eq"
proof (rule equivpI)
  show "reflp value_eq" by (rule reflpI) (rule value_eq_refl)
  show "symp value_eq" by (rule sympI) (rule value_eq_sym)
  show "transp value_eq" by (rule transpI) (rule value_eq_trans)
qed

section \<open>Timestamps and dates\<close>

text \<open>
  A \<open>UtcTime\<close> keeps a time between 1970 and 2106 to within 60 nanoseconds, never moves it
  forward, and keeps the quality octet.
\<close>

theorem utc_time_accuracy:
  assumes "0 \<le> t" "t < 2 ^ 32 * NANOS"
  shows "\<exists>t'. value_time (utc_time t q) = Some t' \<and> t' \<le> t \<and> t \<le> t' + 60 \<and>
    value_time_quality (utc_time t q) = q"
  by (rule utc_time_close [OF assms])

theorem utc_time_accuracy_witness:
  "\<exists>t'. value_time (utc_time 1700000000123456789 0x8a) = Some t' \<and> t' \<le> 1700000000123456789
    \<and> 1700000000123456789 \<le> t' + 60 \<and> value_time_quality (utc_time 1700000000123456789 0x8a) = 0x8a"
  by (rule utc_time_accuracy) simp_all

text \<open>
  A \<open>TimeOfDay\<close> keeps every time from 1984-01-01 to the end of its 65536 days to the
  millisecond.
\<close>

theorem binary_time_accuracy:
  assumes "BINARY_TIME_EPOCH_DAYS * 86400 * NANOS \<le> t"
    "t < (BINARY_TIME_EPOCH_DAYS + 2 ^ 16) * 86400 * NANOS"
  shows "value_time (binary_time t) = Some (t - t mod 1000000)"
  by (rule binary_time_decodes [OF assms])

theorem binary_time_accuracy_witness:
  "value_time (binary_time 1700000000123456789) = Some (1700000000123456789 - 1700000000123456789 mod 1000000)"
  by (rule binary_time_accuracy) (simp_all add: BINARY_TIME_EPOCH_DAYS_def)

text \<open>
  The civil calendar conversions are inverse to each other on all days and all dates of
  the proleptic Gregorian calendar, and \<open>civil_from_days\<close> yields only dates that exist.
\<close>

theorem civil_calendar:
  "(case civil_from_days z of (y, m, d) \<Rightarrow> civil_date y m d \<and> days_from_civil y m d = z) \<and>
   (civil_date y m d \<longrightarrow> civil_from_days (days_from_civil y m d) = (y, m, d))"
  using civil_from_days_valid civil_from_days_from_civil by (auto split: prod.split)

theorem civil_calendar_witness:
  "civil_date 2000 2 29 \<and> civil_from_days (days_from_civil 2000 2 29) = (2000, 2, 29)"
  using civil_calendar [of 0 2000 2 29] by (simp add: civil_date_def days_in_month_def leap_year_def)

section \<open>Type specifications\<close>

text \<open>
  C20. A type specification of at most 32 levels within the decoder's limits is decoded from its
  encoding to itself, and the decoder stops behind it.
\<close>

theorem type_spec_roundtrip:
  assumes "ts_ok ts" "ts_depth ts \<le> MAX_VALUE_DEPTH" "value_count ts \<le> MAX_DEFAULT_VALUES" "fits (ts_bytes ts)"
    and "rest d = ts_bytes ts @ zs"
  shows "decode_type_spec d = Inr (ts, advance (length (ts_bytes ts)) d)"
  using decode_type_spec_at_bytes [OF assms(1) _ assms(4,5), of 0] assms(2,3)
  by (simp add: decode_type_spec_def not_less)

definition sample_type :: type_spec where
  "sample_type = ts_structure [Component [0x71] (ts_sized TyBitString (- 13)), Component [0x6d] (ts_array 3 (ts_scalar TyFloat32))]"

lemma sample_type_ok: "ts_ok sample_type" "ts_depth sample_type = 2" "value_count sample_type = 6"
proof -
  have "utf8_valid [0x71]" "utf8_valid [0x6d]" by (rule utf8_valid_ascii, simp)+
  then show "ts_ok sample_type"
    by (simp add: sample_type_def ts_structure_def ts_array_def ts_scalar_def ts_sized_def MAX_ARRAY_ELEMENTS_def MAX_BIT_STRING_BITS_def)
  show "ts_depth sample_type = 2" "value_count sample_type = 6"
    by (simp_all add: sample_type_def ts_structure_def ts_array_def ts_scalar_def ts_sized_def VALUE_CEILING_def MAX_DEFAULT_VALUES_def)
qed

lemma sample_type_fits: "fits (ts_bytes sample_type)"
proof -
  have "length (ts_bytes sample_type) < 1000" by code_simp
  then show ?thesis by (simp add: fits_def)
qed

theorem type_spec_roundtrip_witness:
  "decode_type_spec (decoder_new (ts_bytes sample_type @ [0x99])) =
     Inr (sample_type, advance (length (ts_bytes sample_type)) (decoder_new (ts_bytes sample_type @ [0x99])))"
  by (rule type_spec_roundtrip [OF sample_type_ok(1) _ _ sample_type_fits])
    (simp_all add: sample_type_ok MAX_VALUE_DEPTH_def MAX_DEFAULT_VALUES_def)

text \<open>
  C21. Whatever octets arrive, a type specification the decoder accepts respects the limits of
  every declared size, has at most 32 levels below its top, and its default value consists of at
  most 1048576 values, the number the decoder computed for it without building it.
\<close>

theorem type_spec_bounded:
  assumes "decode_type_spec d = Inr (ts, d')"
  shows "ts_ok ts \<and> ts_depth ts \<le> MAX_VALUE_DEPTH \<and>
    values_in (default_value ts) = value_count ts \<and> values_in (default_value ts) \<le> 1048576"
proof -
  from assms have r: "decode_type_spec_at d 0 = Inr (ts, d')" and n: "value_count ts \<le> MAX_DEFAULT_VALUES"
    by (auto simp: decode_type_spec_def try_bind_Inr_iff split: if_splits)
  from decode_type_spec_ok(1) [OF r] have ok: "ts_ok ts" "ts_depth ts \<le> MAX_VALUE_DEPTH" by simp_all
  have "values_in (default_value ts) = value_count ts"
    by (rule value_count_exact(1) [OF ok(1)]) (use n in \<open>simp add: VALUE_CEILING_def\<close>)
  with ok n show ?thesis by (simp add: MAX_DEFAULT_VALUES_def)
qed

theorem type_spec_bounded_witness:
  "decode_type_spec (decoder_new [0x91, 0x01, 0x06]) = Inr (ts_scalar TyUtcTime, advance 3 (decoder_new [0x91, 0x01, 0x06])) \<and>
   ts_ok (ts_scalar TyUtcTime) \<and> values_in (default_value (ts_scalar TyUtcTime)) \<le> 1048576"
proof -
  have "decode_type_spec_at (decoder_new [0x91, 0x01, 0x06]) 0 = Inr (ts_scalar TyUtcTime, advance 3 (decoder_new [0x91, 0x01, 0x06]))"
    by code_simp
  then have d: "decode_type_spec (decoder_new [0x91, 0x01, 0x06]) = Inr (ts_scalar TyUtcTime, advance 3 (decoder_new [0x91, 0x01, 0x06]))"
    by (simp add: decode_type_spec_def ts_scalar_def MAX_DEFAULT_VALUES_def)
  from d type_spec_bounded [OF d] show ?thesis by blast
qed

text \<open>The octets that the values inside a value store.\<close>

fun octets_in :: "mms_value \<Rightarrow> nat" where
  "octets_in (StructureV vs) = sum_list (map octets_in vs)"
| "octets_in (ArrayV vs) = sum_list (map octets_in vs)"
| "octets_in (BitStringV b) = length (bs_bits b)"
| "octets_in _ = 0"

lemma octets_in_array: "octets_in (default_value (ts_array n ts)) = n * octets_in (default_value ts)"
  by (simp add: ts_array_def comp_def sum_list_const_upt)

lemma octets_in_bit_string: "octets_in (BitStringV (bit_string_new n)) = (n + 7) div 8"
  by (simp add: bit_string_new_def)

lemma length_array_bytes: "length (ts_bytes (ts_array n ts)) \<le> length (ts_bytes ts) + 42"
proof -
  define xs ys where "xs = append_tlv (context_primitive 1) (append_uint (of_nat n))"
    and "ys = append_tlv (context_constructed 2) (ts_bytes ts)"
  have "length xs \<le> 20"
    using length_append_tlv_bound [of "context_primitive 1" "append_uint (of_nat n)"] uint_size_range(2) [of "of_nat n"]
    by (simp add: xs_def)
  moreover have "length ys \<le> length (ts_bytes ts) + 11"
    using length_append_tlv_bound [of "context_constructed 2" "ts_bytes ts"] by (simp add: ys_def)
  ultimately show ?thesis
    using length_append_tlv_bound [of "context_constructed TAG_DATA_ARRAY" "xs @ ys"]
    unfolding ts_bytes_array xs_def [symmetric] ys_def [symmetric] by simp
qed

definition wide_type :: type_spec where
  "wide_type = ts_array 65535 (ts_array 14 (ts_sized TyBitString 65536))"

text \<open>
  C40. The limits count values and not the octets they hold: a type specification of fewer than
  128 octets passes all of them, and its default value is made of bit strings of 7516078080
  octets.
\<close>

theorem type_spec_amplifies:
  "length (ts_bytes wide_type) < 128 \<and>
   decode_type_spec (decoder_new (ts_bytes wide_type)) = Inr (wide_type, advance (length (ts_bytes wide_type)) (decoder_new (ts_bytes wide_type))) \<and>
   octets_in (default_value wide_type) = 7516078080"
proof -
  have "length (ts_bytes (ts_sized TyBitString 65536)) \<le> 20"
    using simple_type(1) [of "ts_sized TyBitString 65536" TyBitString] int_size_range(2) [of "scast (65536 :: 32 word)"]
      length_append_tlv_bound [of "context_primitive TAG_DATA_BIT_STRING" "append_int (scast (65536 :: 32 word))"]
    by (simp add: ts_sized_def MAX_BIT_STRING_BITS_def)
  then have l: "length (ts_bytes wide_type) < 128"
    using length_array_bytes [of 65535 "ts_array 14 (ts_sized TyBitString 65536)"] length_array_bytes [of 14 "ts_sized TyBitString 65536"]
    by (simp add: wide_type_def)
  have c: "value_count wide_type \<le> MAX_DEFAULT_VALUES" "ts_depth wide_type \<le> MAX_VALUE_DEPTH" "ts_ok wide_type"
    by (simp_all add: wide_type_def ts_array_def ts_sized_def VALUE_CEILING_def MAX_DEFAULT_VALUES_def MAX_VALUE_DEPTH_def
        MAX_BIT_STRING_BITS_def MAX_ARRAY_ELEMENTS_def)
  have b: "octets_in (default_value (ts_sized TyBitString 65536)) = 8192"
    by (simp add: ts_sized_def octets_in_bit_string del: octets_in.simps)
  have "decode_type_spec_at (decoder_new (ts_bytes wide_type)) 0 =
      Inr (wide_type, advance (length (ts_bytes wide_type)) (decoder_new (ts_bytes wide_type)))"
    by (rule decode_type_spec_at_bytes [where zs = "[]"]) (use l c in \<open>simp_all add: fits_def\<close>)
  moreover have "octets_in (default_value wide_type) = 7516078080"
    by (simp only: wide_type_def octets_in_array b)
  ultimately show ?thesis using l c(1) by (simp add: decode_type_spec_def)
qed

end
