(* ===== verification/Ethernet.thy ===== *)
theory Ethernet
  imports Prelude
begin

text \<open>
  The layer-2 transport of GOOSE and sampled values: Ethernet II frames with an optional
  802.1Q tag (\<open>src/ethernet/frame.rs\<close>) and the in-memory segment (\<open>src/ethernet/pipe.rs\<close>).
  The six octets of an address are a list that \<open>frame_wf\<close> fixes to length six. The interface
  the publishers and subscribers use is the locale \<open>segment\<close>: it carries the frames it accepts
  in order and may lose one, as a real segment does.
\<close>

definition ETHER_TYPE_GOOSE :: u16 where "ETHER_TYPE_GOOSE = 0x88b8"
definition ETHER_TYPE_SV :: u16 where "ETHER_TYPE_SV = 0x88ba"
definition MAX_PAYLOAD :: nat where "MAX_PAYLOAD = 1500"
definition ETHER_TYPE_VLAN :: u16 where "ETHER_TYPE_VLAN = 0x8100"

datatype eth_reason = FrameTooShort nat | TaggedTooShort nat

datatype eth_error = EthFrame eth_reason | EthIo | EthClosed | EthUnsupported

section \<open>Frames\<close>

record vlan_tag =
  vt_priority :: u8
  vt_dei :: bool
  vt_vid :: u16

definition vlan_priority :: "u8 \<Rightarrow> vlan_tag" where
  "vlan_priority p = \<lparr>vt_priority = p AND 7, vt_dei = False, vt_vid = 0\<rparr>"

definition tci :: "vlan_tag \<Rightarrow> u16" where
  "tci v =
     (let t = push_bit 13 (ucast (vt_priority v AND 7)) :: u16;
          t' = (if vt_dei v then t OR push_bit 12 1 else t)
      in t' OR (vt_vid v AND 0x0fff))"

definition from_tci :: "u16 \<Rightarrow> vlan_tag" where
  "from_tci t = \<lparr>vt_priority = ucast (drop_bit 13 t), vt_dei = (t AND push_bit 12 1 \<noteq> 0),
     vt_vid = t AND 0x0fff\<rparr>"

record frame =
  fr_src :: bytes
  fr_dst :: bytes
  fr_ether_type :: u16
  fr_vlan :: "vlan_tag option"
  fr_payload :: bytes

definition ETH_HEADER_LEN :: nat where "ETH_HEADER_LEN = 14"
definition VLAN_LEN :: nat where "VLAN_LEN = 4"

definition encoded_len :: "frame \<Rightarrow> nat" where
  "encoded_len f = ETH_HEADER_LEN + length (fr_payload f) + (if fr_vlan f \<noteq> None then VLAN_LEN else 0)"

definition frame_marshal :: "frame \<Rightarrow> bytes" where
  "frame_marshal f =
     fr_dst f @ fr_src f @
     (case fr_vlan f of Some v \<Rightarrow> to_be_bytes ETHER_TYPE_VLAN @ to_be_bytes (tci v) | None \<Rightarrow> []) @
     to_be_bytes (fr_ether_type f) @ fr_payload f"

definition parse_frame :: "bytes \<Rightarrow> eth_error + frame" where
  "parse_frame b =
     (if length b < ETH_HEADER_LEN then Inl (EthFrame (FrameTooShort (length b)))
      else let f = \<lparr>fr_src = subslice 6 12 b, fr_dst = subslice 0 6 b, fr_ether_type = 0,
                    fr_vlan = None, fr_payload = []\<rparr>;
               et = from_be_bytes [b ! 12, b ! 13] :: u16
           in if et = ETHER_TYPE_VLAN then
                (if length b < ETH_HEADER_LEN + VLAN_LEN then Inl (EthFrame (TaggedTooShort (length b)))
                 else Inr (f\<lparr>fr_vlan := Some (from_tci (from_be_bytes [b ! 14, b ! 15])),
                             fr_ether_type := from_be_bytes [b ! 16, b ! 17],
                             fr_payload := drop (ETH_HEADER_LEN + VLAN_LEN) b\<rparr>))
              else Inr (f\<lparr>fr_ether_type := et, fr_payload := drop ETH_HEADER_LEN b\<rparr>))"

section \<open>Interfaces\<close>

text \<open>What a sequence of writes leaves on an interface, errors being skipped.\<close>

fun write_each :: "(frame \<Rightarrow> 's \<Rightarrow> eth_error + 's) \<Rightarrow> frame list \<Rightarrow> 's \<Rightarrow> 's" where
  "write_each w [] s = s"
| "write_each w (f # fs) s = (case w f s of Inl e \<Rightarrow> write_each w fs s | Inr s' \<Rightarrow> write_each w fs s')"

text \<open>
  The contract of an \<open>Interface\<close> as a publisher uses it: a frame that is accepted travels
  behind the frames already on the segment, or is lost; nothing else changes there.
\<close>

locale segment =
  fixes put :: "frame \<Rightarrow> 's \<Rightarrow> eth_error + 's"
    and carried :: "'s \<Rightarrow> frame list"
  assumes put_carries: "put f s = Inr s' \<Longrightarrow> carried s' = carried s @ [f] \<or> carried s' = carried s"
begin

lemma write_each_subseq: "\<exists>fs'. carried (write_each put fs s) = carried s @ fs' \<and> fs' \<in> set (subseqs fs)"
proof (induction fs arbitrary: s)
  case Nil
  then show ?case by simp
next
  case (Cons f fs)
  show ?case
  proof (cases "put f s")
    case (Inl e)
    with Cons [of s] show ?thesis by (auto simp: Let_def)
  next
    case (Inr s')
    with Cons [of s'] put_carries [OF Inr] show ?thesis by (auto simp: Let_def)
  qed
qed

end

section \<open>The in-memory segment\<close>

text \<open>
  \<open>pipe\<close> makes two ends that share a closed flag; each direction is a bounded queue. An end
  that is dropped takes its sender and its receiver with it.
\<close>

definition PIPE_DEPTH :: nat where "PIPE_DEPTH = 64"

datatype pipe_end = EndA | EndB

fun peer_end :: "pipe_end \<Rightarrow> pipe_end" where
  "peer_end EndA = EndB"
| "peer_end EndB = EndA"

record pipe_state =
  pipe_out :: "pipe_end \<Rightarrow> frame list"
  pipe_alive :: "pipe_end \<Rightarrow> bool"
  pipe_closed :: bool

definition pipe_new :: pipe_state where
  "pipe_new = \<lparr>pipe_out = \<lambda>_. [], pipe_alive = \<lambda>_. True, pipe_closed = False\<rparr>"

definition pipe_write_frame :: "pipe_end \<Rightarrow> frame \<Rightarrow> pipe_state \<Rightarrow> eth_error + pipe_state" where
  "pipe_write_frame e f p =
     (if pipe_closed p then Inl EthClosed
      else if \<not> pipe_alive p (peer_end e) then Inl EthClosed
      else if length (pipe_out p e) \<ge> PIPE_DEPTH then Inr p
      else Inr (p\<lparr>pipe_out := (pipe_out p)(e := pipe_out p e @ [f])\<rparr>))"

definition pipe_try_read_frame :: "pipe_end \<Rightarrow> pipe_state \<Rightarrow> frame option \<times> pipe_state" where
  "pipe_try_read_frame e p =
     (case pipe_out p (peer_end e) of
        [] \<Rightarrow> (None, p)
      | f # fs \<Rightarrow> (Some f, p\<lparr>pipe_out := (pipe_out p)(peer_end e := fs)\<rparr>))"

text \<open>One turn of the loop of \<open>read_frame\<close>: \<open>None\<close> is a timeout after which the loop goes on.\<close>

definition pipe_read_turn :: "pipe_end \<Rightarrow> pipe_state \<Rightarrow> (eth_error + frame) option \<times> pipe_state" where
  "pipe_read_turn e p =
     (if pipe_closed p then (Some (Inl EthClosed), p)
      else case pipe_try_read_frame e p of
        (Some f, p') \<Rightarrow> (Some (Inr f), p')
      | (None, p') \<Rightarrow> if pipe_alive p (peer_end e) then (None, p') else (Some (Inl EthClosed), p'))"

definition pipe_close :: "pipe_state \<Rightarrow> pipe_state" where
  "pipe_close p = p\<lparr>pipe_closed := True\<rparr>"

definition pipe_drop :: "pipe_end \<Rightarrow> pipe_state \<Rightarrow> pipe_state" where
  "pipe_drop e p = p\<lparr>pipe_alive := (pipe_alive p)(e := False)\<rparr>"

interpretation pipe: segment "pipe_write_frame e" "\<lambda>p. pipe_out p e" for e
  by unfold_locales (auto simp: pipe_write_frame_def split: if_splits)

section \<open>The round trip of frames\<close>

definition vlan_wf :: "vlan_tag \<Rightarrow> bool" where
  "vlan_wf v \<longleftrightarrow> vt_priority v < 8 \<and> vt_vid v < 4096"

definition frame_wf :: "frame \<Rightarrow> bool" where
  "frame_wf f \<longleftrightarrow> length (fr_src f) = 6 \<and> length (fr_dst f) = 6 \<and>
     (case fr_vlan f of Some v \<Rightarrow> vlan_wf v | None \<Rightarrow> fr_ether_type f \<noteq> ETHER_TYPE_VLAN)"

lemma bit_u16_0xfff [simp]: "bit (0xfff :: u16) n \<longleftrightarrow> n < 12"
  using bit_mask_word [of 12 n, where ?'a = 16] by (auto simp: mask_eq_exp_minus_1)

lemma bit_u16_0x1000 [simp]: "bit (0x1000 :: u16) n \<longleftrightarrow> n = 12"
  using bit_power2_word [of 12 n, where ?'a = 16] by simp

lemma bit_u8_7 [simp]: "bit (7 :: u8) n \<longleftrightarrow> n < 3"
  using bit_mask_word [of 3 n, where ?'a = 8] by (auto simp: mask_eq_exp_minus_1)

lemma from_tci_tci:
  assumes "vlan_wf v"
  shows "from_tci (tci v) = v"
proof -
  have p: "n < 3" if "bit (vt_priority v) n" for n
    using assms that word_less_exp_bits [of "vt_priority v" 3 n] by (force simp: vlan_wf_def word_less_nat_alt)
  have d: "n < 12" if "bit (vt_vid v) n" for n
    using assms that word_less_exp_bits [of "vt_vid v" 12 n] by (force simp: vlan_wf_def word_less_nat_alt)
  have b: "bit (tci v) n \<longleftrightarrow> n < 16 \<and> (13 \<le> n \<and> bit (vt_priority v) (n - 13) \<or> n = 12 \<and> vt_dei v
      \<or> n < 12 \<and> bit (vt_vid v) n)" for n
    using p [of "n - 13"] by (auto simp: tci_def Let_def octet_bits bit_1_iff dest: bit_imp_le_length)
  have "ucast (drop_bit 13 (tci v)) = vt_priority v"
    by (rule bit_word_eqI) (use p in \<open>auto simp: octet_bits b not_less\<close>)
  moreover have "tci v AND 0xfff = vt_vid v"
    by (rule bit_word_eqI) (use d in \<open>auto simp: octet_bits b not_less\<close>)
  moreover have "(tci v AND push_bit 12 1 \<noteq> 0) = vt_dei v"
    using b [of 12] and_exp_eq_0_iff_not_bit [of "tci v" 12] by simp
  ultimately show ?thesis by (simp add: from_tci_def)
qed

lemma from_be_bytes_pair: "from_be_bytes [b ! 0, b ! 1] = from_be_bytes b" if "length b = 2" for b :: bytes
  using that by (cases b; cases "tl b") auto

lemma length_frame_marshal: "frame_wf f \<Longrightarrow> length (frame_marshal f) = encoded_len f"
  by (auto simp: frame_marshal_def encoded_len_def frame_wf_def ETH_HEADER_LEN_def VLAN_LEN_def split: option.splits)

lemma parse_frame_parts:
  assumes "length d = 6" "length s = 6"
  shows "parse_frame (d @ s @ [x, y] @ p) =
    (let et = from_be_bytes [x, y] in
     if et \<noteq> ETHER_TYPE_VLAN then Inr \<lparr>fr_src = s, fr_dst = d, fr_ether_type = et, fr_vlan = None, fr_payload = p\<rparr>
     else if length p < 4 then Inl (EthFrame (TaggedTooShort (length p + 14)))
     else Inr \<lparr>fr_src = s, fr_dst = d, fr_ether_type = from_be_bytes [p ! 2, p ! 3],
       fr_vlan = Some (from_tci (from_be_bytes [p ! 0, p ! 1])), fr_payload = drop 4 p\<rparr>)"
  using assms
  by (simp add: parse_frame_def ETH_HEADER_LEN_def VLAN_LEN_def Let_def nth_append subslice_def)

lemma parse_frame_marshal:
  assumes "frame_wf f"
  shows "parse_frame (frame_marshal f) = Inr f"
proof (cases "fr_vlan f")
  case None
  have "frame_marshal f = fr_dst f @ fr_src f @ [ucast (drop_bit 8 (fr_ether_type f)), ucast (fr_ether_type f)] @ fr_payload f"
    using None by (simp add: frame_marshal_def to_be_bytes_16)
  then show ?thesis
    using None assms by (simp add: parse_frame_parts [simplified] frame_wf_def)
next
  case (Some v)
  have "frame_marshal f = fr_dst f @ fr_src f @ [ucast (drop_bit 8 ETHER_TYPE_VLAN), ucast ETHER_TYPE_VLAN] @
      ([ucast (drop_bit 8 (tci v)), ucast (tci v), ucast (drop_bit 8 (fr_ether_type f)), ucast (fr_ether_type f)] @ fr_payload f)"
    using Some by (simp add: frame_marshal_def to_be_bytes_16)
  then show ?thesis
    using Some assms by (simp add: parse_frame_parts [simplified] frame_wf_def from_tci_tci numeral_2_eq_2 numeral_3_eq_3)
qed

end
