(* ===== verification/Goose_Message.thy ===== *)
theory Goose_Message
  imports Mms_Codec Asn1_Fields Rust_String Ethernet
begin

text \<open>
  The GOOSE application data unit: \<open>src/goose/mod.rs\<close> and \<open>src/goose/message.rs\<close>, with the
  anomaly flags of \<open>src/goose/subscriber.rs\<close> that a message carries.
\<close>

datatype goose_reason =
    ApduTruncated nat
  | ApduLength nat nat
  | GooseAsn1 asn1_error
  | GooseField string asn1_error
  | GooseTime mms_error
  | FieldRange string
  | AllDataMember nat mms_error

datatype goose_error =
    GooseCodec goose_reason
  | GooseConfig string
  | GooseEthernet eth_error
  | GooseClosed
  | GooseFrameTooLarge nat nat

definition default_mac :: "u16 \<Rightarrow> bytes" where
  "default_mac offset =
     [0x01, 0x0c, 0xcd, 0x01, to_be_bytes offset ! 0 AND 0x01, to_be_bytes offset ! 1]"

text \<open>Durations are nanoseconds.\<close>

type_synonym duration = nat

definition from_millis :: "nat \<Rightarrow> duration" where
  "from_millis ms = ms * 1000000"

definition as_millis :: "duration \<Rightarrow> nat" where
  "as_millis d = d div 1000000"

text \<open>\<open>n.wrapping_add(1).max(1)\<close>: the counters of GOOSE roll over to 1.\<close>

definition next_num :: "u32 \<Rightarrow> u32" where
  "next_num n = max (n + 1) 1"

record anomalies =
  st_num_regressed :: bool
  sq_num_gap :: bool
  an_stale :: bool
  entries_mismatch :: bool

definition no_anomalies :: anomalies where
  "no_anomalies = \<lparr>st_num_regressed = False, sq_num_gap = False, an_stale = False, entries_mismatch = False\<rparr>"

definition any_anomaly :: "anomalies \<Rightarrow> bool" where
  "any_anomaly a \<longleftrightarrow> st_num_regressed a \<or> sq_num_gap a \<or> an_stale a \<or> entries_mismatch a"

definition GOOSE_HEADER_LEN :: nat where "GOOSE_HEADER_LEN = 8"

definition goose_pdu_tag :: tag where "goose_pdu_tag = application_constructed 1"

record goose_message =
  gm_cb_ref :: rust_string
  gm_dat_set :: rust_string
  gm_id :: rust_string
  gm_tatl :: u32
  gm_t :: "system_time option"
  gm_st_num :: u32
  gm_sq_num :: u32
  gm_conf_rev :: u32
  gm_test :: bool
  gm_nds_com :: bool
  gm_entries :: u32
  gm_values :: "mms_value list"
  gm_app_id :: u16
  gm_time_quality :: "time_quality option"
  gm_anomalies :: anomalies

definition goose_message_default :: goose_message where
  "goose_message_default = \<lparr>gm_cb_ref = [], gm_dat_set = [], gm_id = [], gm_tatl = 0,
     gm_t = None, gm_st_num = 0, gm_sq_num = 0, gm_conf_rev = 0, gm_test = False, gm_nds_com = False,
     gm_entries = 0, gm_values = [], gm_app_id = 0, gm_time_quality = None,
     gm_anomalies = no_anomalies\<rparr>"

section \<open>Encoding\<close>

text \<open>The timestamp of a message as the octets of a \<open>UtcTime\<close>.\<close>

definition message_time :: "goose_message \<Rightarrow> mms_value" where
  "message_time m =
     (case gm_t m of
        Some t \<Rightarrow> utc_time t (case gm_time_quality m of Some q \<Rightarrow> q | None \<Rightarrow> TQ_DEFAULT)
      | None \<Rightarrow> UtcTimeV (replicate 8 0))"

definition goose_fields :: "goose_message \<Rightarrow> element list" where
  "goose_fields m =
     [prim (context_primitive 0) (gm_cb_ref m),
      uint_elem (context_primitive 1) (ucast (gm_tatl m)),
      prim (context_primitive 2) (gm_dat_set m),
      prim (context_primitive 3) (gm_id m),
      prim (context_primitive 4) (value_bytes (message_time m)),
      uint_elem (context_primitive 5) (ucast (gm_st_num m)),
      uint_elem (context_primitive 6) (ucast (gm_sq_num m)),
      bool_elem (context_primitive 7) (gm_test m),
      uint_elem (context_primitive 8) (ucast (gm_conf_rev m)),
      bool_elem (context_primitive 9) (gm_nds_com m),
      uint_elem (context_primitive 10) (ucast (gm_entries m)),
      cons (context_constructed 11) (List.map_filter data_element (gm_values m))]"

definition goose_marshal :: "goose_message \<Rightarrow> bytes" where
  "goose_marshal m =
     (let pdu = cons goose_pdu_tag (goose_fields m);
          len = GOOSE_HEADER_LEN + elem_size pdu
      in to_be_bytes (gm_app_id m) @ to_be_bytes (of_nat len :: u16) @ [0, 0, 0, 0] @ append_elem pdu)"

section \<open>Decoding\<close>

definition goose_try :: "asn1_error + 'a \<Rightarrow> goose_error + 'a" where
  "goose_try m = map_err (\<lambda>e. GooseCodec (GooseAsn1 e)) m"

definition goose_field :: "string \<Rightarrow> asn1_error + 'a \<Rightarrow> goose_error + 'a" where
  "goose_field name m = map_err (\<lambda>e. GooseCodec (GooseField name e)) m"

definition string_field :: "u32 \<Rightarrow> string \<Rightarrow> decoder \<Rightarrow> goose_error + (rust_string \<times> decoder)" where
  "string_field t name d =
     try_bind (goose_field name (expect_tag (context_primitive t) d)) (\<lambda>(b, d'). Inr (utf8_lossy b, d'))"

definition uint32_field :: "u32 \<Rightarrow> string \<Rightarrow> decoder \<Rightarrow> goose_error + (u32 \<times> decoder)" where
  "uint32_field t name d =
     try_bind (goose_field name (expect_tag (context_primitive t) d)) (\<lambda>(b, d').
       try_bind (goose_field name (decode_uint b)) (\<lambda>v.
         if v > 0xffffffff then Inl (GooseCodec (FieldRange name)) else Inr (ucast v, d')))"

text \<open>An optional BOOLEAN field, absent meaning false.\<close>

definition bool_field :: "u32 \<Rightarrow> string \<Rightarrow> decoder \<Rightarrow> goose_error + (bool \<times> decoder)" where
  "bool_field t name d =
     try_bind (goose_try (optional_tag (context_primitive t) d)) (\<lambda>(b, d').
       case b of
         Some c \<Rightarrow> try_bind (goose_field name (decode_bool c)) (\<lambda>v. Inr (v, d'))
       | None \<Rightarrow> Inr (False, d'))"

text \<open>The loop over \<open>allData\<close>; \<open>i\<close> counts the values read so far.\<close>

function all_data :: "nat \<Rightarrow> decoder \<Rightarrow> goose_error + mms_value list" where
  "all_data i inner =
     (if \<not> more_data inner then Inr []
      else try_bind (map_err (\<lambda>e. GooseCodec (AllDataMember i e)) (decode_data inner))
        (\<lambda>(v, inner'). try_bind (all_data (Suc i) inner') (\<lambda>vs. Inr (v # vs))))"
  by pat_completeness auto
termination
proof (relation "measure (\<lambda>(i, d). length (dec_data d) - dec_off d)", goal_cases)
  case (2 i inner r v inner')
  then have "decode_data_at 0 inner = Inr (v, inner')" by (simp add: decode_data_def)
  from decode_data_progress [OF this] 2 show ?case by (auto simp: more_data_def)
qed simp

declare all_data.simps [simp del]

definition goose_time :: "bytes \<Rightarrow> goose_error + mms_value" where
  "goose_time b = map_err (\<lambda>e. GooseCodec (GooseTime e)) (utc_time_raw b)"

definition parse_goose_pdu :: "u16 \<Rightarrow> decoder \<Rightarrow> goose_error + goose_message" where
  "parse_goose_pdu app d0 =
     try_bind (string_field 0 ''gocbRef'' d0) (\<lambda>(ref, d1).
     try_bind (uint32_field 1 ''timeAllowedToLive'' d1) (\<lambda>(tatl, d2).
     try_bind (string_field 2 ''datSet'' d2) (\<lambda>(ds, d3).
     try_bind (goose_try (optional_tag (context_primitive 3) d3)) (\<lambda>(gid, d4).
     try_bind (goose_field ''t'' (expect_tag (context_primitive 4) d4)) (\<lambda>(tb, d5).
     try_bind (goose_time tb) (\<lambda>tv.
     try_bind (uint32_field 5 ''stNum'' d5) (\<lambda>(st, d6).
     try_bind (uint32_field 6 ''sqNum'' d6) (\<lambda>(sq, d7).
     try_bind (bool_field 7 ''test'' d7) (\<lambda>(tst, d8).
     try_bind (uint32_field 8 ''confRev'' d8) (\<lambda>(cr, d9).
     try_bind (bool_field 9 ''ndsCom'' d9) (\<lambda>(nds, d10).
     try_bind (uint32_field 10 ''numDatSetEntries'' d10) (\<lambda>(n, d11).
     try_bind (goose_field ''allData'' (expect_tag (context_constructed 11) d11)) (\<lambda>(content, d12).
     try_bind (all_data 0 (decoder_new content)) (\<lambda>vs.
       Inr \<lparr>gm_cb_ref = ref, gm_dat_set = ds,
         gm_id = (case gid of Some b \<Rightarrow> utf8_lossy b | None \<Rightarrow> []), gm_tatl = tatl,
         gm_t = value_time tv, gm_st_num = st, gm_sq_num = sq, gm_conf_rev = cr, gm_test = tst, gm_nds_com = nds,
         gm_entries = n, gm_values = vs, gm_app_id = app,
         gm_time_quality = Some (value_time_quality tv), gm_anomalies = no_anomalies\<rparr>))))))))))))))"

definition goose_parse :: "bytes \<Rightarrow> goose_error + goose_message" where
  "goose_parse apdu =
     (if length apdu < GOOSE_HEADER_LEN then Inl (GooseCodec (ApduTruncated (length apdu)))
      else let len = unat (from_be_bytes [apdu ! 2, apdu ! 3] :: u16)
           in if len < GOOSE_HEADER_LEN \<or> len > length apdu
              then Inl (GooseCodec (ApduLength len (length apdu)))
              else try_bind (goose_try (expect_tag goose_pdu_tag
                       (decoder_new (subslice GOOSE_HEADER_LEN len apdu)))) (\<lambda>(content, _).
                     parse_goose_pdu (from_be_bytes [apdu ! 0, apdu ! 1]) (decoder_new content)))"

section \<open>Round trip\<close>

lemma all_data_iff: "all_data i d = Inr vs \<longleftrightarrow> decode_children 0 d = Inr vs"
proof (induction i d arbitrary: vs rule: all_data.induct)
  case (1 i d)
  have loop: "decode_children 0 d = (if more_data d then
      try_bind (decode_data d) (\<lambda>(v, d'). try_bind (decode_children 0 d') (\<lambda>vs. Inr (v # vs)))
    else Inr [])"
    unfolding decode_data_def by (rule decode_children_loop)
  show ?case
  proof (cases "decode_data d")
    case (Inl e)
    then show ?thesis unfolding loop all_data.simps [of i d] by simp
  next
    case (Inr r)
    obtain v d' where r: "r = (v, d')" by (cases r)
    have "all_data (Suc i) d' = Inr ws \<longleftrightarrow> decode_children 0 d' = Inr ws" if "more_data d" for ws
      by (rule "1.IH" [of r v d']) (simp_all add: that Inr r)
    with Inr r show ?thesis unfolding loop all_data.simps [of i d] by (auto simp: try_bind_Inr_iff)
  qed
qed

text \<open>Values that can be a member of \<open>allData\<close>, at the depth the decoder reads them.\<close>

definition member_ok :: "mms_value \<Rightarrow> bool" where
  "member_ok v \<longleftrightarrow> data_ok v \<and> value_depth v \<le> MAX_VALUE_DEPTH"

definition goose_message_ok :: "goose_message \<Rightarrow> bool" where
  "goose_message_ok m \<longleftrightarrow> utf8_valid (gm_cb_ref m) \<and> utf8_valid (gm_dat_set m) \<and> utf8_valid (gm_id m) \<and>
     list_all member_ok (gm_values m)"

text \<open>What a subscriber parses of a message.\<close>

definition received :: "goose_message \<Rightarrow> goose_message" where
  "received m = m\<lparr>gm_t := value_time (message_time m),
     gm_time_quality := Some (value_time_quality (message_time m)),
     gm_values := map wire_value (gm_values m), gm_anomalies := no_anomalies\<rparr>"

lemma length_message_time: "length (value_bytes (message_time m)) = 8"
  by (auto simp: message_time_def utc_time_def utc_time_parts_def Let_def split: option.splits prod.splits)

lemma message_time_raw: "utc_time_raw (value_bytes (message_time m)) = Inr (message_time m)"
  by (auto simp: message_time_def utc_time_def utc_time_parts_def utc_time_raw_def Let_def
      split: option.splits prod.splits)

lemma append_elem_values:
  assumes "list_all data_ok vs"
  shows "concat (map append_elem (List.map_filter data_element vs)) = concat (map append_data vs)"
    "list_all elem_tags_ok (List.map_filter data_element vs)"
proof -
  have ok: "\<forall>c \<in> set vs. \<exists>e. data_element c = Some e"
    using assms data_element_Some by (auto simp: list_all_iff)
  then have "map append_elem (List.map_filter data_element vs) = map append_data vs"
    by (auto simp: map_filter_all_Some append_data_def)
  then show "concat (map append_elem (List.map_filter data_element vs)) = concat (map append_data vs)" by simp
  show "list_all elem_tags_ok (List.map_filter data_element vs)"
    using elem_tags_ok_data by (auto simp: list_all_iff List.map_filter_def)
qed

lemma all_data_append:
  assumes "list_all member_ok vs" "fits (concat (map append_data vs))"
  shows "all_data 0 (decoder_new (concat (map append_data vs))) = Inr (map wire_value vs)"
proof -
  have "decode_children 0 (decoder_new (concat (map append_data vs))) = Inr (map wire_value vs)"
    using assms fits_member [OF assms(2)]
    by (intro data_items.loop_new) (auto simp: list_all_iff member_ok_def fits_def)
  then show ?thesis by (simp add: all_data_iff)
qed

lemma unat_ucast_u32: "unat (ucast (v :: u32) :: u64) = unat v"
  using unat_word_bound [of v] by (simp add: unsigned_ucast_eq take_bit_nat_eq_self_iff)

lemma u32_in_u64: "\<not> (0xffffffff :: u64) < ucast (v :: u32)" "ucast (ucast v :: u64) = (v :: u32)"
proof -
  show "\<not> (0xffffffff :: u64) < ucast v"
    using unat_word_bound [of v] unat_ucast_u32 [of v] by (simp add: word_less_nat_alt)
  show "ucast (ucast v :: u64) = v" by (rule bit_word_eqI) (simp add: octet_bits)
qed

lemma string_field_append:
  "utf8_valid s \<Longrightarrow> fits s \<Longrightarrow>
     string_field n name (dec_at xs (append_tlv (context_primitive n) s @ zs)) =
       Inr (s, dec_at (xs @ append_tlv (context_primitive n) s) zs)"
  unfolding string_field_def by (subst expect_field) (simp_all add: goose_field_def utf8_lossy_valid)

lemma uint32_field_append:
  "uint32_field n name (dec_at xs (append_tlv (context_primitive n) (append_uint (ucast (v :: u32))) @ zs)) =
     Inr (v, dec_at (xs @ append_tlv (context_primitive n) (append_uint (ucast v))) zs)"
  unfolding uint32_field_def by (subst expect_field) (simp_all add: goose_field_def u32_in_u64)

lemma bool_field_append:
  "bool_field n name (dec_at xs (append_tlv (context_primitive n) [if v then 0xff else 0x00] @ zs)) =
     Inr (v, dec_at (xs @ append_tlv (context_primitive n) [if v then 0xff else 0x00]) zs)"
  unfolding bool_field_def
  by (subst optional_field(1)) (simp_all add: goose_field_def goose_try_def decode_bool_def)

lemma goose_fields_append:
  assumes "list_all data_ok (gm_values m)"
  shows "concat (map append_elem (goose_fields m)) =
     append_tlv (context_primitive 0) (gm_cb_ref m) @
     append_tlv (context_primitive 1) (append_uint (ucast (gm_tatl m))) @
     append_tlv (context_primitive 2) (gm_dat_set m) @
     append_tlv (context_primitive 3) (gm_id m) @
     append_tlv (context_primitive 4) (value_bytes (message_time m)) @
     append_tlv (context_primitive 5) (append_uint (ucast (gm_st_num m))) @
     append_tlv (context_primitive 6) (append_uint (ucast (gm_sq_num m))) @
     append_tlv (context_primitive 7) [if gm_test m then 0xff else 0x00] @
     append_tlv (context_primitive 8) (append_uint (ucast (gm_conf_rev m))) @
     append_tlv (context_primitive 9) [if gm_nds_com m then 0xff else 0x00] @
     append_tlv (context_primitive 10) (append_uint (ucast (gm_entries m))) @
     append_tlv (context_constructed 11) (concat (map append_data (gm_values m)))"
    "list_all elem_tags_ok (goose_fields m)"
  using append_elem_values [OF assms] by (simp_all add: goose_fields_def)

lemma parse_goose_pdu_fields:
  assumes "goose_message_ok m" "fits (concat (map append_elem (goose_fields m)))"
  shows "parse_goose_pdu (gm_app_id m) (decoder_new (concat (map append_elem (goose_fields m)))) = Inr (received m)"
proof -
  have ok: "list_all data_ok (gm_values m)" "list_all member_ok (gm_values m)"
    using assms(1) by (auto simp: goose_message_ok_def member_ok_def list_all_iff)
  note f = goose_fields_append(1) [OF ok(1)]
  have fit: "fits (gm_cb_ref m)" "fits (gm_dat_set m)" "fits (gm_id m)" "fits (value_bytes (message_time m))"
    "fits (concat (map append_data (gm_values m)))"
    using assms(2) unfolding f by (auto dest!: fits_append fits_tlv)
  show ?thesis
    using assms(1) unfolding f decoder_new_at parse_goose_pdu_def
    by (simp add: string_field_append uint32_field_append bool_field_append expect_field expect_last
        optional_field fit goose_try_def goose_field_def goose_time_def message_time_raw
        all_data_append [OF ok(2) fit(5), unfolded decoder_new_at] goose_message_ok_def utf8_lossy_valid received_def
        del: tag_defs)
qed

lemma goose_marshal_octets:
  assumes "goose_message_ok m"
  defines "pdu \<equiv> append_tlv goose_pdu_tag (concat (map append_elem (goose_fields m)))"
  shows "goose_marshal m = to_be_bytes (gm_app_id m) @ to_be_bytes (of_nat (8 + length pdu) :: u16) @
      [0, 0, 0, 0] @ pdu"
proof -
  have ok: "list_all data_ok (gm_values m)"
    using assms(1) by (auto simp: goose_message_ok_def member_ok_def list_all_iff)
  note f = goose_fields_append(2) [OF ok]
  have e: "append_elem (cons goose_pdu_tag (goose_fields m)) = pdu"
    using f by (simp add: pdu_def goose_pdu_tag_def)
  have "elem_size (cons goose_pdu_tag (goose_fields m)) = length pdu"
    using length_append_elem [of "cons goose_pdu_tag (goose_fields m)"] f
    unfolding e by (simp add: goose_pdu_tag_def)
  with e show ?thesis by (simp add: goose_marshal_def Let_def GOOSE_HEADER_LEN_def)
qed

lemma goose_parse_marshal:
  assumes ok: "goose_message_ok m" and n: "length (goose_marshal m) < 2 ^ 16"
  shows "goose_parse (goose_marshal m @ padding) = Inr (received m)"
proof -
  let ?c = "concat (map append_elem (goose_fields m))"
  define pdu where "pdu = append_tlv goose_pdu_tag ?c"
  define k :: u16 where "k = of_nat (8 + length pdu)"
  have a: "goose_marshal m @ padding = ucast (drop_bit 8 (gm_app_id m)) # ucast (gm_app_id m) #
      ucast (drop_bit 8 k) # ucast k # 0 # 0 # 0 # 0 # pdu @ padding"
    using goose_marshal_octets [OF ok] by (simp add: to_be_bytes_16 pdu_def k_def)
  have "8 + length pdu < 2 ^ 16"
    using n goose_marshal_octets [OF ok] by (simp add: pdu_def)
  then have k: "unat k = 8 + length pdu" unfolding k_def by (intro unat_of_nat_small) simp
  have c: "fits ?c"
    using \<open>8 + length pdu < 2 ^ 16\<close> length_append_tlv_content [of ?c goose_pdu_tag]
    by (simp add: fits_def pdu_def)
  have "subslice 8 (8 + length pdu) (goose_marshal m @ padding) = pdu"
    unfolding a subslice_def by (simp add: numeral_eq_Suc)
  with c k show ?thesis
    unfolding a
    by (simp add: goose_parse_def GOOSE_HEADER_LEN_def Let_def goose_try_def pdu_def
        decoder_new_at [of "append_tlv t d" for t d] expect_last parse_goose_pdu_fields [OF ok c])
qed

text \<open>An upper bound of the size of a message.\<close>

lemma goose_marshal_bound:
  assumes "list_all data_ok (gm_values m)"
  shows "length (goose_marshal m) \<le> 215 + length (gm_cb_ref m) + length (gm_dat_set m) + length (gm_id m) +
    sum_list (map size_bound (gm_values m))"
proof -
  note f = goose_fields_append [OF assms]
  have "length (concat (map append_data (gm_values m))) \<le> sum_list (map size_bound (gm_values m))"
    using assms length_encode_data
    by (auto simp: length_concat comp_def list_all_iff encode_data_def intro!: sum_list_mono)
  then have "length (concat (map append_elem (goose_fields m))) \<le> 196 + length (gm_cb_ref m) +
      length (gm_dat_set m) + length (gm_id m) + sum_list (map size_bound (gm_values m))"
    unfolding f(1)
    using length_append_tlv_bound [of "context_primitive 0" "gm_cb_ref m"]
      length_append_tlv_bound [of "context_primitive 1" "append_uint (ucast (gm_tatl m))"]
      length_append_tlv_bound [of "context_primitive 2" "gm_dat_set m"]
      length_append_tlv_bound [of "context_primitive 3" "gm_id m"]
      length_append_tlv_bound [of "context_primitive 4" "value_bytes (message_time m)"]
      length_append_tlv_bound [of "context_primitive 5" "append_uint (ucast (gm_st_num m))"]
      length_append_tlv_bound [of "context_primitive 6" "append_uint (ucast (gm_sq_num m))"]
      length_append_tlv_bound [of "context_primitive 7" "[if gm_test m then 0xff else 0x00]"]
      length_append_tlv_bound [of "context_primitive 8" "append_uint (ucast (gm_conf_rev m))"]
      length_append_tlv_bound [of "context_primitive 9" "[if gm_nds_com m then 0xff else 0x00]"]
      length_append_tlv_bound [of "context_primitive 10" "append_uint (ucast (gm_entries m))"]
      length_append_tlv_bound [of "context_constructed 11" "concat (map append_data (gm_values m))"]
      uint_size_range(2) [of "ucast (gm_tatl m)"] uint_size_range(2) [of "ucast (gm_st_num m)"]
      uint_size_range(2) [of "ucast (gm_sq_num m)"] uint_size_range(2) [of "ucast (gm_conf_rev m)"]
      uint_size_range(2) [of "ucast (gm_entries m)"] length_message_time [of m]
    by (simp del: tag_defs)
  moreover have "length (goose_marshal m) = 8 + length (append_tlv goose_pdu_tag (concat (map append_elem (goose_fields m))))"
    using f(2) by (simp add: goose_marshal_def Let_def goose_pdu_tag_def)
  ultimately show ?thesis
    using length_append_tlv_bound [of goose_pdu_tag "concat (map append_elem (goose_fields m))"] by simp
qed

end
