(* ===== verification/Goose_Publisher.thy ===== *)
theory Goose_Publisher
  imports Goose_Message
begin

text \<open>
  The GOOSE publisher with its retransmission tasks: \<open>src/goose/publisher.rs\<close>.

  A publisher is the state behind its locks together with the retransmission tasks that are
  still alive. A task runs in two critical sections: after its sleep it checks the closed flag
  and prepares the next message (\<open>task_wake\<close>); later it takes the state lock, checks its
  generation and sends (\<open>task_fire\<close>). Any calls of the publisher may come between the two, and
  a task that was aborted may still be in the middle of a turn: cancellation is an event of its
  own. Durations are nanoseconds.
\<close>

definition DEFAULT_RETRANS :: "duration list" where
  "DEFAULT_RETRANS = map from_millis [4, 8, 16, 32, 64, 128, 256, 512, 1000]"

text \<open>The schedule a control block's times ask for (\<open>src/goose/scl.rs\<close>); \<open>n\<close> intervals are out.\<close>

definition MAX_RETRANS_STEPS :: nat where "MAX_RETRANS_STEPS = 16"

function doubling :: "nat \<Rightarrow> nat \<Rightarrow> nat \<Rightarrow> duration list" where
  "doubling d max_ms n =
     (if d < max_ms \<and> n < MAX_RETRANS_STEPS then from_millis d # doubling (d * 2) max_ms (Suc n)
      else [from_millis max_ms])"
  by pat_completeness auto
termination
  by (relation "measure (\<lambda>(d, max_ms, n). MAX_RETRANS_STEPS - n)") auto

declare doubling.simps [simp del]

definition retrans_from_scl :: "u32 \<Rightarrow> u32 \<Rightarrow> duration list" where
  "retrans_from_scl min_time max_time =
     (let min_ms = unat min_time; max_ms = unat max_time in
      if min_ms = 0 \<and> max_ms = 0 then DEFAULT_RETRANS
      else let min_ms' = (if min_ms = 0 then max (max_ms div 64) 1 else min_ms);
               max_ms' = max max_ms min_ms'
           in doubling min_ms' max_ms' 0)"

record publisher_config =
  pc_dst_mac :: bytes
  pc_src_mac :: bytes
  pc_app_id :: u16
  pc_vlan :: "vlan_tag option"
  pc_go_cb_ref :: rust_string
  pc_dat_set :: rust_string
  pc_go_id :: rust_string
  pc_conf_rev :: u32
  pc_retrans :: "duration list"
  pc_test :: bool
  pc_nds_com :: bool
  pc_time_quality :: "time_quality option"

definition publisher_config_default :: publisher_config where
  "publisher_config_default = \<lparr>pc_dst_mac = [0x01, 0x0c, 0xcd, 0x01, 0x00, 0x00],
     pc_src_mac = replicate 6 0, pc_app_id = 0, pc_vlan = None, pc_go_cb_ref = [], pc_dat_set = [],
     pc_go_id = [], pc_conf_rev = 0, pc_retrans = [], pc_test = False, pc_nds_com = False,
     pc_time_quality = None\<rparr>"

record pub_state =
  ps_st_num :: u32
  ps_sq_num :: u32
  ps_test :: bool
  ps_nds_com :: bool
  ps_t :: "system_time option"
  ps_generation :: u64

record retrans_task =
  rt_msg :: goose_message
  rt_generation :: u64
  rt_turn :: nat
  rt_awake :: bool

record publisher =
  pb_cfg :: publisher_config
  pb_retrans :: "duration list"
  pb_state :: pub_state
  pb_closed :: bool
  pb_tasks :: "retrans_task list"

definition publisher_new :: "publisher_config \<Rightarrow> goose_error + publisher" where
  "publisher_new cfg =
     (if pc_go_cb_ref cfg = [] then Inl (GooseConfig ''go_cb_ref is required'')
      else let retrans = (if pc_retrans cfg = [] then DEFAULT_RETRANS else pc_retrans cfg)
           in if list_ex (\<lambda>d. d = 0) retrans
              then Inl (GooseConfig ''retransmission interval is not positive'')
              else let cfg' = (if pc_go_id cfg = [] then cfg\<lparr>pc_go_id := pc_go_cb_ref cfg\<rparr> else cfg);
                       st = \<lparr>ps_st_num = 0, ps_sq_num = 0, ps_test = pc_test cfg',
                             ps_nds_com = pc_nds_com cfg', ps_t = None, ps_generation = 0\<rparr>
                   in Inr \<lparr>pb_cfg = cfg', pb_retrans = retrans, pb_state = st, pb_closed = False,
                           pb_tasks = []\<rparr>)"

definition set_test :: "bool \<Rightarrow> publisher \<Rightarrow> publisher" where
  "set_test b p = p\<lparr>pb_state := (pb_state p)\<lparr>ps_test := b\<rparr>\<rparr>"

definition set_nds_com :: "bool \<Rightarrow> publisher \<Rightarrow> publisher" where
  "set_nds_com b p = p\<lparr>pb_state := (pb_state p)\<lparr>ps_nds_com := b\<rparr>\<rparr>"

definition tatl :: "publisher \<Rightarrow> nat \<Rightarrow> u32" where
  "tatl p n =
     (let d = pb_retrans p ! min n (length (pb_retrans p) - 1)
      in of_nat (min (max (2 * as_millis d) 1) (2 ^ 32 - 1)))"

definition goose_frame :: "publisher_config \<Rightarrow> goose_message \<Rightarrow> frame" where
  "goose_frame cfg msg = \<lparr>fr_src = pc_src_mac cfg, fr_dst = pc_dst_mac cfg,
     fr_ether_type = ETHER_TYPE_GOOSE, fr_vlan = pc_vlan cfg, fr_payload = goose_marshal msg\<rparr>"

definition publisher_send ::
    "(frame \<Rightarrow> 's \<Rightarrow> eth_error + 's) \<Rightarrow> publisher \<Rightarrow> goose_message \<Rightarrow> 's \<Rightarrow> goose_error + 's" where
  "publisher_send put p msg s = map_err GooseEthernet (put (goose_frame (pb_cfg p) msg) s)"

text \<open>The message \<open>publish_state\<close> builds.\<close>

definition announced :: "publisher \<Rightarrow> mms_value list \<Rightarrow> bool \<Rightarrow> system_time \<Rightarrow> goose_message" where
  "announced p values state_change now =
     (let st = pb_state p; cfg = pb_cfg p;
          n = (if state_change then next_num (ps_st_num st)
               else if ps_st_num st = 0 then 1 else ps_st_num st);
          t = (case (state_change, ps_t st) of (False, Some t) \<Rightarrow> t | _ \<Rightarrow> now)
      in goose_message_default\<lparr>gm_cb_ref := pc_go_cb_ref cfg, gm_dat_set := pc_dat_set cfg,
           gm_id := pc_go_id cfg, gm_tatl := tatl p 0, gm_t := Some t, gm_st_num := n,
           gm_sq_num := 0, gm_conf_rev := pc_conf_rev cfg, gm_test := ps_test st,
           gm_nds_com := ps_nds_com st, gm_entries := of_nat (length values), gm_values := values,
           gm_app_id := pc_app_id cfg, gm_time_quality := pc_time_quality cfg\<rparr>)"

definition widest :: "goose_message \<Rightarrow> goose_message" where
  "widest msg = msg\<lparr>gm_sq_num := 0xffffffff, gm_tatl := 0xffffffff\<rparr>"

definition publish_state ::
    "(frame \<Rightarrow> 's \<Rightarrow> eth_error + 's) \<Rightarrow> mms_value list \<Rightarrow> bool \<Rightarrow> system_time \<Rightarrow> publisher \<Rightarrow> 's
      \<Rightarrow> (goose_error + unit) \<times> publisher \<times> 's" where
  "publish_state put values state_change now p s =
     (if pb_closed p then (Inl GooseClosed, p, s)
      else let msg = announced p values state_change now;
               n = length (goose_marshal (widest msg))
           in if n > MAX_PAYLOAD then (Inl (GooseFrameTooLarge n (length values)), p, s)
              else let g = ps_generation (pb_state p) + 1;
                       p' = p\<lparr>pb_state := (pb_state p)\<lparr>ps_st_num := gm_st_num msg, ps_sq_num := 0,
                              ps_t := gm_t msg, ps_generation := g\<rparr>\<rparr>
                   in case publisher_send put p' msg s of
                        Inl e \<Rightarrow> (Inl e, p', s)
                      | Inr s' \<Rightarrow> (Inr (), p'\<lparr>pb_tasks := pb_tasks p' @
                          [\<lparr>rt_msg = msg, rt_generation = g, rt_turn = 0, rt_awake = False\<rparr>]\<rparr>, s'))"

definition publish where "publish put values now p s = publish_state put values True now p s"
definition refresh where "refresh put values now p s = publish_state put values False now p s"

definition publisher_state :: "publisher \<Rightarrow> u32 \<times> u32" where
  "publisher_state p = (ps_st_num (pb_state p), ps_sq_num (pb_state p))"

definition publisher_close :: "publisher \<Rightarrow> publisher" where
  "publisher_close p = p\<lparr>pb_closed := True\<rparr>"

section \<open>Retransmission\<close>

definition drop_nth :: "nat \<Rightarrow> 'a list \<Rightarrow> 'a list" where
  "drop_nth k xs = take k xs @ drop (Suc k) xs"

definition retransmission :: "publisher \<Rightarrow> retrans_task \<Rightarrow> goose_message" where
  "retransmission p t = (rt_msg t)\<lparr>gm_sq_num := next_num (gm_sq_num (rt_msg t)),
     gm_tatl := tatl p (rt_turn t + 1)\<rparr>"

text \<open>From the end of the sleep to the state lock.\<close>

definition task_wake :: "nat \<Rightarrow> publisher \<Rightarrow> publisher" where
  "task_wake k p =
     (if pb_closed p then p\<lparr>pb_tasks := drop_nth k (pb_tasks p)\<rparr>
      else let t = pb_tasks p ! k
           in p\<lparr>pb_tasks := (pb_tasks p)[k := t\<lparr>rt_msg := retransmission p t, rt_awake := True\<rparr>]\<rparr>)"

text \<open>Under the state lock, to the next sleep. The flag tells whether a frame was sent.\<close>

definition task_fire ::
    "(frame \<Rightarrow> 's \<Rightarrow> eth_error + 's) \<Rightarrow> nat \<Rightarrow> publisher \<Rightarrow> 's \<Rightarrow> bool \<times> publisher \<times> 's" where
  "task_fire put k p s =
     (let t = pb_tasks p ! k in
      if ps_generation (pb_state p) \<noteq> rt_generation t
      then (False, p\<lparr>pb_tasks := drop_nth k (pb_tasks p)\<rparr>, s)
      else let p' = p\<lparr>pb_state := (pb_state p)\<lparr>ps_sq_num := gm_sq_num (rt_msg t)\<rparr>\<rparr>
           in case publisher_send put p' (rt_msg t) s of
                Inl e \<Rightarrow> (False, p'\<lparr>pb_tasks := drop_nth k (pb_tasks p)\<rparr>, s)
              | Inr s' \<Rightarrow> (True, p'\<lparr>pb_tasks := (pb_tasks p)[k := t\<lparr>rt_turn := rt_turn t + 1, rt_awake := False\<rparr>]\<rparr>, s'))"

section \<open>Runs\<close>

text \<open>
  The events of a publisher in the order they happen. \<open>pub_exec\<close> gives the messages an event
  puts on the interface; a wake or fire of a task that is not there, or not at that point, does
  nothing.
\<close>

datatype pub_event =
    Publish "mms_value list" system_time
  | Refresh "mms_value list" system_time
  | SetTest bool
  | SetNdsCom bool
  | Wake nat
  | Fire nat
  | Cancel nat
  | Close

fun pub_exec :: "(frame \<Rightarrow> 's \<Rightarrow> eth_error + 's) \<Rightarrow> pub_event \<Rightarrow> publisher \<Rightarrow> 's
    \<Rightarrow> goose_message list \<times> publisher \<times> 's" where
  "pub_exec put (Publish vs now) p s =
     (case publish put vs now p s of
        (Inr _, p', s') \<Rightarrow> ([announced p vs True now], p', s') | (Inl _, p', s') \<Rightarrow> ([], p', s'))"
| "pub_exec put (Refresh vs now) p s =
     (case refresh put vs now p s of
        (Inr _, p', s') \<Rightarrow> ([announced p vs False now], p', s') | (Inl _, p', s') \<Rightarrow> ([], p', s'))"
| "pub_exec put (SetTest b) p s = ([], set_test b p, s)"
| "pub_exec put (SetNdsCom b) p s = ([], set_nds_com b p, s)"
| "pub_exec put (Wake k) p s =
     (if k < length (pb_tasks p) \<and> \<not> rt_awake (pb_tasks p ! k) then ([], task_wake k p, s) else ([], p, s))"
| "pub_exec put (Fire k) p s =
     (if k < length (pb_tasks p) \<and> rt_awake (pb_tasks p ! k) then
        (case task_fire put k p s of (sent, p', s') \<Rightarrow> (if sent then [rt_msg (pb_tasks p ! k)] else [], p', s'))
      else ([], p, s))"
| "pub_exec put (Cancel k) p s = ([], p\<lparr>pb_tasks := drop_nth k (pb_tasks p)\<rparr>, s)"
| "pub_exec put Close p s = ([], publisher_close p, s)"

fun pub_run :: "(frame \<Rightarrow> 's \<Rightarrow> eth_error + 's) \<Rightarrow> pub_event list \<Rightarrow> publisher \<Rightarrow> 's
    \<Rightarrow> goose_message list \<times> publisher \<times> 's" where
  "pub_run put [] p s = ([], p, s)"
| "pub_run put (ev # evs) p s =
     (case pub_exec put ev p s of (ms, p', s') \<Rightarrow>
        case pub_run put evs p' s' of (ms', p'', s'') \<Rightarrow> (ms @ ms', p'', s''))"

section \<open>The stream on the wire\<close>

text \<open>
  A retransmission repeats the message before it with the next sequence number; everything
  else that goes on the wire starts a sequence at zero.
\<close>

definition successor :: "goose_message \<Rightarrow> goose_message \<Rightarrow> bool" where
  "successor a b \<longleftrightarrow> b = a\<lparr>gm_sq_num := next_num (gm_sq_num a), gm_tatl := gm_tatl b\<rparr>"

definition follows :: "goose_message \<Rightarrow> goose_message \<Rightarrow> bool" where
  "follows a b \<longleftrightarrow> successor a b \<or> gm_sq_num b = 0"

definition stream_ok :: "goose_message list \<Rightarrow> bool" where
  "stream_ok ms \<longleftrightarrow> (ms \<noteq> [] \<longrightarrow> gm_sq_num (hd ms) = 0) \<and> successively follows ms"

text \<open>The task of the current generation holds the last message of the stream or its successor.\<close>

definition task_ok :: "publisher \<Rightarrow> goose_message list \<Rightarrow> retrans_task \<Rightarrow> bool" where
  "task_ok p tr t \<longleftrightarrow> rt_generation t \<le> ps_generation (pb_state p) \<and>
     (rt_generation t = ps_generation (pb_state p) \<longrightarrow> tr \<noteq> [] \<and>
        (if rt_awake t then successor (last tr) (rt_msg t) else rt_msg t = last tr))"

text \<open>\<open>Q\<close> is what every announced message satisfies when it is at its widest.\<close>

definition pub_inv ::
    "(goose_message \<Rightarrow> bool) \<Rightarrow> nat \<Rightarrow> publisher \<Rightarrow> goose_message list \<Rightarrow> bool" where
  "pub_inv Q n p tr \<longleftrightarrow> unat (ps_generation (pb_state p)) \<le> n \<and>
     distinct (map rt_generation (pb_tasks p)) \<and> (\<forall>t \<in> set (pb_tasks p). task_ok p tr t) \<and>
     stream_ok tr \<and> (\<forall>m \<in> set tr. Q (widest m))"

lemma stream_ok_snoc:
  "stream_ok (tr @ [m]) \<longleftrightarrow> stream_ok tr \<and> (if tr = [] then gm_sq_num m = 0 else follows (last tr) m)"
  by (auto simp: stream_ok_def successively_append_iff)

lemma widest_successor: "successor a b \<Longrightarrow> widest b = widest a"
  unfolding successor_def widest_def by (drule arg_cong [of _ _ "\<lambda>m. m\<lparr>gm_sq_num := 0xffffffff, gm_tatl := 0xffffffff\<rparr>"]) simp

lemma announced_sel [simp]:
  "gm_sq_num (announced p vs c now) = 0"
  "gm_st_num (announced p vs True now) = next_num (ps_st_num (pb_state p))"
  "gm_st_num (announced p vs False now) = (if ps_st_num (pb_state p) = 0 then 1 else ps_st_num (pb_state p))"
  "gm_t (announced p vs True now) = Some now"
  "gm_values (announced p vs c now) = vs"
  "gm_entries (announced p vs c now) = of_nat (length vs)"
  "gm_cb_ref (announced p vs c now) = pc_go_cb_ref (pb_cfg p)"
  "gm_dat_set (announced p vs c now) = pc_dat_set (pb_cfg p)"
  "gm_id (announced p vs c now) = pc_go_id (pb_cfg p)"
  "gm_app_id (announced p vs c now) = pc_app_id (pb_cfg p)"
  by (simp_all add: announced_def Let_def)

lemma set_drop_nth: "x \<in> set (drop_nth k xs) \<Longrightarrow> x \<in> set xs"
  by (auto simp: drop_nth_def dest: in_set_takeD in_set_dropD)

lemma distinct_drop_nth: "distinct (map f xs) \<Longrightarrow> distinct (map f (drop_nth k xs))"
proof -
  assume d: "distinct (map f xs)"
  have "set (take k (map f xs)) \<inter> set (drop (Suc k) (map f xs)) = {}"
    using d set_drop_subset_set_drop [of k "Suc k" "map f xs"]
      distinct_append [of "take k (map f xs)" "drop k (map f xs)"] by auto
  moreover have "map f (drop_nth k xs) = take k (map f xs) @ drop (Suc k) (map f xs)"
    by (simp add: drop_nth_def take_map drop_map)
  ultimately show ?thesis using d by (simp del: set_map)
qed

lemma pub_inv_drop:
  "pub_inv Q n p tr \<Longrightarrow> pub_inv Q (Suc n) (p\<lparr>pb_tasks := drop_nth k (pb_tasks p)\<rparr>) tr"
  by (auto simp: pub_inv_def task_ok_def distinct_drop_nth dest: set_drop_nth)

lemma pub_inv_set:
  assumes "pub_inv Q n p tr" "pb_tasks p' = pb_tasks p"
    "ps_generation (pb_state p') = ps_generation (pb_state p)"
  shows "pub_inv Q (Suc n) p' tr"
  using assms by (auto simp: pub_inv_def task_ok_def)

text \<open>A new generation leaves the old tasks behind.\<close>

lemma task_ok_outdated:
  assumes "task_ok p tr t" "ps_generation (pb_state p') = ps_generation (pb_state p) + 1"
    "unat (ps_generation (pb_state p)) < 2 ^ 64 - 1"
  shows "task_ok p' tr' t" "rt_generation t \<noteq> ps_generation (pb_state p')"
proof -
  have "unat (ps_generation (pb_state p) + 1) = unat (ps_generation (pb_state p)) + 1"
    using assms(3) by (simp add: unat_word_ariths)
  then have "ps_generation (pb_state p) < ps_generation (pb_state p')"
    using assms(2) by (simp add: word_less_nat_alt)
  with assms(1) show "rt_generation t \<noteq> ps_generation (pb_state p')" "task_ok p' tr' t"
    by (auto simp: task_ok_def)
qed

lemma publish_state_inv:
  assumes inv: "pub_inv Q n p tr" and n: "Suc n < 2 ^ 64"
    and r: "publish_state put vs c now p s = (r, p', s')"
    and Q: "r = Inr () \<Longrightarrow> Q (widest (announced p vs c now))"
  shows "pub_inv Q (Suc n) p' (tr @ (case r of Inl _ \<Rightarrow> [] | Inr _ \<Rightarrow> [announced p vs c now]))"
proof (cases "pb_closed p \<or> length (goose_marshal (widest (announced p vs c now))) > MAX_PAYLOAD")
  case True
  with r have "p' = p" "\<exists>e. r = Inl e" by (auto simp: publish_state_def Let_def split: if_splits)
  with inv show ?thesis by (auto simp: pub_inv_def)
next
  case False
  let ?m = "announced p vs c now" and ?g = "ps_generation (pb_state p) + 1"
  have g: "unat (ps_generation (pb_state p)) < 2 ^ 64 - 1" using inv n by (simp add: pub_inv_def)
  then have un: "unat ?g \<le> Suc n"
    using inv by (simp add: pub_inv_def unat_word_ariths)
  have old: "\<forall>t \<in> set (pb_tasks p). task_ok q tr' t \<and> rt_generation t \<noteq> ?g"
    if "ps_generation (pb_state q) = ?g" for q tr'
    using inv task_ok_outdated [OF _ that g] that by (auto simp: pub_inv_def)
  show ?thesis
  proof (cases r)
    case (Inl e)
    with r False have "pb_tasks p' = pb_tasks p" "ps_generation (pb_state p') = ?g"
      by (auto simp: publish_state_def Let_def split: sum.splits)
    with old [of p'] un inv Inl show ?thesis by (auto simp: pub_inv_def)
  next
    case (Inr u)
    with r False have p': "pb_tasks p' = pb_tasks p @
        [\<lparr>rt_msg = ?m, rt_generation = ?g, rt_turn = 0, rt_awake = False\<rparr>]" "ps_generation (pb_state p') = ?g"
      by (auto simp: publish_state_def Let_def split: sum.splits)
    have "stream_ok (tr @ [?m])" using inv by (auto simp: stream_ok_snoc pub_inv_def follows_def)
    with old [of p' "tr @ [?m]"] un inv Inr p' Q show ?thesis by (auto simp: pub_inv_def task_ok_def)
  qed
qed

lemma successor_retransmission: "successor (rt_msg t) (retransmission p t)"
  by (simp add: successor_def retransmission_def)

lemma set_list_update_cases: "x \<in> set (xs[k := y]) \<Longrightarrow> x \<in> set xs \<or> x = y"
  using set_update_subset_insert [of xs k y] by auto

lemma task_wake_inv:
  assumes inv: "pub_inv Q n p tr" and k: "k < length (pb_tasks p)" "\<not> rt_awake (pb_tasks p ! k)"
  shows "pub_inv Q (Suc n) (task_wake k p) tr"
proof (cases "pb_closed p")
  case True
  with pub_inv_drop [OF inv] show ?thesis by (simp add: task_wake_def)
next
  case False
  let ?t = "pb_tasks p ! k"
  define t' where "t' = ?t\<lparr>rt_msg := retransmission p ?t, rt_awake := True\<rparr>"
  define p' where "p' = p\<lparr>pb_tasks := (pb_tasks p)[k := t']\<rparr>"
  have w: "task_wake k p = p'" using False by (simp add: task_wake_def p'_def t'_def Let_def)
  have ok: "task_ok p tr ?t" using inv k by (simp add: pub_inv_def)
  have "task_ok p' tr t'"
    using ok k successor_retransmission [of ?t p] by (auto simp: task_ok_def t'_def p'_def)
  moreover have "map rt_generation (pb_tasks p') = map rt_generation (pb_tasks p)"
    using k by (simp add: p'_def t'_def map_update list_update_same_conv)
  moreover have "task_ok p' tr t" if "t \<in> set (pb_tasks p)" for t
    using inv that by (auto simp: pub_inv_def task_ok_def p'_def)
  ultimately show ?thesis
    unfolding w using inv set_list_update_cases [of _ "pb_tasks p" k t']
    by (auto simp: pub_inv_def) (auto simp: p'_def)
qed

text \<open>Only the task of the current generation sends, and it is unique.\<close>

lemma task_fire_inv:
  assumes inv: "pub_inv Q n p tr" and k: "k < length (pb_tasks p)" "rt_awake (pb_tasks p ! k)"
    and r: "task_fire put k p s = (sent, p', s')"
  shows "pub_inv Q (Suc n) p' (tr @ (if sent then [rt_msg (pb_tasks p ! k)] else []))"
proof (cases sent)
  case False
  with r have "p' = p\<lparr>pb_tasks := drop_nth k (pb_tasks p)\<rparr> \<or>
      p' = p\<lparr>pb_state := (pb_state p)\<lparr>ps_sq_num := gm_sq_num (rt_msg (pb_tasks p ! k))\<rparr>,
             pb_tasks := drop_nth k (pb_tasks p)\<rparr>"
    by (auto simp: task_fire_def Let_def split: if_splits sum.splits)
  with pub_inv_drop [OF inv, of k] False show ?thesis
    by (auto simp: pub_inv_def task_ok_def)
next
  case True
  let ?t = "pb_tasks p ! k"
  define t' where "t' = ?t\<lparr>rt_turn := rt_turn ?t + 1, rt_awake := False\<rparr>"
  from True r have g: "rt_generation ?t = ps_generation (pb_state p)"
    and p': "pb_tasks p' = (pb_tasks p)[k := t']" "ps_generation (pb_state p') = ps_generation (pb_state p)"
    by (auto simp: task_fire_def Let_def t'_def split: if_splits sum.splits)
  have d: "distinct (map rt_generation (pb_tasks p))" and tr: "stream_ok tr" "\<forall>m \<in> set tr. Q (widest m)"
    using inv by (simp_all add: pub_inv_def)
  have "task_ok p tr ?t" using inv k by (simp add: pub_inv_def)
  with g k have suc: "tr \<noteq> []" "successor (last tr) (rt_msg ?t)" by (auto simp: task_ok_def)
  have "task_ok p' (tr @ [rt_msg ?t]) t" if t: "t \<in> set (pb_tasks p')" for t
  proof (cases "rt_generation t = ps_generation (pb_state p)")
    case True
    from t obtain j where j: "j < length (pb_tasks p)" "t = (pb_tasks p)[k := t'] ! j"
      unfolding p' by (auto simp: in_set_conv_nth)
    then have "rt_generation t = map rt_generation (pb_tasks p) ! j"
      by (cases "j = k") (simp_all add: t'_def)
    with True g k(1) have "map rt_generation (pb_tasks p) ! j = map rt_generation (pb_tasks p) ! k" by simp
    with nth_eq_iff_index_eq [OF d, of j k] j(1) k(1) have "j = k" by simp
    with j k show ?thesis by (simp add: task_ok_def t'_def p' g)
  next
    case False
    with t inv p' g show ?thesis by (auto simp: pub_inv_def task_ok_def t'_def dest!: set_list_update_cases)
  qed
  moreover have "map rt_generation (pb_tasks p') = map rt_generation (pb_tasks p)"
    using k p' by (simp add: t'_def map_update list_update_same_conv)
  moreover have "stream_ok (tr @ [rt_msg ?t])"
    using suc tr by (simp add: stream_ok_snoc follows_def)
  moreover have "Q (widest (rt_msg ?t))"
    using suc tr widest_successor [OF suc(2)] by simp
  ultimately show ?thesis using True inv d p' tr by (auto simp: pub_inv_def)
qed

text \<open>The events whose announcements satisfy \<open>Q\<close> in every state of a publisher with this configuration.\<close>

lemma pub_exec_inv:
  assumes inv: "pub_inv Q n p tr" and n: "Suc n < 2 ^ 64" and r: "pub_exec put ev p s = (ms, p', s')"
    and Q: "\<And>vs c now. ev = Publish vs now \<and> c \<or> ev = Refresh vs now \<and> \<not> c \<Longrightarrow>
      length (goose_marshal (widest (announced p vs c now))) \<le> MAX_PAYLOAD \<Longrightarrow> Q (widest (announced p vs c now))"
  shows "pub_inv Q (Suc n) p' (tr @ ms)"
proof (cases ev)
  case (Publish vs now)
  obtain x where x: "publish_state put vs True now p s = (x, p', s')"
    "ms = (case x of Inl _ \<Rightarrow> [] | Inr _ \<Rightarrow> [announced p vs True now])"
    using r Publish by (auto simp: publish_def split: prod.splits sum.splits)
  have "Q (widest (announced p vs True now))" if "x = Inr ()"
    using x(1) that Publish by (intro Q) (auto simp: publish_state_def Let_def split: if_splits sum.splits)
  with publish_state_inv [OF inv n x(1)] x(2) show ?thesis by simp
next
  case (Refresh vs now)
  obtain x where x: "publish_state put vs False now p s = (x, p', s')"
    "ms = (case x of Inl _ \<Rightarrow> [] | Inr _ \<Rightarrow> [announced p vs False now])"
    using r Refresh by (auto simp: refresh_def split: prod.splits sum.splits)
  have "Q (widest (announced p vs False now))" if "x = Inr ()"
    using x(1) that Refresh by (intro Q) (auto simp: publish_state_def Let_def split: if_splits sum.splits)
  with publish_state_inv [OF inv n x(1)] x(2) show ?thesis by simp
next
  case (Wake k)
  with r task_wake_inv [OF inv, of k] pub_inv_set [OF inv] show ?thesis by (auto split: if_splits)
next
  case (Fire k)
  with r task_fire_inv [OF inv, of k put s] pub_inv_set [OF inv]
  show ?thesis by (auto split: if_splits prod.splits)
next
  case (Cancel k)
  with r pub_inv_drop [OF inv] show ?thesis by auto
qed (use r in \<open>auto simp: set_test_def set_nds_com_def publisher_close_def intro!: pub_inv_set [OF inv]\<close>)

lemma pub_exec_config:
  "pub_exec put ev p s = (ms, p', s') \<Longrightarrow> pb_cfg p' = pb_cfg p \<and> pb_retrans p' = pb_retrans p"
  by (cases ev) (auto simp: publish_def refresh_def publish_state_def set_test_def set_nds_com_def task_wake_def
      task_fire_def publisher_close_def Let_def split: if_splits prod.splits sum.splits)

lemma pub_run_inv:
  assumes "pub_inv Q n p tr" "n + length evs < 2 ^ 64" "pub_run put evs p s = (ms, p', s')"
    and Q: "\<And>q vs c now. \<lbrakk>pb_cfg q = pb_cfg p; pb_retrans q = pb_retrans p;
        Publish vs now \<in> set evs \<or> Refresh vs now \<in> set evs;
        length (goose_marshal (widest (announced q vs c now))) \<le> MAX_PAYLOAD\<rbrakk> \<Longrightarrow> Q (widest (announced q vs c now))"
  shows "pub_inv Q (n + length evs) p' (tr @ ms)"
  using assms
proof (induction evs arbitrary: n p tr s ms)
  case (Cons ev evs)
  from Cons.prems(3) obtain ms1 p1 s1 ms2 where
    e: "pub_exec put ev p s = (ms1, p1, s1)" "pub_run put evs p1 s1 = (ms2, p', s')" "ms = ms1 @ ms2"
    by (auto split: prod.splits)
  have "pub_inv Q (Suc n) p1 (tr @ ms1)"
    by (rule pub_exec_inv [OF Cons.prems(1) _ e(1)]) (use Cons.prems(2,4) in auto)
  from Cons.IH [OF this _ e(2)] Cons.prems(2,4) pub_exec_config [OF e(1)] e(3) show ?case by auto
qed simp

section \<open>Sizes\<close>

lemma length_size_mono: "m \<le> n \<Longrightarrow> length_size m \<le> length_size n"
  by (simp add: length_size_def)

lemma uint_size_u32: "uint_size (ucast (v :: u32)) \<le> 5" "uint_size (ucast (0xffffffff :: u32)) = 5"
proof -
  have "unat (ucast v :: u64) < 2 ^ (8 * 4 + 7)"
    using unat_word_bound [of v] unat_ucast_u32 [of v] by simp
  from uint_size_loop_spec [OF this, of 1] show "uint_size (ucast v) \<le> 5" by (auto simp: uint_size_def)
  show "uint_size (ucast (0xffffffff :: u32)) = 5" by code_simp
qed

lemma length_goose_marshal:
  "length (goose_marshal m) = 8 + elem_size (cons goose_pdu_tag (goose_fields m))"
proof -
  have "list_all elem_tags_ok (List.map_filter data_element (gm_values m))"
    using elem_tags_ok_data by (auto simp: list_all_iff List.map_filter_def)
  then have "elem_tags_ok (cons goose_pdu_tag (goose_fields m))"
    by (simp add: goose_fields_def goose_pdu_tag_def)
  from length_append_elem [OF this] show ?thesis by (simp add: goose_marshal_def Let_def)
qed

text \<open>The counters are the only fields of a stream that grow, and the widest message bounds them.\<close>

lemma goose_marshal_widest: "length (goose_marshal m) \<le> length (goose_marshal (widest m))"
proof -
  have t: "message_time (widest m) = message_time m" by (cases "gm_t m") (simp_all add: message_time_def widest_def)
  have u: "elem_size (uint_elem t (ucast (v :: u32))) \<le> elem_size (uint_elem t (ucast (0xffffffff :: u32)))" for t v
    using uint_size_u32(1) [of v] length_size_mono [OF uint_size_u32(1) [of v]] uint_size_u32(2)
    by (simp add: uint_elem_def prim_def)
  have "sum_list (map elem_size (goose_fields m)) \<le> sum_list (map elem_size (goose_fields (widest m)))"
    using u [of "context_primitive 1" "gm_tatl m"] u [of "context_primitive 6" "gm_sq_num m"]
    by (simp add: goose_fields_def t) (simp add: widest_def)
  from this length_size_mono [OF this] show ?thesis
    by (simp add: length_goose_marshal cons_def goose_pdu_tag_def Let_def)
qed

lemma widest_widest [simp]: "widest (widest m) = widest m"
  by (simp add: widest_def)

section \<open>A publisher's runs\<close>

lemma publisher_new_inv: "publisher_new cfg = Inr p \<Longrightarrow> pub_inv Q 0 p []"
  by (auto simp: publisher_new_def pub_inv_def stream_ok_def Let_def split: if_splits)

lemma pub_run_stream:
  assumes "publisher_new cfg = Inr p" "pub_run put evs p s = (ms, p', s')" "length evs < 2 ^ 64"
  shows "stream_ok ms" "\<forall>m \<in> set ms. length (goose_marshal m) \<le> MAX_PAYLOAD"
proof -
  have "pub_inv (\<lambda>m. length (goose_marshal m) \<le> MAX_PAYLOAD) (0 + length evs) p' ([] @ ms)"
    by (rule pub_run_inv [OF publisher_new_inv [OF assms(1)] _ assms(2)]) (use assms(3) in auto)
  then have "stream_ok ms" "\<forall>m \<in> set ms. length (goose_marshal (widest m)) \<le> MAX_PAYLOAD"
    by (simp_all add: pub_inv_def)
  then show "stream_ok ms" "\<forall>m \<in> set ms. length (goose_marshal m) \<le> MAX_PAYLOAD"
    using goose_marshal_widest order_trans by blast+
qed

text \<open>A small message passes the size check.\<close>

definition small_values :: "publisher \<Rightarrow> mms_value list \<Rightarrow> bool" where
  "small_values p vs \<longleftrightarrow> list_all data_ok vs \<and>
     215 + length (pc_go_cb_ref (pb_cfg p)) + length (pc_dat_set (pb_cfg p)) + length (pc_go_id (pb_cfg p)) +
       sum_list (map size_bound vs) \<le> MAX_PAYLOAD"

lemma small_values_fit:
  assumes "small_values p vs"
  shows "\<not> MAX_PAYLOAD < length (goose_marshal (widest (announced p vs c now)))"
proof -
  have "length (goose_marshal (widest (announced p vs c now))) \<le>
      215 + length (pc_go_cb_ref (pb_cfg p)) + length (pc_dat_set (pb_cfg p)) + length (pc_go_id (pb_cfg p)) +
        sum_list (map size_bound vs)"
    using goose_marshal_bound [of "widest (announced p vs c now)"] assms
    by (simp add: widest_def announced_def small_values_def Let_def)
  then show ?thesis using assms by (simp add: small_values_def)
qed

end
