(* ===== verification/Goose_Subscriber.thy ===== *)
theory Goose_Subscriber
  imports Goose_Message "HOL-Library.AList"
begin

text \<open>
  The GOOSE subscriber: \<open>src/goose/subscriber.rs\<close>. The hash maps are association lists with one
  entry per control block; instants and durations are nanoseconds. A turn of the receive thread
  is \<open>on_frame\<close>, a turn of the supervision thread \<open>supervise_turn\<close>; the time of the turn is an
  argument.
\<close>

type_synonym instant = nat

section \<open>Filters\<close>

record goose_filter =
  gf_app_id :: u16
  gf_go_cb_ref :: rust_string

definition filter_any :: goose_filter where
  "filter_any = \<lparr>gf_app_id = 0, gf_go_cb_ref = []\<rparr>"

definition filter_app_id :: "u16 \<Rightarrow> goose_filter" where
  "filter_app_id a = \<lparr>gf_app_id = a, gf_go_cb_ref = []\<rparr>"

definition filter_matches :: "goose_filter \<Rightarrow> goose_message \<Rightarrow> bool" where
  "filter_matches f m =
     (if gf_app_id f \<noteq> 0 \<and> gm_app_id m \<noteq> gf_app_id f then False
      else if gf_go_cb_ref f \<noteq> [] \<and> gm_cb_ref m \<noteq> gf_go_cb_ref f then False
      else True)"

section \<open>Sequence tracking\<close>

record seq_state =
  sq_st_num :: u32
  sq_sq_num :: u32
  sq_tatl :: duration
  sq_arrival :: instant

type_synonym sequence_tracker = "(rust_string \<times> seq_state) list"

definition tracker_new :: sequence_tracker where
  "tracker_new = []"

definition tatl_duration :: "goose_message \<Rightarrow> duration" where
  "tatl_duration m = from_millis (unat (gm_tatl m))"

text \<open>What is irregular about \<open>m\<close> after the state \<open>st\<close>.\<close>

definition irregular :: "seq_state \<Rightarrow> goose_message \<Rightarrow> instant \<Rightarrow> anomalies" where
  "irregular st m now =
     (let wrapped = (sq_st_num st = 0xffffffff \<and> gm_st_num m = 1)
      in no_anomalies\<lparr>st_num_regressed := gm_st_num m < sq_st_num st \<and> \<not> wrapped,
           sq_num_gap := (if gm_st_num m = sq_st_num st then gm_sq_num m \<noteq> next_num (sq_sq_num st)
                          else gm_sq_num m \<noteq> 0),
           an_stale := sq_tatl st \<noteq> 0 \<and> now - sq_arrival st > sq_tatl st\<rparr>)"

definition observe :: "goose_message \<Rightarrow> instant \<Rightarrow> sequence_tracker \<Rightarrow> anomalies \<times> sequence_tracker" where
  "observe m now tr =
     (let seen = \<lparr>sq_st_num = gm_st_num m, sq_sq_num = gm_sq_num m, sq_tatl = tatl_duration m,
                  sq_arrival = now\<rparr>
      in (case map_of tr (gm_cb_ref m) of Some st \<Rightarrow> irregular st m now | None \<Rightarrow> no_anomalies,
          AList.update (gm_cb_ref m) seen tr))"

definition tracked :: "sequence_tracker \<Rightarrow> nat" where
  "tracked tr = length tr"

section \<open>Supervision\<close>

record deadlines =
  dl_blocks :: "(rust_string \<times> (instant \<times> bool)) list"
  dl_stopped :: bool

definition deadlines_new :: deadlines where
  "deadlines_new = \<lparr>dl_blocks = [], dl_stopped = False\<rparr>"

definition arrived :: "rust_string \<Rightarrow> duration \<Rightarrow> instant \<Rightarrow> deadlines \<Rightarrow> deadlines" where
  "arrived cb t now d =
     (if t = 0 then d else d\<lparr>dl_blocks := AList.update cb (now + t, False) (dl_blocks d)\<rparr>)"

definition supervision_stop :: "deadlines \<Rightarrow> deadlines" where
  "supervision_stop d = d\<lparr>dl_stopped := True\<rparr>"

text \<open>
  One turn of the loop in \<open>run\<close>: it ends, or reports the blocks that are due, or waits for the
  next deadline or for a message.
\<close>

datatype supervision_turn =
    Stopped
  | Expired "rust_string list"
  | WaitUntil instant
  | WaitMessage

definition is_due :: "instant \<Rightarrow> rust_string \<times> (instant \<times> bool) \<Rightarrow> bool" where
  "is_due now b = (case b of (r, at, fired) \<Rightarrow> \<not> fired \<and> at \<le> now)"

definition supervise_turn :: "instant \<Rightarrow> deadlines \<Rightarrow> supervision_turn \<times> deadlines" where
  "supervise_turn now d =
     (if dl_stopped d then (Stopped, d)
      else let due = map fst (filter (is_due now) (dl_blocks d));
               d' = d\<lparr>dl_blocks := map (\<lambda>b. if is_due now b then (fst b, fst (snd b), True) else b) (dl_blocks d)\<rparr>
           in if due \<noteq> [] then (Expired due, d')
              else let pending = map (\<lambda>b. fst (snd b)) (filter (\<lambda>b. \<not> snd (snd b)) (dl_blocks d))
                   in if pending = [] then (WaitMessage, d') else (WaitUntil (Min (set pending)), d'))"

section \<open>Receiving\<close>

record subscription =
  su_filter :: goose_filter
  su_stopped :: bool
  su_tracker :: sequence_tracker
  su_supervision :: "deadlines option"

definition subscribe :: "goose_filter \<Rightarrow> subscription" where
  "subscribe f = \<lparr>su_filter = f, su_stopped = False, su_tracker = tracker_new, su_supervision = None\<rparr>"

definition subscribe_supervised :: "goose_filter \<Rightarrow> subscription" where
  "subscribe_supervised f = \<lparr>su_filter = f, su_stopped = False, su_tracker = tracker_new,
     su_supervision = Some deadlines_new\<rparr>"

definition subscription_stop :: "subscription \<Rightarrow> subscription" where
  "subscription_stop s = s\<lparr>su_stopped := True, su_supervision := map_option supervision_stop (su_supervision s)\<rparr>"

text \<open>
  A turn of the receive loop on a frame: \<open>None\<close> when the thread returns; otherwise the message
  given to the callback, if there is one, and the new state.
\<close>

definition on_frame :: "instant \<Rightarrow> frame \<Rightarrow> subscription \<Rightarrow> (goose_message option \<times> subscription) option" where
  "on_frame now f s =
     (if su_stopped s then None
      else if fr_ether_type f \<noteq> ETHER_TYPE_GOOSE then Some (None, s)
      else case goose_parse (fr_payload f) of
        Inl e \<Rightarrow> Some (None, s)
      | Inr m \<Rightarrow>
          if \<not> filter_matches (su_filter s) m then Some (None, s)
          else case observe m now (su_tracker s) of (a, tr) \<Rightarrow>
            Some (Some (m\<lparr>gm_anomalies := a\<lparr>entries_mismatch := unat (gm_entries m) \<noteq> length (gm_values m)\<rparr>\<rparr>),
              s\<lparr>su_tracker := tr,
                su_supervision := map_option (arrived (gm_cb_ref m) (tatl_duration m) now) (su_supervision s)\<rparr>))"

text \<open>The callbacks of a sequence of frames with their arrival times.\<close>

fun on_frames :: "(instant \<times> frame) list \<Rightarrow> subscription \<Rightarrow> goose_message list \<times> subscription" where
  "on_frames [] s = ([], s)"
| "on_frames ((now, f) # fs) s =
     (case on_frame now f s of
        None \<Rightarrow> ([], s)
      | Some (m, s') \<Rightarrow> (case on_frames fs s' of (ms, s'') \<Rightarrow> ((case m of None \<Rightarrow> ms | Some x \<Rightarrow> x # ms), s'')))"

end
