(* ===== verification/Goose_Delivery.thy ===== *)
theory Goose_Delivery
  imports Goose_Publisher Goose_Subscriber
begin

text \<open>
  What connects a publisher and a subscriber: the counters of a stream whose state changes all
  reached the interface are exactly those the sequence tracker accepts, and every message of
  the stream parses and passes the filter of its control block.
\<close>

section \<open>Clean streams\<close>

text \<open>
  The counters of a stream in which every state change reached the interface: a
  retransmission, or the first message of the next state.
\<close>

definition clean :: "goose_message \<Rightarrow> goose_message \<Rightarrow> bool" where
  "clean a b \<longleftrightarrow> successor a b \<or> gm_sq_num b = 0 \<and> gm_st_num b = next_num (gm_st_num a)"

definition clean_inv :: "publisher \<Rightarrow> goose_message list \<Rightarrow> bool" where
  "clean_inv p tr \<longleftrightarrow> successively clean tr \<and> (tr \<noteq> [] \<longrightarrow> gm_st_num (last tr) = ps_st_num (pb_state p))"

fun is_refresh :: "pub_event \<Rightarrow> bool" where
  "is_refresh (Refresh _ _) = True"
| "is_refresh _ = False"

lemma successor_st: "successor a b \<Longrightarrow> gm_st_num b = gm_st_num a"
  unfolding successor_def by (drule arg_cong [of _ _ gm_st_num]) simp

lemma publish_clean:
  assumes "clean_inv p tr" "\<forall>f s. \<exists>s'. put f s = Inr s'" "publish_state put vs True now p s = (r, p', s')"
  shows "clean_inv p' (tr @ (case r of Inl _ \<Rightarrow> [] | Inr _ \<Rightarrow> [announced p vs True now]))"
proof -
  have "\<exists>s'. publisher_send put q m s = Inr s'" for q m
    using assms(2) by (simp add: publisher_send_def)
  with assms(3) consider "p' = p" "\<exists>e. r = Inl e"
    | "r = Inr ()" "ps_st_num (pb_state p') = next_num (ps_st_num (pb_state p))"
    by (auto simp: publish_state_def Let_def split: if_splits sum.splits) (metis sum.distinct(1))
  then show ?thesis
    using assms(1) by cases (auto simp: clean_inv_def successively_append_iff clean_def)
qed

lemma fire_clean:
  assumes "clean_inv p tr" "pub_inv Q n p tr" "k < length (pb_tasks p)" "rt_awake (pb_tasks p ! k)"
    and "task_fire put k p s = (sent, p', s')"
  shows "clean_inv p' (tr @ (if sent then [rt_msg (pb_tasks p ! k)] else []))"
proof -
  let ?t = "pb_tasks p ! k"
  have st: "ps_st_num (pb_state p') = ps_st_num (pb_state p)"
    using assms(5) by (auto simp: task_fire_def Let_def split: if_splits sum.splits)
  have ok: "task_ok p tr ?t" using assms(2,3) by (simp add: pub_inv_def)
  have "rt_generation ?t = ps_generation (pb_state p)" if sent
    using assms(5) that by (auto simp: task_fire_def Let_def split: if_splits sum.splits)
  with ok assms(4) have "tr \<noteq> []" "successor (last tr) (rt_msg ?t)" if sent
    using that by (auto simp: task_ok_def)
  with st assms(1) successor_st [of "last tr" "rt_msg ?t"] show ?thesis
    by (auto simp: clean_inv_def successively_append_iff clean_def)
qed

lemma pub_exec_clean:
  assumes "clean_inv p tr" "pub_inv Q n p tr" "\<not> is_refresh ev" "\<forall>f s. \<exists>s'. put f s = Inr s'"
    and r: "pub_exec put ev p s = (ms, p', s')"
  shows "clean_inv p' (tr @ ms)"
proof (cases ev)
  case (Publish vs now)
  with r obtain x where "publish_state put vs True now p s = (x, p', s')"
    "ms = (case x of Inl _ \<Rightarrow> [] | Inr _ \<Rightarrow> [announced p vs True now])"
    by (auto simp: publish_def split: prod.splits sum.splits)
  with publish_clean [OF assms(1,4)] show ?thesis by blast
next
  case (Fire k)
  with r fire_clean [OF assms(1,2), of k put s] assms(1) show ?thesis by (auto split: if_splits prod.splits)
qed (use r assms(1,3) in \<open>auto simp: clean_inv_def set_test_def set_nds_com_def publisher_close_def task_wake_def
  Let_def split: if_splits\<close>)

lemma pub_run_clean:
  assumes "clean_inv p tr" "pub_inv (\<lambda>_. True) n p tr" "n + length evs < 2 ^ 64"
    "\<forall>ev \<in> set evs. \<not> is_refresh ev" "\<forall>f s. \<exists>s'. put f s = Inr s'" "pub_run put evs p s = (ms, p', s')"
  shows "clean_inv p' (tr @ ms)"
  using assms
proof (induction evs arbitrary: n p tr s ms)
  case (Cons ev evs)
  from Cons.prems(6) obtain ms1 p1 s1 ms2 where
    e: "pub_exec put ev p s = (ms1, p1, s1)" "pub_run put evs p1 s1 = (ms2, p', s')" "ms = ms1 @ ms2"
    by (auto split: prod.splits)
  have "clean_inv p1 (tr @ ms1)"
    by (rule pub_exec_clean [OF Cons.prems(1,2) _ _ e(1)]) (use Cons.prems(4,5) in auto)
  moreover have "pub_inv (\<lambda>_. True) (Suc n) p1 (tr @ ms1)"
    by (rule pub_exec_inv [OF Cons.prems(2) _ e(1)]) (use Cons.prems(3) in auto)
  ultimately show ?case
    using Cons.IH [of p1 "tr @ ms1" "Suc n" s1 ms2] Cons.prems(3,4,5) e by simp
qed simp

text \<open>A clean stream raises no alarm, the roll-over of both counters included.\<close>

lemma next_num_cases: "n = 0xffffffff \<and> next_num n = 1 \<or> n < next_num n"
proof (cases "n = 0xffffffff")
  case False
  then have "unat n \<noteq> 2 ^ 32 - 1" by (auto simp: word_unat_eq_iff)
  then have "unat (n + 1) = unat n + 1"
    using unat_word_bound [of n] by (simp add: unat_word_ariths)
  then have "n < n + 1" by (simp add: word_less_nat_alt)
  then show ?thesis by (simp add: next_num_def less_max_iff_disj)
qed (simp add: next_num_def)

lemma clean_regular:
  assumes "clean a b"
  shows "\<not> st_num_regressed (irregular (\<lparr>sq_st_num = gm_st_num a, sq_sq_num = gm_sq_num a, sq_tatl = d, sq_arrival = t\<rparr>) b now)"
    "\<not> sq_num_gap (irregular (\<lparr>sq_st_num = gm_st_num a, sq_sq_num = gm_sq_num a, sq_tatl = d, sq_arrival = t\<rparr>) b now)"
proof -
  have s: "gm_sq_num b = next_num (gm_sq_num a)" if "successor a b"
    using that unfolding successor_def by (drule_tac arg_cong [of _ _ gm_sq_num]) simp
  show "\<not> st_num_regressed (irregular (\<lparr>sq_st_num = gm_st_num a, sq_sq_num = gm_sq_num a, sq_tatl = d, sq_arrival = t\<rparr>) b now)"
    "\<not> sq_num_gap (irregular (\<lparr>sq_st_num = gm_st_num a, sq_sq_num = gm_sq_num a, sq_tatl = d, sq_arrival = t\<rparr>) b now)"
    using assms s next_num_cases [of "gm_st_num a"] successor_st [of a b]
    by (auto simp: clean_def irregular_def Let_def)
qed

section \<open>Reception\<close>

text \<open>A message of the stream of a configuration, ready for the wire.\<close>

definition wire_ready :: "publisher_config \<Rightarrow> goose_message \<Rightarrow> bool" where
  "wire_ready cfg m \<longleftrightarrow> length (goose_marshal m) \<le> MAX_PAYLOAD \<and> goose_message_ok m \<and>
     unat (gm_entries m) = length (gm_values m) \<and> gm_cb_ref m = pc_go_cb_ref cfg \<and> gm_app_id m = pc_app_id cfg"

definition config_ok :: "publisher_config \<Rightarrow> bool" where
  "config_ok cfg \<longleftrightarrow> utf8_valid (pc_go_cb_ref cfg) \<and> utf8_valid (pc_dat_set cfg) \<and> utf8_valid (pc_go_id cfg)"

fun event_ok :: "pub_event \<Rightarrow> bool" where
  "event_ok (Publish vs now) = list_all member_ok vs"
| "event_ok (Refresh vs now) = list_all member_ok vs"
| "event_ok _ = True"

definition selects :: "goose_filter \<Rightarrow> publisher_config \<Rightarrow> bool" where
  "selects flt cfg \<longleftrightarrow> (gf_app_id flt = 0 \<or> gf_app_id flt = pc_app_id cfg) \<and>
     (gf_go_cb_ref flt = [] \<or> gf_go_cb_ref flt = pc_go_cb_ref cfg)"

lemma wire_ready_widest: "wire_ready cfg (widest m) \<Longrightarrow> wire_ready cfg m"
  using goose_marshal_widest [of m] by (auto simp: wire_ready_def goose_message_ok_def widest_def)

lemma length_le_concat: "\<forall>x \<in> set xs. f x \<noteq> [] \<Longrightarrow> length xs \<le> length (concat (map f xs))"
  by (induction xs) (auto simp: neq_Nil_conv)

lemma values_below_size:
  assumes "goose_message_ok m"
  shows "length (gm_values m) \<le> length (goose_marshal m)"
proof -
  have ok: "list_all data_ok (gm_values m)"
    using assms by (auto simp: goose_message_ok_def member_ok_def list_all_iff)
  have "length (gm_values m) \<le> length (concat (map append_data (gm_values m)))"
    using ok append_data_nonempty by (intro length_le_concat) (auto simp: list_all_iff)
  also have "\<dots> \<le> length (concat (map append_elem (goose_fields m)))"
    unfolding goose_fields_append(1) [OF ok]
    using length_append_tlv_content [of "concat (map append_data (gm_values m))" "context_constructed 11"] by simp
  also have "\<dots> \<le> length (goose_marshal m)"
    unfolding goose_marshal_octets [OF assms]
    using length_append_tlv_content [of "concat (map append_elem (goose_fields m))" goose_pdu_tag] by simp
  finally show ?thesis .
qed

lemma announced_ready:
  assumes "config_ok (pb_cfg p)" "list_all member_ok vs"
    "length (goose_marshal (widest (announced p vs c now))) \<le> MAX_PAYLOAD"
  shows "wire_ready (pb_cfg p) (widest (announced p vs c now))"
proof -
  let ?m = "widest (announced p vs c now)"
  have ok: "goose_message_ok ?m"
    using assms by (simp add: goose_message_ok_def config_ok_def widest_def)
  have "length vs \<le> MAX_PAYLOAD"
    using values_below_size [OF ok] assms(3) by (simp add: widest_def)
  then have "unat (of_nat (length vs) :: u32) = length vs"
    by (intro unat_of_nat_small) (simp add: MAX_PAYLOAD_def)
  with ok assms(3) show ?thesis by (simp add: wire_ready_def) (simp add: widest_def)
qed

text \<open>The turn of the receive loop on such a message.\<close>

lemma on_frame_ready:
  assumes "wire_ready cfg m" "\<not> su_stopped s" "selects (su_filter s) cfg"
    "observe (received m) now (su_tracker s) = (a, tr)"
  shows "\<exists>s'. on_frame now (goose_frame cfg m) s =
      Some (Some ((received m)\<lparr>gm_anomalies := a\<lparr>entries_mismatch := False\<rparr>\<rparr>), s') \<and>
    su_tracker s' = tr \<and> su_filter s' = su_filter s \<and> \<not> su_stopped s'"
proof -
  have "length (goose_marshal m) < 2 ^ 16" "goose_message_ok m"
    using assms(1) by (simp_all add: wire_ready_def MAX_PAYLOAD_def)
  from goose_parse_marshal [OF this(2,1), of "[]"]
  have parse: "goose_parse (goose_marshal m) = Inr (received m)" by simp
  have "gm_app_id (received m) = pc_app_id cfg" "gm_cb_ref (received m) = pc_go_cb_ref cfg"
    using assms(1) unfolding wire_ready_def by (simp_all add: received_def)
  then have matches: "filter_matches (su_filter s) (received m)"
    using assms(3) unfolding filter_matches_def selects_def by metis
  have entries: "unat (gm_entries (received m)) = length (gm_values (received m))"
    using assms(1) unfolding wire_ready_def by (simp add: received_def)
  show ?thesis
    unfolding on_frame_def using assms(2) by (simp add: goose_frame_def parse matches entries assms(4))
qed

definition no_alarm :: "goose_message \<Rightarrow> bool" where
  "no_alarm m \<longleftrightarrow> \<not> st_num_regressed (gm_anomalies m) \<and> \<not> sq_num_gap (gm_anomalies m) \<and>
     \<not> entries_mismatch (gm_anomalies m)"

text \<open>The tracker has seen nothing of the control block, or the message before.\<close>

definition tracks :: "sequence_tracker \<Rightarrow> rust_string \<Rightarrow> goose_message list \<Rightarrow> bool" where
  "tracks tr cb ms = (case map_of tr cb of None \<Rightarrow> True
     | Some st \<Rightarrow> (\<exists>a d t. st = \<lparr>sq_st_num = gm_st_num a, sq_sq_num = gm_sq_num a, sq_tatl = d, sq_arrival = t\<rparr> \<and>
         (ms = [] \<or> clean a (hd ms))))"

lemma received_sel [simp]:
  "gm_st_num (received m) = gm_st_num m" "gm_sq_num (received m) = gm_sq_num m"
  "gm_cb_ref (received m) = gm_cb_ref m" "gm_tatl (received m) = gm_tatl m"
  by (simp_all add: received_def)

lemma irregular_received: "irregular st (received m) now = irregular st m now"
  by (simp add: irregular_def)

lemma tracks_observe:
  assumes "tracks tr cb (m # ms)" "gm_cb_ref m = cb" "successively clean (m # ms)"
    "observe (received m) now tr = (a, tr')"
  shows "tracks tr' cb ms" "\<not> st_num_regressed a" "\<not> sq_num_gap a"
proof -
  have "map_of tr' cb = Some \<lparr>sq_st_num = gm_st_num m, sq_sq_num = gm_sq_num m, sq_tatl = tatl_duration (received m), sq_arrival = now\<rparr>"
    using assms(2,4) by (auto simp: observe_def Let_def update_conv')
  then show "tracks tr' cb ms" using assms(3) by (cases ms) (auto simp: tracks_def)
  show "\<not> st_num_regressed a" "\<not> sq_num_gap a"
    using assms(1,2,4) clean_regular
    by (auto simp: observe_def Let_def tracks_def irregular_received no_anomalies_def split: option.splits)
qed

lemma on_frames_clean:
  assumes "length ats = length ms" "\<forall>m \<in> set ms. wire_ready cfg m" "successively clean ms"
    "tracks (su_tracker s) (pc_go_cb_ref cfg) ms" "\<not> su_stopped s" "selects (su_filter s) cfg"
  shows "\<exists>cbs s'. on_frames (zip ats (map (goose_frame cfg) ms)) s = (cbs, s') \<and>
    map (\<lambda>m. m\<lparr>gm_anomalies := no_anomalies\<rparr>) cbs = map received ms \<and> list_all no_alarm cbs"
  using assms
proof (induction ms arbitrary: ats s)
  case (Cons m ms)
  obtain now rest where ats: "ats = now # rest" using Cons.prems(1) by (cases ats) auto
  obtain a tr where o: "observe (received m) now (su_tracker s) = (a, tr)" by fastforce
  have ref: "gm_cb_ref m = pc_go_cb_ref cfg" using Cons.prems(2) by (simp add: wire_ready_def)
  note t = tracks_observe [OF Cons.prems(4) ref Cons.prems(3) o]
  obtain s1 where s1: "on_frame now (goose_frame cfg m) s =
      Some (Some ((received m)\<lparr>gm_anomalies := a\<lparr>entries_mismatch := False\<rparr>\<rparr>), s1)"
    "su_tracker s1 = tr" "su_filter s1 = su_filter s" "\<not> su_stopped s1"
    using on_frame_ready [of cfg m s now a tr] Cons.prems(2,5,6) o by auto
  have "successively clean ms" using Cons.prems(3) by (cases ms) auto
  then obtain cbs s2 where "on_frames (zip rest (map (goose_frame cfg) ms)) s1 = (cbs, s2)"
    "map (\<lambda>m. m\<lparr>gm_anomalies := no_anomalies\<rparr>) cbs = map received ms" "list_all no_alarm cbs"
    using Cons.IH [of rest s1] Cons.prems s1 t(1) ats by auto
  moreover have "no_alarm ((received m)\<lparr>gm_anomalies := a\<lparr>entries_mismatch := False\<rparr>\<rparr>)"
    using t(2,3) by (simp add: no_alarm_def)
  moreover have "(received m)\<lparr>gm_anomalies := no_anomalies\<rparr> = received m" by (simp add: received_def)
  ultimately show ?case using s1(1) ats by simp
qed simp

end
