(* ===== verification/Goose_Correct.thy ===== *)
theory Goose_Correct
  imports Goose_Delivery
begin

text \<open>
  The correctness of the layer-2 event path: frames, GOOSE messages, the publisher's stream
  under every interleaving of its tasks, and what a subscriber makes of that stream.
\<close>

section \<open>Frames and messages\<close>

text \<open>
  C30. Ethernet frames survive marshalling: for every frame with well-formed addresses and tag
  the octets have the announced length and parse to the identical frame. Only a frame that is
  untagged and claims the 802.1Q EtherType for itself is excluded.
\<close>

theorem frame_roundtrip:
  assumes "frame_wf f"
  shows "parse_frame (frame_marshal f) = Inr f \<and> length (frame_marshal f) = encoded_len f"
  using assms by (simp add: parse_frame_marshal length_frame_marshal)

definition sample_frame :: frame where
  "sample_frame = \<lparr>fr_src = [0, 1, 2, 3, 4, 5], fr_dst = default_mac 0x1ff, fr_ether_type = ETHER_TYPE_GOOSE,
     fr_vlan = Some \<lparr>vt_priority = 4, vt_dei = True, vt_vid = 0x123\<rparr>, fr_payload = [0xaa]\<rparr>"

theorem frame_roundtrip_witness:
  "parse_frame (frame_marshal sample_frame) = Inr sample_frame \<and>
   length (frame_marshal sample_frame) = encoded_len sample_frame"
  by (rule frame_roundtrip) (simp add: sample_frame_def frame_wf_def vlan_wf_def default_mac_def)

text \<open>
  C28. GOOSE messages survive the wire: a message of valid strings and encodable values whose
  APDU is below 64 KiB is parsed, whatever padding follows, to the same message. The values
  compare equal; the timestamp is the \<open>UtcTime\<close> that was sent, never later than the original
  and at most 60 ns before it.
\<close>

theorem goose_roundtrip:
  assumes "goose_message_ok m" "length (goose_marshal m) < 2 ^ 16"
    and "gm_t m = Some t" "0 \<le> t" "t < 2 ^ 32 * NANOS"
  shows "\<exists>t'. goose_parse (goose_marshal m @ padding) = Inr (received m) \<and>
     gm_t (received m) = Some t' \<and> t' \<le> t \<and> t \<le> t' + 60 \<and>
     list_all2 value_eq (gm_values (received m)) (gm_values m)"
proof -
  have "list_all2 value_eq (gm_values (received m)) (gm_values m)"
    by (simp add: received_def list_all2_conv_all_nth wire_value_eq)
  moreover define q where "q = (case gm_time_quality m of Some q \<Rightarrow> q | None \<Rightarrow> TQ_DEFAULT)"
  have "gm_t (received m) = value_time (utc_time t q)"
    using assms(3) by (simp add: received_def message_time_def q_def)
  moreover obtain t' where "value_time (utc_time t q) = Some t'" "t' \<le> t" "t \<le> t' + 60"
    using utc_time_close [OF assms(4,5), of q] by blast
  ultimately show ?thesis using goose_parse_marshal [OF assms(1,2), of padding] by auto
qed

definition sample_message :: goose_message where
  "sample_message = goose_message_default\<lparr>gm_cb_ref := [0x4c, 0x44, 0x24], gm_dat_set := [0x44],
     gm_id := [0x67], gm_tatl := 2000, gm_t := Some 1700000000123456789, gm_st_num := 1,
     gm_entries := 1, gm_values := [BooleanV True]\<rparr>"

lemma sample_message_ok: "goose_message_ok sample_message" "length (goose_marshal sample_message) < 2 ^ 16"
proof -
  show "goose_message_ok sample_message"
    by (simp add: goose_message_ok_def sample_message_def goose_message_default_def utf8_valid_ascii
        member_ok_def MAX_VALUE_DEPTH_def)
  show "length (goose_marshal sample_message) < 2 ^ 16"
    by (rule le_less_trans [OF goose_marshal_bound]) (simp_all add: sample_message_def goose_message_default_def)
qed

theorem goose_roundtrip_witness:
  "\<exists>t'. goose_parse (goose_marshal sample_message @ [0, 0]) = Inr (received sample_message) \<and>
     gm_t (received sample_message) = Some t' \<and> t' \<le> 1700000000123456789 \<and> 1700000000123456789 \<le> t' + 60 \<and>
     list_all2 value_eq (gm_values (received sample_message)) (gm_values sample_message)"
  by (rule goose_roundtrip [OF sample_message_ok]) (simp_all add: sample_message_def)

section \<open>The publisher\<close>

text \<open>
  C13. The publisher's stream is ordered under every interleaving of publishes, refreshes,
  waking, firing and cancelled retransmission tasks, on any interface: the stream starts with
  sequence number 0, and each message either starts a sequence at 0 or is the message directly
  before it with the next sequence number. So a stale retransmission never follows a newer
  state. And no retransmission outgrows the frame the first transmission fitted in.
\<close>

theorem goose_stream_order:
  assumes "publisher_new cfg = Inr p" "pub_run put evs p s = (ms, p', s')" "length evs < 2 ^ 64"
  shows "stream_ok ms \<and> list_all (\<lambda>m. length (goose_marshal m) \<le> MAX_PAYLOAD) ms"
  using pub_run_stream [OF assms] by (simp add: list_all_iff)

definition sample_config :: publisher_config where
  "sample_config = publisher_config_default\<lparr>pc_go_cb_ref := [0x4c, 0x44, 0x24], pc_conf_rev := 1\<rparr>"

definition sample_publisher :: publisher where
  "sample_publisher = \<lparr>pb_cfg = sample_config\<lparr>pc_go_id := [0x4c, 0x44, 0x24]\<rparr>, pb_retrans = DEFAULT_RETRANS,
     pb_state = \<lparr>ps_st_num = 0, ps_sq_num = 0, ps_test = False, ps_nds_com = False, ps_t = None,
       ps_generation = 0\<rparr>, pb_closed = False, pb_tasks = []\<rparr>"

text \<open>An interface that accepts every frame.\<close>

definition put_log :: "frame \<Rightarrow> frame list \<Rightarrow> eth_error + frame list" where
  "put_log f log = Inr (log @ [f])"

lemma sample_publisher_new: "publisher_new sample_config = Inr sample_publisher"
  by (simp add: publisher_new_def sample_config_def sample_publisher_def publisher_config_default_def
      DEFAULT_RETRANS_def from_millis_def Let_def)

definition sample_events :: "pub_event list" where
  "sample_events = [Publish [BooleanV True] 1000, Wake 0, Publish [BooleanV False] 2000, Fire 0, Wake 0, Fire 0]"

text \<open>
  The first task is awake when the second state is published; it does not send any more, and the
  task of the second state does.
\<close>

lemma sample_run:
  "map (\<lambda>m. (gm_st_num m, gm_sq_num m)) (fst (pub_run put_log sample_events sample_publisher [])) =
     [(1, 0), (2, 0), (2, 1)]"
proof -
  have small: "small_values p [BooleanV b]" if "pb_cfg p = pb_cfg sample_publisher" for p b
    using that by (simp add: small_values_def sample_publisher_def sample_config_def publisher_config_default_def MAX_PAYLOAD_def)
  show ?thesis
    by (simp add: sample_events_def publish_def publish_state_def small_values_fit [OF small] sample_publisher_def
      put_log_def publisher_send_def Let_def task_wake_def task_fire_def drop_nth_def retransmission_def next_num_def)
qed

theorem goose_stream_order_witness:
  "publisher_new sample_config = Inr sample_publisher \<and>
   stream_ok (fst (pub_run put_log sample_events sample_publisher [])) \<and>
   list_all (\<lambda>m. length (goose_marshal m) \<le> MAX_PAYLOAD) (fst (pub_run put_log sample_events sample_publisher [])) \<and>
   map (\<lambda>m. (gm_st_num m, gm_sq_num m)) (fst (pub_run put_log sample_events sample_publisher [])) =
     [(1, 0), (2, 0), (2, 1)]"
proof -
  obtain ms p' s' where r: "pub_run put_log sample_events sample_publisher [] = (ms, p', s')"
    by (metis prod_cases3)
  from goose_stream_order [OF sample_publisher_new r] sample_run sample_publisher_new r
  show ?thesis by (simp add: sample_events_def)
qed

text \<open>
  Retransmitting \<open>n\<close> times from a message: the sequence numbers count on and nothing else
  changes but the time to live.
\<close>

fun retransmissions :: "publisher \<Rightarrow> nat \<Rightarrow> goose_message \<Rightarrow> nat \<Rightarrow> goose_message list" where
  "retransmissions p i m 0 = []"
| "retransmissions p i m (Suc n) =
     (let m' = m\<lparr>gm_sq_num := next_num (gm_sq_num m), gm_tatl := tatl p (i + 1)\<rparr>
      in m' # retransmissions p (i + 1) m' n)"

lemma tatl_retrans: "pb_retrans p = pb_retrans q \<Longrightarrow> tatl p n = tatl q n"
  by (simp add: tatl_def)

lemma retransmissions_retrans: "pb_retrans p = pb_retrans q \<Longrightarrow> retransmissions p i m n = retransmissions q i m n"
  by (induction n arbitrary: i m) (simp_all add: Let_def tatl_retrans [of p q])

lemma retransmit_turn:
  assumes "\<forall>f s. \<exists>s'. put f s = Inr s'" "\<not> pb_closed p" "k < length (pb_tasks p)"
    and t: "pb_tasks p ! k = \<lparr>rt_msg = m, rt_generation = ps_generation (pb_state p), rt_turn = i, rt_awake = False\<rparr>"
  defines "m' \<equiv> m\<lparr>gm_sq_num := next_num (gm_sq_num m), gm_tatl := tatl p (i + 1)\<rparr>"
  obtains p' s' where "pub_run put [Wake k, Fire k] p s = ([m'], p', s')" "\<not> pb_closed p'" "k < length (pb_tasks p')"
    "pb_tasks p' ! k = \<lparr>rt_msg = m', rt_generation = ps_generation (pb_state p'), rt_turn = i + 1, rt_awake = False\<rparr>"
    "pb_retrans p' = pb_retrans p" "ps_sq_num (pb_state p') = gm_sq_num m'"
proof -
  obtain s' where s': "put (goose_frame (pb_cfg p) m') s = Inr s'" using assms(1) by blast
  define p' where "p' = p\<lparr>pb_state := (pb_state p)\<lparr>ps_sq_num := gm_sq_num m'\<rparr>, pb_tasks := (pb_tasks p)
    [k := \<lparr>rt_msg = m', rt_generation = ps_generation (pb_state p), rt_turn = i + 1, rt_awake = False\<rparr>]\<rparr>"
  show ?thesis
  proof (rule that [of p' s'])
    show "pub_run put [Wake k, Fire k] p s = ([m'], p', s')"
      using assms(2,3) t s'
      by (simp add: task_wake_def task_fire_def retransmission_def publisher_send_def m'_def p'_def Let_def)
  qed (use assms(2,3) in \<open>simp_all add: p'_def\<close>)
qed

text \<open>
  C27. Retransmission does not end: while the publisher is open and the interface accepts
  frames, the task of a state, after any number \<open>n\<close> of turns of its own, has sent \<open>n\<close>
  further copies of the message with the sequence numbers counting on, and the publisher
  reports the last of them.
\<close>

theorem retransmission_continues:
  assumes "\<forall>f s. \<exists>s'. put f s = Inr s'" "\<not> pb_closed p" "k < length (pb_tasks p)"
    and "pb_tasks p ! k = \<lparr>rt_msg = m, rt_generation = ps_generation (pb_state p), rt_turn = i, rt_awake = False\<rparr>"
  shows "\<exists>p' s'. pub_run put (concat (replicate n [Wake k, Fire k])) p s = (retransmissions p i m n, p', s') \<and>
    (0 < n \<longrightarrow> ps_sq_num (pb_state p') = gm_sq_num (last (retransmissions p i m n)))"
  using assms
proof (induction n arbitrary: p s m i)
  case 0
  then show ?case by simp
next
  case (Suc n)
  define m' where "m' = m\<lparr>gm_sq_num := next_num (gm_sq_num m), gm_tatl := tatl p (i + 1)\<rparr>"
  obtain p1 s1 where h: "pub_run put [Wake k, Fire k] p s = ([m'], p1, s1)" "\<not> pb_closed p1" "k < length (pb_tasks p1)"
    "pb_tasks p1 ! k = \<lparr>rt_msg = m', rt_generation = ps_generation (pb_state p1), rt_turn = i + 1, rt_awake = False\<rparr>"
    "pb_retrans p1 = pb_retrans p" "ps_sq_num (pb_state p1) = gm_sq_num m'"
    by (rule retransmit_turn [of put p k m i s, folded m'_def]) (use Suc.prems in auto)
  obtain p2 s2 where i: "pub_run put (concat (replicate n [Wake k, Fire k])) p1 s1 = (retransmissions p (i + 1) m' n, p2, s2)"
    "0 < n \<longrightarrow> ps_sq_num (pb_state p2) = gm_sq_num (last (retransmissions p (i + 1) m' n))"
    using Suc.IH [OF Suc.prems(1) h(2-4)] retransmissions_retrans [OF h(5)] by metis
  have "pub_run put (concat (replicate (Suc n) [Wake k, Fire k])) p s = (m' # retransmissions p (i + 1) m' n, p2, s2)"
    using h(1) i(1) by (auto split: prod.splits)
  moreover have "ps_sq_num (pb_state p2) = gm_sq_num (last (m' # retransmissions p (i + 1) m' n))"
    using h(6) i by (cases n) (auto simp: Let_def)
  ultimately show ?case by (simp add: m'_def Let_def)
qed

definition sample_task :: retrans_task where
  "sample_task = \<lparr>rt_msg = sample_message, rt_generation = 0, rt_turn = 0, rt_awake = False\<rparr>"

theorem retransmission_continues_witness:
  "\<exists>p' s'. pub_run put_log (concat (replicate 3 [Wake 0, Fire 0])) (sample_publisher\<lparr>pb_tasks := [sample_task]\<rparr>) [] =
      (retransmissions (sample_publisher\<lparr>pb_tasks := [sample_task]\<rparr>) 0 sample_message 3, p', s') \<and>
    (0 < (3 :: nat) \<longrightarrow> ps_sq_num (pb_state p') =
      gm_sq_num (last (retransmissions (sample_publisher\<lparr>pb_tasks := [sample_task]\<rparr>) 0 sample_message 3)))"
  by (rule retransmission_continues)
    (simp_all add: put_log_def sample_publisher_def sample_task_def)

section \<open>From publisher to subscriber\<close>

text \<open>
  C5. From publisher to subscriber: when every frame of a publisher's run without refreshes is
  accepted by the interface and arrives, the callback of a matching subscription gets exactly
  the published messages in order, and none is flagged: not as a restarted publisher, not as a
  gap, not as inconsistent. This covers retransmissions under every interleaving and the
  roll-over of both counters. Only lateness depends on the arrival times.
\<close>

theorem goose_end_to_end:
  assumes new: "publisher_new cfg = Inr p" and run: "pub_run put evs p s = (ms, p', s')"
    and "length evs < 2 ^ 64" and put: "\<forall>f s. \<exists>s'. put f s = Inr s'"
    and evs: "list_all (\<lambda>ev. event_ok ev \<and> \<not> is_refresh ev) evs"
    and cfg: "config_ok cfg" "selects flt cfg" and "length ats = length ms"
  shows "\<exists>cbs t. on_frames (zip ats (map (goose_frame (pb_cfg p)) ms)) (subscribe flt) = (cbs, t) \<and>
    map (\<lambda>m. m\<lparr>gm_anomalies := no_anomalies\<rparr>) cbs = map received ms \<and> list_all no_alarm cbs"
proof -
  have cp: "config_ok (pb_cfg p)" "selects flt (pb_cfg p)"
    using new cfg by (auto simp: publisher_new_def config_ok_def selects_def Let_def split: if_splits)
  have inv: "pub_inv (wire_ready (pb_cfg p)) (0 + length evs) p' ([] @ ms)"
  proof (rule pub_run_inv [OF publisher_new_inv [OF new] _ run])
    fix q vs c now
    assume "pb_cfg q = pb_cfg p" "Publish vs now \<in> set evs \<or> Refresh vs now \<in> set evs"
      "length (goose_marshal (widest (announced q vs c now))) \<le> MAX_PAYLOAD"
    moreover from this(2) evs have "list_all member_ok vs" by (auto simp: list_all_iff)
    ultimately show "wire_ready (pb_cfg p) (widest (announced q vs c now))"
      using announced_ready [of q vs c now] cp(1) by simp
  qed (use assms(3) in simp)
  have "clean_inv p' ([] @ ms)"
    using evs assms(3)
    by (intro pub_run_clean [OF _ publisher_new_inv [OF new] _ _ put run]) (auto simp: clean_inv_def list_all_iff)
  with inv cp assms(8) show ?thesis
    by (intro on_frames_clean)
      (auto simp: clean_inv_def pub_inv_def tracks_def subscribe_def tracker_new_def intro: wire_ready_widest)
qed

theorem goose_end_to_end_witness:
  "\<exists>cbs t. on_frames (zip [5, 6, 7] (map (goose_frame (pb_cfg sample_publisher))
        (fst (pub_run put_log sample_events sample_publisher [])))) (subscribe (filter_app_id 0)) = (cbs, t) \<and>
    map (\<lambda>m. m\<lparr>gm_anomalies := no_anomalies\<rparr>) cbs = map received (fst (pub_run put_log sample_events sample_publisher [])) \<and>
    list_all no_alarm cbs"
proof -
  obtain ms p' s' where r: "pub_run put_log sample_events sample_publisher [] = (ms, p', s')"
    by (metis prod_cases3)
  have "length ms = 3" using arg_cong [OF sample_run, of length] by (simp add: r)
  then show ?thesis
    unfolding r fst_conv
    by (intro goose_end_to_end [OF sample_publisher_new r])
      (simp_all add: sample_events_def put_log_def member_ok_def MAX_VALUE_DEPTH_def config_ok_def selects_def
        sample_config_def publisher_config_default_def utf8_valid_ascii filter_app_id_def)
qed

text \<open>
  C34. A refresh raises a false alarm: the message that repeats the current state starts at
  sequence number 0 again, and a tracker that has seen that state reports a gap for it, although
  no frame was lost.
\<close>

theorem refresh_reported_as_gap:
  assumes "ps_st_num (pb_state p) \<noteq> 0" "map_of tr (pc_go_cb_ref (pb_cfg p)) = Some st"
    "sq_st_num st = ps_st_num (pb_state p)"
  shows "sq_num_gap (fst (observe (received (announced p vs False now)) at tr))"
proof -
  have "next_num n \<noteq> 0" for n using next_num_cases [of n] by auto
  then have "(0 :: u32) \<noteq> next_num n" for n by metis
  with assms show ?thesis by (simp add: observe_def irregular_def Let_def)
qed

theorem refresh_reported_as_gap_witness:
  "sq_num_gap (fst (observe (received (announced (sample_publisher\<lparr>pb_state := (pb_state sample_publisher)\<lparr>ps_st_num := 1\<rparr>\<rparr>)
      [BooleanV True] False 9)) 9
    [(pc_go_cb_ref (pb_cfg sample_publisher), \<lparr>sq_st_num = 1, sq_sq_num = 0, sq_tatl = 8, sq_arrival = 4\<rparr>)]))"
  by (rule refresh_reported_as_gap [where st = "\<lparr>sq_st_num = 1, sq_sq_num = 0, sq_tatl = 8, sq_arrival = 4\<rparr>"]) simp_all

section \<open>The retransmission schedule\<close>

lemma doubling_schedule:
  assumes "0 < d" "d \<le> max_ms" "n \<le> MAX_RETRANS_STEPS"
  shows "doubling d max_ms n \<noteq> [] \<and> sorted (doubling d max_ms n) \<and> list_all (\<lambda>x. from_millis d \<le> x) (doubling d max_ms n) \<and>
    hd (doubling d max_ms n) \<le> from_millis max_ms \<and> last (doubling d max_ms n) = from_millis max_ms \<and>
    length (doubling d max_ms n) + n \<le> 17"
  using assms
proof (induction d max_ms n rule: doubling.induct)
  case (1 d max_ms n)
  show ?case
  proof (cases "d * 2 \<le> max_ms \<and> n < MAX_RETRANS_STEPS")
    case True
    then have "list_all (\<lambda>x. from_millis d \<le> x) (doubling (d * 2) max_ms (Suc n))"
      using 1 by (auto simp: list_all_iff from_millis_def)
    with True 1 show ?thesis
      by (auto simp: doubling.simps [of d max_ms n] list_all_iff from_millis_def)
  next
    case False
    then have "\<not> d * 2 < max_ms \<or> \<not> Suc n < MAX_RETRANS_STEPS" by auto
    then have "n < MAX_RETRANS_STEPS \<Longrightarrow> doubling (d * 2) max_ms (Suc n) = [from_millis max_ms]"
      using False by (simp add: doubling.simps [of "d * 2"])
    with 1 show ?thesis
      by (auto simp: doubling.simps [of d max_ms n] from_millis_def MAX_RETRANS_STEPS_def)
  qed
qed

text \<open>
  The schedule of a control block is usable whatever its MinTime and MaxTime are: at most
  17 positive intervals, never decreasing, that end at MaxTime (or at MinTime when that is
  larger), so a publisher accepts it and is never silent for longer than that.
\<close>

theorem retrans_schedule:
  "retrans_from_scl mn mx \<noteq> [] \<and> sorted (retrans_from_scl mn mx) \<and> list_all (\<lambda>d. 0 < d) (retrans_from_scl mn mx) \<and>
   length (retrans_from_scl mn mx) \<le> 17 \<and>
   last (retrans_from_scl mn mx) = from_millis (if mn = 0 \<and> mx = 0 then 1000 else max (unat mn) (unat mx))"
proof (cases "mn = 0 \<and> mx = 0")
  case True
  then show ?thesis by (simp add: retrans_from_scl_def DEFAULT_RETRANS_def from_millis_def)
next
  case False
  define lo where "lo = (if unat mn = 0 then max (unat mx div 64) 1 else unat mn)"
  define hi where "hi = max (unat mx) lo"
  have lo: "0 < lo" "lo \<le> hi" by (auto simp: lo_def hi_def)
  have hi: "hi = max (unat mn) (unat mx)"
  proof (cases "unat mn = 0")
    case True
    then have "0 < unat mx" using False by (auto simp: unat_eq_0 intro!: gr0I)
    then have "lo \<le> unat mx" using True by (simp add: lo_def Suc_le_eq)
    then show ?thesis using True by (simp add: hi_def)
  qed (simp add: hi_def lo_def)
  have r: "retrans_from_scl mn mx = doubling lo hi 0"
    using False by (auto simp: retrans_from_scl_def lo_def hi_def Let_def unat_eq_0)
  have "0 < from_millis lo" using lo(1) by (simp add: from_millis_def)
  then have "list_all (\<lambda>d. 0 < d) (doubling lo hi 0)"
    using doubling_schedule [OF lo, of 0] by (fastforce simp: list_all_iff)
  with False doubling_schedule [OF lo, of 0] show ?thesis unfolding r by (auto simp: hi [symmetric])
qed

section \<open>Supervision\<close>

text \<open>The control blocks reported in a sequence of turns at the given times.\<close>

fun reports :: "instant list \<Rightarrow> deadlines \<Rightarrow> rust_string list" where
  "reports [] d = []"
| "reports (at # ats) d =
     (case supervise_turn at d of (turn, d') \<Rightarrow>
        (case turn of Expired due \<Rightarrow> due | _ \<Rightarrow> []) @ reports ats d')"

definition deadlines_ok :: "deadlines \<Rightarrow> bool" where
  "deadlines_ok d \<longleftrightarrow> distinct (map fst (dl_blocks d)) \<and> \<not> dl_stopped d"

lemma deadlines_ok_new: "deadlines_ok deadlines_new"
  by (simp add: deadlines_ok_def deadlines_new_def)

lemma deadlines_ok_arrived: "deadlines_ok d \<Longrightarrow> deadlines_ok (arrived cb t now d)"
  by (simp add: deadlines_ok_def arrived_def distinct_update)

lemma count_due:
  "distinct (map fst bs) \<Longrightarrow> count_list (map fst (filter P bs)) cb =
     (case map_of bs cb of Some v \<Rightarrow> (if P (cb, v) then 1 else 0) | None \<Rightarrow> 0)"
  by (induction bs) (auto simp: count_list_0_iff split: option.splits dest: map_of_SomeD)

lemma map_of_fire:
  "map_of (map (\<lambda>b. if P b then (fst b, f b) else b) bs) cb =
     map_option (\<lambda>v. if P (cb, v) then f (cb, v) else v) (map_of bs cb)"
  by (induction bs) auto

lemma supervise_turn_block:
  assumes "deadlines_ok d" "map_of (dl_blocks d) cb = Some (due, fired)" "supervise_turn at d = (turn, d')"
  shows "deadlines_ok d'" "map_of (dl_blocks d') cb = Some (due, fired \<or> due \<le> at)"
    "count_list (case turn of Expired rs \<Rightarrow> rs | _ \<Rightarrow> []) cb = (if \<not> fired \<and> due \<le> at then 1 else 0)"
proof -
  have d': "d' = d\<lparr>dl_blocks := map (\<lambda>b. if is_due at b then (fst b, fst (snd b), True) else b) (dl_blocks d)\<rparr>"
    using assms(1,3) by (auto simp: supervise_turn_def deadlines_ok_def Let_def split: if_splits)
  have "map fst (dl_blocks d') = map fst (dl_blocks d)" by (simp add: d')
  moreover have "dl_stopped d' = dl_stopped d" by (simp add: d')
  ultimately show "deadlines_ok d'" using assms(1) unfolding deadlines_ok_def by metis
  show "map_of (dl_blocks d') cb = Some (due, fired \<or> due \<le> at)"
    using assms(2) by (auto simp: d' map_of_fire is_due_def)
  have "(case turn of Expired rs \<Rightarrow> rs | _ \<Rightarrow> []) = map fst (filter (is_due at) (dl_blocks d))"
    using assms(1,3) by (auto simp: supervise_turn_def deadlines_ok_def Let_def split: if_splits)
  then show "count_list (case turn of Expired rs \<Rightarrow> rs | _ \<Rightarrow> []) cb = (if \<not> fired \<and> due \<le> at then 1 else 0)"
    using assms(1,2) by (simp add: count_due deadlines_ok_def is_due_def)
qed

lemma reports_block:
  assumes "deadlines_ok d" "map_of (dl_blocks d) cb = Some (due, fired)"
  shows "count_list (reports ats d) cb = (if \<not> fired \<and> (\<exists>at \<in> set ats. due \<le> at) then 1 else 0)"
  using assms
proof (induction ats arbitrary: d fired)
  case (Cons at ats)
  obtain turn d' where t: "supervise_turn at d = (turn, d')" by fastforce
  note b = supervise_turn_block [OF Cons.prems t]
  from b(3) Cons.IH [OF b(1,2)] t show ?case by auto
qed simp

lemma arrived_block:
  "0 < t \<Longrightarrow> map_of (dl_blocks (arrived cb t now d)) cb = Some (now + t, False)"
  by (simp add: arrived_def update_conv')

text \<open>
  C26. Supervision reports every silence, once: after a message with a time to live, over any
  turns of the supervision thread before the next message, the control block is reported
  exactly once if a turn comes at or after the deadline and not at all otherwise; and a turn
  before the deadline never sleeps beyond it.
\<close>

theorem silence_reported_once:
  assumes "deadlines_ok d" "0 < t"
  shows "count_list (reports ats (arrived cb t now d)) cb = (if \<exists>at \<in> set ats. now + t \<le> at then 1 else 0) \<and>
    (case fst (supervise_turn at (arrived cb t now d)) of
       Stopped \<Rightarrow> False | Expired _ \<Rightarrow> True | WaitUntil w \<Rightarrow> w \<le> now + t | WaitMessage \<Rightarrow> False)"
proof -
  let ?d = "arrived cb t now d"
  have ok: "deadlines_ok ?d" by (rule deadlines_ok_arrived [OF assms(1)])
  have b: "map_of (dl_blocks ?d) cb = Some (now + t, False)" by (rule arrived_block [OF assms(2)])
  have "(cb, now + t, False) \<in> set (dl_blocks ?d)" by (rule map_of_SomeD [OF b])
  then have p: "now + t \<in> set (map (\<lambda>b. fst (snd b)) (filter (\<lambda>b. \<not> snd (snd b)) (dl_blocks ?d)))" by force
  then have "map (\<lambda>b. fst (snd b)) (filter (\<lambda>b. \<not> snd (snd b)) (dl_blocks ?d)) \<noteq> []" by (metis empty_iff empty_set)
  moreover have "Min (set (map (\<lambda>b. fst (snd b)) (filter (\<lambda>b. \<not> snd (snd b)) (dl_blocks ?d)))) \<le> now + t"
    by (rule Min_le [OF finite_set p])
  ultimately have "case fst (supervise_turn at ?d) of
      Stopped \<Rightarrow> False | Expired _ \<Rightarrow> True | WaitUntil w \<Rightarrow> w \<le> now + t | WaitMessage \<Rightarrow> False"
    using ok unfolding supervise_turn_def deadlines_ok_def Let_def by simp
  with reports_block [OF ok b, of ats] show ?thesis by simp
qed

theorem silence_reported_once_witness:
  "count_list (reports [3, 12, 15] (arrived [0x67] 10 1 deadlines_new)) [0x67] =
     (if \<exists>at \<in> set [3, 12, 15]. (1 :: nat) + 10 \<le> at then 1 else 0) \<and>
   (case fst (supervise_turn 4 (arrived [0x67] 10 1 deadlines_new)) of
      Stopped \<Rightarrow> False | Expired _ \<Rightarrow> True | WaitUntil w \<Rightarrow> w \<le> 1 + 10 | WaitMessage \<Rightarrow> False)"
  by (rule silence_reported_once [OF deadlines_ok_new]) simp

end
