(* ===== verification/Rust_Text.thy ===== *)
theory Rust_Text
  imports Rust_String
begin

text \<open>
  The string operations of the Rust standard library that names are built with: literals,
  \<open>split\<close>, \<open>split_once\<close>, \<open>rfind\<close>, \<open>join\<close>, \<open>trim\<close> and \<open>to_ascii_uppercase\<close>, on the UTF-8 octets
  of a string. The delimiters used are ASCII characters, which are octets of their own in
  UTF-8. The lemmas show that splitting and joining are inverse.
\<close>

section \<open>Literals\<close>

definition ascii :: "string \<Rightarrow> rust_string" where
  "ascii s = map of_char s"

lemma of_char_u8: "unat (of_char c :: u8) = (of_char c :: nat)"
proof -
  have "(of_char c :: u8) = of_nat (of_char c)"
    by (simp add: of_nat_of_char)
  then show ?thesis
    by (simp add: unat_of_nat_small)
qed

lemma ascii_inject [simp]: "ascii s = ascii t \<longleftrightarrow> s = t"
proof -
  have "inj (of_char :: char \<Rightarrow> u8)"
    by (rule injI) (metis of_char_u8 of_char_eq_iff)
  then show ?thesis
    by (simp add: ascii_def inj_map_eq_map)
qed

lemma ascii_simps [simp]: "ascii [] = []" "ascii (s @ t) = ascii s @ ascii t" "ascii s = [] \<longleftrightarrow> s = []"
  by (simp_all add: ascii_def)

section \<open>Splitting and joining\<close>

fun split_on :: "u8 \<Rightarrow> rust_string \<Rightarrow> rust_string list" where
  "split_on d [] = [[]]"
| "split_on d (b # bs) =
     (if b = d then [] # split_on d bs
      else case split_on d bs of [] \<Rightarrow> [[b]] | p # ps \<Rightarrow> (b # p) # ps)"

fun join_with :: "rust_string \<Rightarrow> rust_string list \<Rightarrow> rust_string" where
  "join_with sep [] = []"
| "join_with sep [p] = p"
| "join_with sep (p # q # ps) = p @ sep @ join_with sep (q # ps)"

fun split_once :: "u8 \<Rightarrow> rust_string \<Rightarrow> (rust_string \<times> rust_string) option" where
  "split_once d [] = None"
| "split_once d (b # bs) =
     (if b = d then Some ([], bs) else map_option (apfst ((#) b)) (split_once d bs))"

fun rfind_octet :: "u8 \<Rightarrow> rust_string \<Rightarrow> nat option" where
  "rfind_octet d [] = None"
| "rfind_octet d (b # bs) =
     (case rfind_octet d bs of Some i \<Rightarrow> Some (Suc i) | None \<Rightarrow> if b = d then Some 0 else None)"

definition ends_with :: "rust_string \<Rightarrow> rust_string \<Rightarrow> bool" where
  "ends_with s t \<longleftrightarrow> length t \<le> length s \<and> drop (length s - length t) s = t"

lemma split_on_nonempty [simp]: "split_on d s \<noteq> []"
  by (cases s) (auto split: list.splits)

lemma length_split_on_pos [simp]: "0 < length (split_on d s)"
  by simp

lemma split_on_append [simp]:
  "d \<notin> set p \<Longrightarrow> split_on d (p @ s) = (p @ hd (split_on d s)) # tl (split_on d s)"
  by (induction p) auto

lemma split_on_no_delim: "d \<notin> set p \<Longrightarrow> split_on d p = [p]"
  using split_on_append [of d p "[]"] by simp

lemma split_on_join:
  "ps \<noteq> [] \<Longrightarrow> \<forall>p\<in>set ps. d \<notin> set p \<Longrightarrow> split_on d (join_with [d] ps) = ps"
  by (induction "[d]" ps rule: join_with.induct) (simp_all add: split_on_no_delim)

lemma join_with_Cons: "ps \<noteq> [] \<Longrightarrow> join_with sep (p # ps) = p @ sep @ join_with sep ps"
  by (cases ps) simp_all

lemma join_with_Cons_octet: "join_with sep ((b # p) # ps) = b # join_with sep (p # ps)"
  by (cases ps) simp_all

lemma join_split_on [simp]: "join_with [d] (split_on d s) = s"
proof (induction s)
  case (Cons b s)
  then show ?case
    by (auto simp: join_with_Cons join_with_Cons_octet split: list.splits)
qed simp

lemma join_split_Cons: "split_on d s = p # ps \<Longrightarrow> s = join_with [d] (p # ps)"
  by (metis join_split_on)

lemma split_on_parts: "p \<in> set (split_on d s) \<Longrightarrow> d \<notin> set p"
proof (induction s arbitrary: p)
  case (Cons b s)
  then show ?case
    by (auto split: list.splits if_splits)
qed simp

lemma set_split_on: "p \<in> set (split_on d s) \<Longrightarrow> set p \<subseteq> set s"
proof (induction s arbitrary: p)
  case (Cons b s)
  then show ?case
    by (fastforce split: list.splits if_splits)
qed simp

lemma split_on_inject: "split_on d s = split_on d t \<longleftrightarrow> s = t"
  by (metis join_split_on)

lemma split_once_append [simp]: "d \<notin> set p \<Longrightarrow> split_once d (p @ d # s) = Some (p, s)"
  by (induction p) auto

lemma split_once_Some: "split_once d s = Some (p, t) \<Longrightarrow> s = p @ d # t \<and> d \<notin> set p"
proof (induction s arbitrary: p)
  case (Cons b s)
  then show ?case
    by (auto split: if_splits)
qed simp

lemma split_once_None: "split_once d s = None \<longleftrightarrow> d \<notin> set s"
  by (induction s) auto

lemma split_once_no_delim [simp]: "d \<notin> set s \<Longrightarrow> split_once d s = None"
  by (simp add: split_once_None)

lemma set_join_with: "set (join_with sep ps) \<subseteq> (\<Union>p\<in>set ps. set p) \<union> set sep"
  by (induction sep ps rule: join_with.induct) auto

section \<open>Trimming and case\<close>

text \<open>The characters with the Unicode property \<open>White_Space\<close>, as their octets.\<close>

definition whitespace :: "rust_string list" where
  "whitespace =
     map (\<lambda>b. [b]) [0x09, 0x0a, 0x0b, 0x0c, 0x0d, 0x20] @ [[0xc2, 0x85], [0xc2, 0xa0], [0xe1, 0x9a, 0x80]] @
     map (\<lambda>b. [0xe2, 0x80, b]) [0x80, 0x81, 0x82, 0x83, 0x84, 0x85, 0x86, 0x87, 0x88, 0x89, 0x8a, 0xa8, 0xa9, 0xaf] @
     [[0xe2, 0x81, 0x9f], [0xe3, 0x80, 0x80]]"

definition starts_with :: "rust_string \<Rightarrow> rust_string \<Rightarrow> bool" where
  "starts_with s t \<longleftrightarrow> take (length t) s = t"

lemma whitespace_nonempty: "w \<in> set whitespace \<Longrightarrow> w \<noteq> []"
  by (auto simp: whitespace_def)

function trim_start_with :: "rust_string list \<Rightarrow> rust_string \<Rightarrow> rust_string" where
  "trim_start_with ws s =
     (case find (\<lambda>w. w \<noteq> [] \<and> starts_with s w) ws of
        None \<Rightarrow> s
      | Some w \<Rightarrow> trim_start_with ws (drop (length w) s))"
  by pat_completeness auto
termination
proof (relation "measure (length \<circ> snd)")
  fix ws s w assume "find (\<lambda>w. w \<noteq> [] \<and> starts_with s w) ws = Some w"
  then have "w \<noteq> []" "starts_with s w"
    by (auto simp: find_Some_iff)
  then show "((ws, drop (length w) s), ws, s) \<in> measure (length \<circ> snd)"
    by (cases s) (auto simp: starts_with_def diff_less)
qed simp

declare trim_start_with.simps [simp del]

definition trim :: "rust_string \<Rightarrow> rust_string" where
  "trim s = rev (trim_start_with (map rev whitespace) (rev (trim_start_with whitespace s)))"

definition ascii_upper :: "u8 \<Rightarrow> u8" where
  "ascii_upper b = (if 0x61 \<le> b \<and> b \<le> 0x7a then b - 0x20 else b)"

definition to_ascii_uppercase :: "rust_string \<Rightarrow> rust_string" where
  "to_ascii_uppercase s = map ascii_upper s"

definition eq_ignore_ascii_case :: "rust_string \<Rightarrow> rust_string \<Rightarrow> bool" where
  "eq_ignore_ascii_case s t \<longleftrightarrow> to_ascii_uppercase s = to_ascii_uppercase t"

lemma trim_start_none:
  "(\<And>w. w \<in> set ws \<Longrightarrow> w \<noteq> [] \<Longrightarrow> \<not> starts_with s w) \<Longrightarrow> trim_start_with ws s = s"
  by (subst trim_start_with.simps) (auto simp: find_Some_iff split: option.splits)

text \<open>Text between capital letters is not trimmed.\<close>

definition is_upper :: "u8 \<Rightarrow> bool" where
  "is_upper b \<longleftrightarrow> 0x41 \<le> b \<and> b \<le> 0x5a"

lemma starts_with_hd: "s \<noteq> [] \<Longrightarrow> w \<noteq> [] \<Longrightarrow> starts_with s w \<Longrightarrow> hd w = hd s"
  by (metis starts_with_def hd_append2 append_take_drop_id)

lemma trim_upper: "s \<noteq> [] \<Longrightarrow> is_upper (hd s) \<Longrightarrow> is_upper (last s) \<Longrightarrow> trim s = s"
proof -
  assume s: "s \<noteq> []" "is_upper (hd s)" "is_upper (last s)"
  have ws: "\<not> is_upper (hd w) \<and> \<not> is_upper (hd (rev w))" if "w \<in> set whitespace" for w
    using that by (auto simp: whitespace_def is_upper_def)
  have a: "trim_start_with whitespace s = s"
    using s ws starts_with_hd [OF s(1)] by (intro trim_start_none) metis
  have "trim_start_with (map rev whitespace) (rev s) = rev s"
    using s ws starts_with_hd [of "rev s"] by (intro trim_start_none) (fastforce simp: hd_rev)
  with a show ?thesis
    by (simp add: trim_def)
qed

lemma uppercase_upper: "\<forall>b\<in>set s. is_upper b \<Longrightarrow> to_ascii_uppercase s = s"
  by (induction s) (auto simp: to_ascii_uppercase_def ascii_upper_def is_upper_def word_le_nat_alt)

end
