(* ===== verification/Model_Reference.thy ===== *)
theory Model_Reference
  imports Rust_Text
begin

text \<open>
  Functional constraints (\<open>src/model/fc.rs\<close>) and object references (\<open>src/model/reference.rs\<close>)
  with their MMS names. The lemmas show that a mnemonic parses to its constraint in any case
  and that a reference survives the way to its MMS name and back.
\<close>

section \<open>Functional constraints\<close>

datatype fc =
    FcNone | FcSt | FcMx | FcCo | FcSp | FcSg | FcSe | FcSv | FcCf | FcDc | FcEx | FcOr | FcBl
  | FcRp | FcBr | FcLg | FcGo | FcGs | FcMs | FcUs | FcAll | FcSr | FcUnknown

definition FC_ALL_VALUES :: "fc list" where
  "FC_ALL_VALUES =
     [FcSt, FcMx, FcCo, FcSp, FcSg, FcSe, FcSv, FcCf, FcDc, FcEx, FcOr, FcBl, FcRp, FcBr, FcLg, FcGo,
      FcGs, FcMs, FcUs, FcSr]"

text \<open>The derived order of the enumeration: its declaration order.\<close>

fun fc_index :: "fc \<Rightarrow> nat" where
  "fc_index FcNone = 0" | "fc_index FcSt = 1" | "fc_index FcMx = 2" | "fc_index FcCo = 3"
| "fc_index FcSp = 4" | "fc_index FcSg = 5" | "fc_index FcSe = 6" | "fc_index FcSv = 7"
| "fc_index FcCf = 8" | "fc_index FcDc = 9" | "fc_index FcEx = 10" | "fc_index FcOr = 11"
| "fc_index FcBl = 12" | "fc_index FcRp = 13" | "fc_index FcBr = 14" | "fc_index FcLg = 15"
| "fc_index FcGo = 16" | "fc_index FcGs = 17" | "fc_index FcMs = 18" | "fc_index FcUs = 19"
| "fc_index FcAll = 20" | "fc_index FcSr = 21" | "fc_index FcUnknown = 22"

lemma fc_index_inject: "fc_index a = fc_index b \<longleftrightarrow> a = b"
proof -
  have "fc_index a = fc_index b \<Longrightarrow> a = b"
    by (cases a) (cases b; simp)+
  then show ?thesis by blast
qed

instantiation fc :: linorder
begin

definition less_eq_fc :: "fc \<Rightarrow> fc \<Rightarrow> bool" where
  "a \<le> b \<longleftrightarrow> fc_index a \<le> fc_index b"

definition less_fc :: "fc \<Rightarrow> fc \<Rightarrow> bool" where
  "a < b \<longleftrightarrow> fc_index a < fc_index b"

instance
  by standard (auto simp: less_eq_fc_def less_fc_def fc_index_inject)

end

fun fc_str :: "fc \<Rightarrow> string" where
  "fc_str FcNone = ''''" | "fc_str FcSt = ''ST''" | "fc_str FcMx = ''MX''" | "fc_str FcCo = ''CO''"
| "fc_str FcSp = ''SP''" | "fc_str FcSg = ''SG''" | "fc_str FcSe = ''SE''" | "fc_str FcSv = ''SV''"
| "fc_str FcCf = ''CF''" | "fc_str FcDc = ''DC''" | "fc_str FcEx = ''EX''" | "fc_str FcOr = ''OR''"
| "fc_str FcBl = ''BL''" | "fc_str FcRp = ''RP''" | "fc_str FcBr = ''BR''" | "fc_str FcLg = ''LG''"
| "fc_str FcGo = ''GO''" | "fc_str FcGs = ''GS''" | "fc_str FcMs = ''MS''" | "fc_str FcUs = ''US''"
| "fc_str FcAll = ''*''" | "fc_str FcSr = ''SR''" | "fc_str FcUnknown = ''??''"

definition fc_as_str :: "fc \<Rightarrow> rust_string" where
  "fc_as_str fc = ascii (fc_str fc)"

definition fc_matches :: "fc \<Rightarrow> fc \<Rightarrow> bool" where
  "fc_matches fc other \<longleftrightarrow> fc = FcAll \<or> fc = FcNone \<or> fc = other"

definition fc_is_report :: "fc \<Rightarrow> bool" where
  "fc_is_report fc \<longleftrightarrow> fc = FcRp \<or> fc = FcBr"

definition fc_is_setting_group :: "fc \<Rightarrow> bool" where
  "fc_is_setting_group fc \<longleftrightarrow> fc = FcSg \<or> fc = FcSe"

datatype parse_fc_error = ParseFcError rust_string

definition parse_fc :: "rust_string \<Rightarrow> parse_fc_error + fc" where
  "parse_fc s =
     (let u = to_ascii_uppercase (trim s)
      in if u = ascii ''*'' then Inr FcAll
         else case find (\<lambda>fc. fc_as_str fc = u) FC_ALL_VALUES of
           Some fc \<Rightarrow> Inr fc
         | None \<Rightarrow> Inl (ParseFcError s))"

definition parse_fc_lenient :: "rust_string \<Rightarrow> fc" where
  "parse_fc_lenient s =
     (if trim s = [] then FcNone
      else case parse_fc (trim s) of Inl e \<Rightarrow> FcUnknown | Inr fc \<Rightarrow> fc)"

definition fc_text :: "fc \<Rightarrow> rust_string \<Rightarrow> rust_string" where
  "fc_text fc raw =
     (if fc \<noteq> FcUnknown then fc_as_str fc
      else let u = to_ascii_uppercase (trim raw) in if u = [] then fc_as_str fc else u)"

lemma fc_as_str_simps:
  "fc \<in> set FC_ALL_VALUES \<Longrightarrow> length (fc_as_str fc) = 2"
  "fc \<in> set FC_ALL_VALUES \<Longrightarrow> \<forall>b\<in>set (fc_as_str fc). is_upper b"
  by (auto simp: FC_ALL_VALUES_def fc_as_str_def ascii_def is_upper_def)

lemma trim_fc_as_str:
  assumes "fc \<in> set FC_ALL_VALUES"
  shows "trim (fc_as_str fc) = fc_as_str fc" "to_ascii_uppercase (fc_as_str fc) = fc_as_str fc"
    "fc_as_str fc \<noteq> []"
proof -
  show "fc_as_str fc \<noteq> []"
    using fc_as_str_simps(1) [OF assms] by auto
  then show "trim (fc_as_str fc) = fc_as_str fc"
    using fc_as_str_simps(2) [OF assms] by (intro trim_upper) simp_all
  show "to_ascii_uppercase (fc_as_str fc) = fc_as_str fc"
    using fc_as_str_simps(2) [OF assms] by (rule uppercase_upper)
qed

lemma fc_str_inject: "a \<in> set FC_ALL_VALUES \<Longrightarrow> b \<in> set FC_ALL_VALUES \<Longrightarrow> fc_str a = fc_str b \<Longrightarrow> a = b"
proof -
  have "distinct (map fc_str FC_ALL_VALUES)"
    by (simp add: FC_ALL_VALUES_def)
  then have "inj_on fc_str (set FC_ALL_VALUES)"
    by (simp only: distinct_map)
  then show "a \<in> set FC_ALL_VALUES \<Longrightarrow> b \<in> set FC_ALL_VALUES \<Longrightarrow> fc_str a = fc_str b \<Longrightarrow> a = b"
    by (simp only: inj_on_eq_iff)
qed

lemma parse_fc_as_str:
  assumes "fc \<in> set FC_ALL_VALUES"
  shows "parse_fc (fc_as_str fc) = Inr fc"
proof -
  have "find (\<lambda>x. fc_as_str x = fc_as_str fc) FC_ALL_VALUES = Some fc"
  proof -
    obtain y where y: "find (\<lambda>x. fc_as_str x = fc_as_str fc) FC_ALL_VALUES = Some y"
      using assms by (cases "find (\<lambda>x. fc_as_str x = fc_as_str fc) FC_ALL_VALUES") (auto simp: find_None_iff)
    then have "y \<in> set FC_ALL_VALUES" "fc_as_str y = fc_as_str fc"
      by (auto simp: find_Some_iff)
    then have "y = fc"
      using fc_str_inject [OF _ assms] by (simp add: fc_as_str_def)
    with y show ?thesis by simp
  qed
  moreover have "fc_as_str fc \<noteq> ascii ''*''"
    using fc_as_str_simps(1) [OF assms] by (auto simp: ascii_def)
  ultimately show ?thesis
    by (simp add: parse_fc_def trim_fc_as_str [OF assms] Let_def)
qed

lemma parse_fc_lenient_as_str: "fc \<in> set FC_ALL_VALUES \<Longrightarrow> parse_fc_lenient (fc_as_str fc) = fc"
  by (simp add: parse_fc_lenient_def trim_fc_as_str parse_fc_as_str)

section \<open>Object references\<close>

abbreviation slash :: u8 where "slash \<equiv> 0x2f"
abbreviation dot :: u8 where "dot \<equiv> 0x2e"
abbreviation dollar :: u8 where "dollar \<equiv> 0x24"

type_synonym object_reference = rust_string

datatype ref_error = RefShape rust_string | RefEmptyComponent rust_string

definition ref_validate :: "object_reference \<Rightarrow> ref_error + unit" where
  "ref_validate r =
     (case split_once slash r of
        None \<Rightarrow> Inl (RefShape r)
      | Some (ld, path) \<Rightarrow>
          if ld = [] \<or> path = [] then Inl (RefShape r)
          else if list_ex (\<lambda>p. p = []) (split_on dot path) then Inl (RefEmptyComponent r)
          else Inr ())"

definition ref_parse :: "rust_string \<Rightarrow> ref_error + object_reference" where
  "ref_parse s = try_bind (ref_validate s) (\<lambda>_. Inr s)"

definition ref_ld :: "object_reference \<Rightarrow> rust_string" where
  "ref_ld r = (case split_once slash r of None \<Rightarrow> [] | Some (ld, _) \<Rightarrow> ld)"

definition ref_ln :: "object_reference \<Rightarrow> rust_string" where
  "ref_ln r = (case split_once slash r of None \<Rightarrow> [] | Some (_, path) \<Rightarrow> hd (split_on dot path))"

definition ref_path :: "object_reference \<Rightarrow> rust_string list" where
  "ref_path r = (case split_once slash r of None \<Rightarrow> [] | Some (_, path) \<Rightarrow> split_on dot path)"

definition ref_parent :: "object_reference \<Rightarrow> object_reference option" where
  "ref_parent r = (case rfind_octet dot r of None \<Rightarrow> None | Some i \<Rightarrow> Some (take i r))"

definition ref_child :: "object_reference \<Rightarrow> rust_string \<Rightarrow> object_reference" where
  "ref_child r name = r @ [dot] @ name"

definition to_mms :: "object_reference \<Rightarrow> fc \<Rightarrow> rust_string \<times> rust_string" where
  "to_mms r fc =
     (let domain = ref_ld r; parts = ref_path r in
      if parts = [] then (domain, [])
      else let item = hd parts;
               item = (if fc \<noteq> FcNone \<and> fc \<noteq> FcAll then item @ [dollar] @ fc_as_str fc else item)
           in (domain, item @ concat (map (\<lambda>p. [dollar] @ p) (tl parts))))"

fun from_mms_loop :: "nat \<Rightarrow> rust_string list \<Rightarrow> fc \<Rightarrow> rust_string list \<Rightarrow> fc \<times> rust_string list" where
  "from_mms_loop i [] fc path = (fc, path)"
| "from_mms_loop i (p # ps) fc path =
     (if i = 1 then
        (case parse_fc p of
           Inr f \<Rightarrow> from_mms_loop (i + 1) ps f path
         | Inl e \<Rightarrow> from_mms_loop (i + 1) ps fc (path @ [p]))
      else from_mms_loop (i + 1) ps fc (path @ [p]))"

definition from_mms :: "rust_string \<Rightarrow> rust_string \<Rightarrow> object_reference \<times> fc" where
  "from_mms domain item =
     (case from_mms_loop 0 (split_on dollar item) FcNone [] of
        (fc, path) \<Rightarrow> (domain @ [slash] @ join_with [dot] path, fc))"

section \<open>References and names\<close>

lemma ref_components:
  assumes "ref_validate r = Inr ()"
  obtains ps where "r = ref_ld r @ [slash] @ join_with [dot] ps" "ref_path r = ps" "ps \<noteq> []"
    "slash \<notin> set (ref_ld r)" "\<forall>p\<in>set ps. p \<noteq> [] \<and> dot \<notin> set p"
proof -
  obtain ld path where s: "split_once slash r = Some (ld, path)" "\<forall>p\<in>set (split_on dot path). p \<noteq> []"
    using assms by (auto simp: ref_validate_def list_ex_iff split: option.splits prod.splits if_splits)
  then show ?thesis
    using that [of "split_on dot path"] split_once_Some [OF s(1)]
    by (auto simp: ref_ld_def ref_path_def dest: split_on_parts)
qed

lemma ref_path_octets: "p \<in> set (ref_path r) \<Longrightarrow> set p \<subseteq> set r"
proof -
  assume p: "p \<in> set (ref_path r)"
  then obtain ld path where s: "split_once slash r = Some (ld, path)" "p \<in> set (split_on dot path)"
    by (cases "split_once slash r") (auto simp: ref_path_def)
  then show "set p \<subseteq> set r"
    using set_split_on [OF s(2)] split_once_Some [OF s(1)] by auto
qed

lemma ref_path_child:
  "ref_path r \<noteq> [] \<Longrightarrow> dot \<notin> set name \<Longrightarrow> ref_path (ref_child r name) = ref_path r @ [name]"
  "ref_path r \<noteq> [] \<Longrightarrow> ref_ld (ref_child r name) = ref_ld r"
proof -
  have j: "split_on dot (path @ dot # name) = split_on dot path @ split_on dot name" for path
    by (induction path) (auto split: list.splits)
  have s: "split_once slash (ld @ slash # path @ dot # name) = Some (ld, path @ dot # name)"
    if "slash \<notin> set ld" for ld path using that by simp
  assume "ref_path r \<noteq> []"
  then obtain ld path where r: "split_once slash r = Some (ld, path)"
    by (auto simp: ref_path_def split: option.splits)
  then have c: "split_once slash (ref_child r name) = Some (ld, path @ dot # name)"
    using split_once_Some [OF r] s by (simp add: ref_child_def)
  show "ref_ld (ref_child r name) = ref_ld r"
    using r c by (simp add: ref_ld_def)
  show "ref_path (ref_child r name) = ref_path r @ [name]" if "dot \<notin> set name"
    using r c that by (simp add: ref_path_def j split_on_no_delim)
qed

lemma join_dollar: "concat (map (\<lambda>p. [dollar] @ p) ps) = (if ps = [] then [] else [dollar] @ join_with [dollar] ps)"
  by (induction ps rule: induct_list012) simp_all

lemma from_mms_loop_tail: "1 < i \<Longrightarrow> from_mms_loop i ps fc path = (fc, path @ ps)"
  by (induction ps arbitrary: i path) simp_all

lemma to_mms_item:
  assumes "ref_path r = p # ps" "fc \<in> set FC_ALL_VALUES"
  shows "to_mms r fc = (ref_ld r, join_with [dollar] (p # fc_as_str fc # ps))"
proof -
  have "fc \<noteq> FcNone" "fc \<noteq> FcAll"
    using assms by (auto simp: FC_ALL_VALUES_def)
  then show ?thesis
    using assms by (simp add: to_mms_def Let_def join_dollar join_with_Cons)
qed

lemma from_mms_to_mms:
  assumes "ref_validate r = Inr ()" "dollar \<notin> set r" "fc \<in> set FC_ALL_VALUES"
  shows "(case to_mms r fc of (d, item) \<Rightarrow> from_mms d item) = (r, fc)"
proof -
  obtain p ps where r: "r = ref_ld r @ [slash] @ join_with [dot] (p # ps)" "ref_path r = p # ps"
    using assms(1) by (metis ref_components neq_Nil_conv)
  have path: "\<forall>q\<in>set (p # ps). dollar \<notin> set q"
    using r(2) assms(2) ref_path_octets [of _ r] by auto
  have "dollar \<notin> set (fc_as_str fc)"
    using fc_as_str_simps(2) [OF assms(3)] by (auto simp: is_upper_def)
  then have "split_on dollar (join_with [dollar] (p # fc_as_str fc # ps)) = p # fc_as_str fc # ps"
    using path by (intro split_on_join) auto
  then show ?thesis
    using r by (simp add: to_mms_item [OF r(2) assms(3)] from_mms_def from_mms_loop_tail
        parse_fc_as_str [OF assms(3)])
qed

lemma to_mms_from_mms:
  assumes "fc \<in> set FC_ALL_VALUES" "split_on dollar item = p # fc_as_str fc # ps"
    and "slash \<notin> set domain" "\<forall>q\<in>set (p # ps). dot \<notin> set q"
  shows "(case from_mms domain item of (r, f) \<Rightarrow> to_mms r f) = (domain, item)"
proof -
  have f: "from_mms domain item = (domain @ [slash] @ join_with [dot] (p # ps), fc)"
    using assms by (simp add: from_mms_def from_mms_loop_tail parse_fc_as_str)
  have "ref_path (domain @ [slash] @ join_with [dot] (p # ps)) = p # ps"
    "ref_ld (domain @ [slash] @ join_with [dot] (p # ps)) = domain"
    using assms split_on_join [of "p # ps" dot] by (simp_all add: ref_path_def ref_ld_def)
  then show ?thesis
    using f to_mms_item [OF _ assms(1)] join_split_Cons [OF assms(2)] by simp
qed

end
