(* ===== verification/Model_Quality.thy ===== *)
theory Model_Quality
  imports Mms_Value
begin

text \<open>
  The bit-string types of IEC 61850-7-3: \<open>src/model/quality.rs\<close>. A flag set is a word; its MMS
  form is a bit string whose position \<open>i\<close> is bit \<open>i\<close> of the word. The four flag types share one
  contract, the locale \<open>flag_string\<close>. Building or reading a bit string indexes octets, so the
  conversions are partial in the model; the lemmas show that they always succeed. The texts
  are those of the \<open>Display\<close> implementations.
\<close>

fun mask_to_bits_loop :: "u32 \<Rightarrow> nat list \<Rightarrow> mms_value \<Rightarrow> mms_value option" where
  "mask_to_bits_loop m [] v = Some v"
| "mask_to_bits_loop m (i # is) v =
     (case value_set_bit v i (m AND push_bit i 1 \<noteq> 0) of
        None \<Rightarrow> None | Some v' \<Rightarrow> mask_to_bits_loop m is v')"

definition mask_to_bits :: "u32 \<Rightarrow> nat \<Rightarrow> mms_value option" where
  "mask_to_bits m width = mask_to_bits_loop m [0..<width] (BitStringV (bit_string_new width))"

fun mask_from_bits_loop :: "mms_value \<Rightarrow> nat list \<Rightarrow> u32 \<Rightarrow> u32 option" where
  "mask_from_bits_loop v [] m = Some m"
| "mask_from_bits_loop v (i # is) m =
     (case value_bit v i of None \<Rightarrow> None
      | Some b \<Rightarrow> mask_from_bits_loop v is (if b then m OR push_bit i 1 else m))"

definition mask_from_bits :: "mms_value \<Rightarrow> nat \<Rightarrow> u32 option" where
  "mask_from_bits v width = mask_from_bits_loop v [0..<min (value_bit_len v) width] 0"

section \<open>Quality\<close>

datatype validity = VGood | VInvalid | VReserved | VQuestionable

definition validity_from_bits :: "u16 \<Rightarrow> validity" where
  "validity_from_bits b =
     (if b AND 3 = 0 then VGood else if b AND 3 = 1 then VReserved
      else if b AND 3 = 2 then VInvalid else VQuestionable)"

fun validity_bits :: "validity \<Rightarrow> u16" where
  "validity_bits VGood = 0"
| "validity_bits VReserved = 1"
| "validity_bits VInvalid = 2"
| "validity_bits VQuestionable = 3"

fun validity_text :: "validity \<Rightarrow> string" where
  "validity_text VGood = ''good''"
| "validity_text VInvalid = ''invalid''"
| "validity_text VReserved = ''reserved''"
| "validity_text VQuestionable = ''questionable''"

type_synonym quality = u16

definition Q_GOOD :: quality where "Q_GOOD = 0"
definition Q_OVERFLOW :: quality where "Q_OVERFLOW = push_bit 2 1"
definition Q_OUT_OF_RANGE :: quality where "Q_OUT_OF_RANGE = push_bit 3 1"
definition Q_BAD_REFERENCE :: quality where "Q_BAD_REFERENCE = push_bit 4 1"
definition Q_OSCILLATORY :: quality where "Q_OSCILLATORY = push_bit 5 1"
definition Q_FAILURE :: quality where "Q_FAILURE = push_bit 6 1"
definition Q_OLD_DATA :: quality where "Q_OLD_DATA = push_bit 7 1"
definition Q_INCONSISTENT :: quality where "Q_INCONSISTENT = push_bit 8 1"
definition Q_INACCURATE :: quality where "Q_INACCURATE = push_bit 9 1"
definition Q_SUBSTITUTED :: quality where "Q_SUBSTITUTED = push_bit 10 1"
definition Q_TEST :: quality where "Q_TEST = push_bit 11 1"
definition Q_OPERATOR_BLOCKED :: quality where "Q_OPERATOR_BLOCKED = push_bit 12 1"
definition Q_WIDTH :: nat where "Q_WIDTH = 13"

definition quality_validity :: "quality \<Rightarrow> validity" where
  "quality_validity q = validity_from_bits q"

definition with_validity :: "quality \<Rightarrow> validity \<Rightarrow> quality" where
  "with_validity q v = (q AND NOT 3) OR validity_bits v"

definition quality_is :: "quality \<Rightarrow> quality \<Rightarrow> bool" where
  "quality_is q m \<longleftrightarrow> q AND m = m"

definition quality_value :: "quality \<Rightarrow> mms_value option" where
  "quality_value q = mask_to_bits (ucast q) Q_WIDTH"

definition quality_from_value :: "mms_value \<Rightarrow> quality option" where
  "quality_from_value v = map_option ucast (mask_from_bits v 16)"

definition quality_text :: "quality \<Rightarrow> string" where
  "quality_text q = validity_text (quality_validity q) @
     concat (map (\<lambda>(b, name). if quality_is q b then ''|'' @ name else [])
       [(Q_OVERFLOW, ''overflow''), (Q_OUT_OF_RANGE, ''out-of-range''),
        (Q_BAD_REFERENCE, ''bad-reference''), (Q_OSCILLATORY, ''oscillatory''),
        (Q_FAILURE, ''failure''), (Q_OLD_DATA, ''old-data''), (Q_INCONSISTENT, ''inconsistent''),
        (Q_INACCURATE, ''inaccurate''), (Q_SUBSTITUTED, ''substituted''), (Q_TEST, ''test''),
        (Q_OPERATOR_BLOCKED, ''operator-blocked'')])"

section \<open>Double-point positions\<close>

datatype dbpos = Intermediate | Off | On | Bad

fun dbpos_bits :: "dbpos \<Rightarrow> u8" where
  "dbpos_bits Intermediate = 0"
| "dbpos_bits Off = 1"
| "dbpos_bits On = 2"
| "dbpos_bits Bad = 3"

definition dbpos_from_bits :: "u8 \<Rightarrow> dbpos" where
  "dbpos_from_bits b =
     (if b AND 3 = 0 then Intermediate else if b AND 3 = 1 then Off
      else if b AND 3 = 2 then On else Bad)"

definition dbpos_value :: "dbpos \<Rightarrow> mms_value option" where
  "dbpos_value p =
     (let b = dbpos_bits p in
      case value_set_bit (BitStringV (bit_string_new 2)) 0 (b AND 2 \<noteq> 0) of
        None \<Rightarrow> None | Some v \<Rightarrow> value_set_bit v 1 (b AND 1 \<noteq> 0))"

definition dbpos_from_value :: "mms_value \<Rightarrow> dbpos option" where
  "dbpos_from_value v =
     (case value_bit v 0 of None \<Rightarrow> None | Some hi \<Rightarrow>
        case value_bit v 1 of None \<Rightarrow> None | Some lo \<Rightarrow>
          Some (dbpos_from_bits ((if hi then 2 else 0) OR (if lo then 1 else 0))))"

fun dbpos_text :: "dbpos \<Rightarrow> string" where
  "dbpos_text Intermediate = ''intermediate''"
| "dbpos_text Off = ''off''"
| "dbpos_text On = ''on''"
| "dbpos_text Bad = ''bad''"

section \<open>Trigger options, optional fields and reasons\<close>

text \<open>The texts of the flag types: the names of the set flags with \<open>|\<close> between them.\<close>

fun flags_loop :: "('a::len word \<times> string) list \<Rightarrow> 'a word \<Rightarrow> bool \<Rightarrow> string" where
  "flags_loop [] w wrote = (if wrote then [] else ''none'')"
| "flags_loop ((b, name) # fs) w wrote =
     (if w AND b \<noteq> 0 then (if wrote then ''|'' else []) @ name @ flags_loop fs w True
      else flags_loop fs w wrote)"

type_synonym trg_ops = u8

definition TRG_DATA_CHANGE :: trg_ops where "TRG_DATA_CHANGE = push_bit 1 1"
definition TRG_QUALITY_CHANGE :: trg_ops where "TRG_QUALITY_CHANGE = push_bit 2 1"
definition TRG_DATA_UPDATE :: trg_ops where "TRG_DATA_UPDATE = push_bit 3 1"
definition TRG_INTEGRITY :: trg_ops where "TRG_INTEGRITY = push_bit 4 1"
definition TRG_GI :: trg_ops where "TRG_GI = push_bit 5 1"
definition TRG_WIDTH :: nat where "TRG_WIDTH = 6"

definition trg_has :: "trg_ops \<Rightarrow> trg_ops \<Rightarrow> bool" where
  "trg_has t m \<longleftrightarrow> t AND m \<noteq> 0"

definition trg_value :: "trg_ops \<Rightarrow> mms_value option" where
  "trg_value t = mask_to_bits (ucast t) TRG_WIDTH"

definition trg_from_value :: "mms_value \<Rightarrow> trg_ops option" where
  "trg_from_value v = map_option ucast (mask_from_bits v TRG_WIDTH)"

definition trg_text :: "trg_ops \<Rightarrow> string" where
  "trg_text t = flags_loop [(TRG_DATA_CHANGE, ''dchg''), (TRG_QUALITY_CHANGE, ''qchg''),
     (TRG_DATA_UPDATE, ''dupd''), (TRG_INTEGRITY, ''period''), (TRG_GI, ''gi'')] t False"

type_synonym opt_flds = u16

definition OPT_SEQ_NUM :: opt_flds where "OPT_SEQ_NUM = push_bit 1 1"
definition OPT_TIME_OF_ENTRY :: opt_flds where "OPT_TIME_OF_ENTRY = push_bit 2 1"
definition OPT_REASON_CODE :: opt_flds where "OPT_REASON_CODE = push_bit 3 1"
definition OPT_DATA_SET_NAME :: opt_flds where "OPT_DATA_SET_NAME = push_bit 4 1"
definition OPT_DATA_REF :: opt_flds where "OPT_DATA_REF = push_bit 5 1"
definition OPT_BUF_OVFL :: opt_flds where "OPT_BUF_OVFL = push_bit 6 1"
definition OPT_ENTRY_ID :: opt_flds where "OPT_ENTRY_ID = push_bit 7 1"
definition OPT_CONF_REV :: opt_flds where "OPT_CONF_REV = push_bit 8 1"
definition OPT_SEGMENTATION :: opt_flds where "OPT_SEGMENTATION = push_bit 9 1"
definition OPT_WIDTH :: nat where "OPT_WIDTH = 10"

definition OPT_DEFAULT :: opt_flds where
  "OPT_DEFAULT = OPT_SEQ_NUM OR OPT_TIME_OF_ENTRY OR OPT_REASON_CODE OR OPT_DATA_SET_NAME OR OPT_CONF_REV"

definition opt_has :: "opt_flds \<Rightarrow> opt_flds \<Rightarrow> bool" where
  "opt_has f m \<longleftrightarrow> f AND m \<noteq> 0"

definition opt_value :: "opt_flds \<Rightarrow> mms_value option" where
  "opt_value f = mask_to_bits (ucast f) OPT_WIDTH"

definition opt_from_value :: "mms_value \<Rightarrow> opt_flds option" where
  "opt_from_value v = map_option ucast (mask_from_bits v OPT_WIDTH)"

definition opt_text :: "opt_flds \<Rightarrow> string" where
  "opt_text f = flags_loop [(OPT_SEQ_NUM, ''seqnum''), (OPT_TIME_OF_ENTRY, ''timestamp''),
     (OPT_REASON_CODE, ''reason''), (OPT_DATA_SET_NAME, ''dataset''), (OPT_DATA_REF, ''dataref''),
     (OPT_BUF_OVFL, ''bufovfl''), (OPT_ENTRY_ID, ''entryid''), (OPT_CONF_REV, ''confrev''),
     (OPT_SEGMENTATION, ''segmentation'')] f False"

type_synonym reason_code = u8

definition RC_DATA_CHANGE :: reason_code where "RC_DATA_CHANGE = push_bit 1 1"
definition RC_QUALITY_CHANGE :: reason_code where "RC_QUALITY_CHANGE = push_bit 2 1"
definition RC_DATA_UPDATE :: reason_code where "RC_DATA_UPDATE = push_bit 3 1"
definition RC_INTEGRITY :: reason_code where "RC_INTEGRITY = push_bit 4 1"
definition RC_GI :: reason_code where "RC_GI = push_bit 5 1"
definition RC_APPL_TRIGGER :: reason_code where "RC_APPL_TRIGGER = push_bit 6 1"
definition RC_WIDTH :: nat where "RC_WIDTH = 7"

definition reason_has :: "reason_code \<Rightarrow> reason_code \<Rightarrow> bool" where
  "reason_has r m \<longleftrightarrow> r AND m \<noteq> 0"

definition reason_value :: "reason_code \<Rightarrow> mms_value option" where
  "reason_value r = mask_to_bits (ucast r) RC_WIDTH"

definition reason_from_value :: "mms_value \<Rightarrow> reason_code option" where
  "reason_from_value v = map_option ucast (mask_from_bits v RC_WIDTH)"

definition reason_text :: "reason_code \<Rightarrow> string" where
  "reason_text r = flags_loop [(RC_DATA_CHANGE, ''dchg''), (RC_QUALITY_CHANGE, ''qchg''),
     (RC_DATA_UPDATE, ''dupd''), (RC_INTEGRITY, ''integrity''), (RC_GI, ''gi''),
     (RC_APPL_TRIGGER, ''app-trigger'')] r False"

section \<open>The contract of the flag types\<close>

text \<open>A bit string in which every position can be read and written.\<close>

definition data_bits_ok :: "mms_value \<Rightarrow> bool" where
  "data_bits_ok v \<longleftrightarrow> (\<exists>bs. v = BitStringV bs \<and> bs_wf bs)"

text \<open>
  A flag type writes its low \<open>w\<close> bits to a bit string of that length and reads up to \<open>r\<close> bits
  of a bit string back.
\<close>

locale flag_string =
  fixes w r :: nat
    and enc :: "'a::len word \<Rightarrow> mms_value option"
    and dec :: "mms_value \<Rightarrow> 'a word option"
  assumes width: "w \<le> r" "r \<le> 32"
    and enc_bits: "enc x = mask_to_bits (ucast x) w"
    and dec_bits: "dec v = map_option ucast (mask_from_bits v r)"
begin

lemma to_bits_loop:
  "mask_to_bits_loop m is (BitStringV bs) = map_option BitStringV (from_u32_loop m is bs)"
  by (induction "is" arbitrary: bs) (auto split: option.splits)

lemma from_bits_loop: "mask_from_bits_loop (BitStringV bs) is m = to_u32_loop bs is m"
  by (induction "is" arbitrary: m) (auto split: option.splits)

lemma enc_total:
  obtains bs where "enc x = Some (BitStringV bs)" "bs_wf bs" "bs_length bs = w"
    "\<And>j. bs_bit bs j = Some (j < w \<and> bit x j)"
proof -
  have n: "min w 32 = w" "w \<le> 32" using width by simp_all
  obtain bs where bs: "from_u32 (ucast x) w = Some bs" "bs_wf bs" "bs_length bs = w"
    "\<And>j. bs_bit bs j = Some (j < w \<and> bit (ucast x :: u32) j)"
    using from_u32_total [OF n(2), of "ucast x"] by blast
  have "enc x = Some (BitStringV bs)"
    using bs(1) n by (simp add: enc_bits mask_to_bits_def to_bits_loop from_u32_def)
  moreover have "(j < w \<and> bit (ucast x :: u32) j) = (j < w \<and> bit x j)" for j
    using n(2) by (auto simp: octet_bits dest: bit_imp_le_length)
  ultimately show ?thesis using that bs by simp
qed

lemma dec_wf:
  assumes "bs_wf bs"
  obtains x where "dec (BitStringV bs) = Some x"
    "\<And>j. j < LENGTH('a) \<Longrightarrow> bit x j \<longleftrightarrow> j < min (bs_length bs) r \<and> bs_bit bs j = Some True"
proof -
  have "\<forall>i \<in> set [0..<min (bs_length bs) r]. i < 32" using width by auto
  from to_u32_loop_spec [OF assms this, of 0] obtain m where m:
    "to_u32_loop bs [0..<min (bs_length bs) r] 0 = Some m"
    "\<forall>j < 32. bit m j \<longleftrightarrow> j < min (bs_length bs) r \<and> bs_bit bs j = Some True" by auto
  have "dec (BitStringV bs) = Some (ucast m)"
    using m(1) by (simp add: dec_bits mask_from_bits_def from_bits_loop)
  moreover have "bit (ucast m :: 'a word) j \<longleftrightarrow> j < min (bs_length bs) r \<and> bs_bit bs j = Some True"
    if "j < LENGTH('a)" for j
    using that m(2) width by (cases "j < 32") (auto simp: octet_bits dest: bit_imp_le_length)
  ultimately show ?thesis using that by blast
qed

text \<open>Writing and reading keeps the bits of the type and drops the rest.\<close>

lemma dec_enc: "\<exists>v. enc x = Some v \<and> data_bits_ok v \<and> dec v = Some (take_bit w x)"
proof -
  obtain bs where bs: "enc x = Some (BitStringV bs)" "bs_wf bs" "bs_length bs = w"
    "\<And>j. bs_bit bs j = Some (j < w \<and> bit x j)" by (rule enc_total [of x]) blast
  obtain y where y: "dec (BitStringV bs) = Some y"
    "\<And>j. j < LENGTH('a) \<Longrightarrow> bit y j \<longleftrightarrow> j < min (bs_length bs) r \<and> bs_bit bs j = Some True"
    by (rule dec_wf [OF bs(2)]) blast
  have "y = take_bit w x"
    using y(2) bs(3,4) width(1) by (intro bit_word_eqI) (auto simp: bit_take_bit_iff)
  with bs y show ?thesis by (auto simp: data_bits_ok_def)
qed

end

interpretation quality_flags: flag_string Q_WIDTH 16 quality_value quality_from_value
  by unfold_locales (simp_all add: Q_WIDTH_def quality_value_def quality_from_value_def)

interpretation trg_flags: flag_string TRG_WIDTH TRG_WIDTH trg_value trg_from_value
  by unfold_locales (simp_all add: TRG_WIDTH_def trg_value_def trg_from_value_def)

interpretation opt_flags: flag_string OPT_WIDTH OPT_WIDTH opt_value opt_from_value
  by unfold_locales (simp_all add: OPT_WIDTH_def opt_value_def opt_from_value_def)

interpretation reason_flags: flag_string RC_WIDTH RC_WIDTH reason_value reason_from_value
  by unfold_locales (simp_all add: RC_WIDTH_def reason_value_def reason_from_value_def)

section \<open>Validity and positions\<close>

lemma bit_u16_3 [simp]: "bit (3 :: u16) n \<longleftrightarrow> n < 2"
  using bit_mask_word [of 2 n, where ?'a = 16] by (auto simp: mask_eq_exp_minus_1)

lemma low_bits_with_validity: "with_validity q v AND 3 = validity_bits v"
proof -
  have "(q AND NOT 3 OR x) AND 3 = x AND 3" for x :: u16
    by (rule bit_word_eqI) (auto simp: bit_simps)
  then have "with_validity q v AND 3 = validity_bits v AND 3" unfolding with_validity_def .
  also have "\<dots> = validity_bits v" by (cases v) simp_all
  finally show ?thesis .
qed

lemma validity_with_validity: "quality_validity (with_validity q v) = v"
  unfolding quality_validity_def validity_from_bits_def low_bits_with_validity by (cases v) simp_all

lemma with_validity_flags:
  assumes "m AND 3 = 0"
  shows "quality_is (with_validity q v) m = quality_is q m"
proof -
  have m: "2 \<le> n" if "bit m n" for n
    using arg_cong [OF assms, of "\<lambda>x. bit x n"] that by (simp add: bit_and_iff)
  have v: "n < 2" if "bit (validity_bits v) n" for n
    using word_less_exp_bits [of "validity_bits v" 2 n] that by (cases v) (auto simp: not_le [symmetric])
  have "with_validity q v AND m = q AND m"
    by (rule bit_word_eqI) (use m v in \<open>fastforce simp: with_validity_def bit_simps not_less\<close>)
  then show ?thesis by (simp add: quality_is_def)
qed

lemma dbpos_roundtrip: "\<exists>v. dbpos_value p = Some v \<and> dbpos_from_value v = Some p"
  by (cases p) (simp_all add: dbpos_value_def dbpos_from_value_def dbpos_from_bits_def bit_string_new_def
      set_bit_at_def bs_bit_def Let_def)

end
