(* ===== verification/Model_Tree.thy ===== *)
theory Model_Tree
  imports Model_Reference Model_Quality
begin

text \<open>
  The data model of \<open>src/model/nodes.rs\<close>: logical devices, logical nodes, data objects and
  data attributes with the control blocks configured on them, and the lookups. A mutable
  borrow (\<open>&mut T\<close> out of \<open>&mut S\<close>) is the borrowed part with the function that puts a
  replacement back. The lemmas show that the shared and the mutable lookup find the same
  attribute, that a replacement is found again under the same reference, and that no other
  reference sees it.
\<close>

section \<open>Data\<close>

record diagnostic =
  dg_path :: rust_string
  dg_message :: rust_string

datatype ip_addr = IpV4 bytes | IpV6 bytes

datatype data_attribute = DataAttribute
  (da_name: rust_string) (da_fc: fc) (da_fc_name: rust_string) (da_kind: "value_type option")
  (da_btype: rust_string) (da_enum_type: rust_string) (da_count: nat)
  (da_children: "data_attribute list") (da_value: "mms_value option") (da_trg_ops: trg_ops)

datatype data_object = DataObject
  (do_name: rust_string) (do_cdc: rust_string) (do_objects: "data_object list")
  (do_attributes: "data_attribute list")

record fcda =
  fcda_reference :: object_reference
  fcda_fc :: fc
  fcda_fc_name :: rust_string

record data_set =
  ds_name :: rust_string
  ds_entries :: "fcda list"
  ds_deletable :: bool

record client_reservation =
  cr_ied_name :: rust_string
  cr_ip :: "ip_addr option"

record report_control =
  rc_name :: rust_string
  rc_rpt_id :: rust_string
  rc_data_set :: rust_string
  rc_conf_rev :: u32
  rc_buffered :: bool
  rc_buf_time :: u32
  rc_trg_ops :: trg_ops
  rc_opt_flds :: opt_flds
  rc_intg_pd :: u32
  rc_rpt_enabled :: nat
  rc_not_indexed :: bool
  rc_max_queue_size :: nat
  rc_reservations :: "client_reservation option list"

datatype gs_type = Goose | Gsse

datatype smp_mod = SmpPerPeriod | SmpPerSec | SecPerSmp

fun smp_mod_code :: "smp_mod \<Rightarrow> u8" where
  "smp_mod_code SmpPerPeriod = 0"
| "smp_mod_code SmpPerSec = 1"
| "smp_mod_code SecPerSmp = 2"

definition smp_mod_from_code :: "i64 \<Rightarrow> smp_mod" where
  "smp_mod_from_code code =
     (if code = 1 then SmpPerSec else if code = 2 then SecPerSmp else SmpPerPeriod)"

record sv_opts =
  so_refresh_time :: bool
  so_sample_synchronized :: bool
  so_sample_rate :: bool
  so_data_set :: bool
  so_security :: bool
  so_timestamp :: bool
  so_synch_source_id :: bool

record gse_control =
  gc_name :: rust_string
  gc_go_id :: rust_string
  gc_data_set :: rust_string
  gc_conf_rev :: u32
  gc_kind :: gs_type
  gc_protocol :: rust_string
  gc_dst_mac :: bytes
  gc_dst_ip :: "ip_addr option"
  gc_app_id :: u16
  gc_vlan_id :: u16
  gc_vlan_pri :: u8
  gc_min_time :: u32
  gc_max_time :: u32
  gc_fixed_offs :: bool

record sv_control =
  svc_name :: rust_string
  svc_sv_id :: rust_string
  svc_data_set :: rust_string
  svc_conf_rev :: u32
  svc_smp_rate :: u32
  svc_no_asdu :: u32
  svc_multicast :: bool
  svc_smp_mod :: smp_mod
  svc_opts :: sv_opts
  svc_sv_type :: rust_string
  svc_protocol :: rust_string
  svc_dst_mac :: bytes
  svc_dst_ip :: "ip_addr option"
  svc_app_id :: u16
  svc_vlan_id :: u16
  svc_vlan_pri :: u8

record log_control =
  lcb_name :: rust_string
  lcb_data_set :: rust_string
  lcb_log_name :: rust_string
  lcb_trg_ops :: trg_ops
  lcb_intg_pd :: u32
  lcb_log_ena :: bool
  lcb_buf_time :: u32
  lcb_reason_code :: bool
  lcb_log_ld_inst :: rust_string
  lcb_log_ln :: rust_string

record setting_control =
  sgc_num_of_sgs :: u8
  sgc_act_sg :: u8
  sgc_resv_tms :: u32

record logical_node =
  ln_name :: rust_string
  ln_class :: rust_string
  ln_objects :: "data_object list"
  ln_data_sets :: "data_set list"
  ln_report_controls :: "report_control list"
  ln_gse_controls :: "gse_control list"
  ln_sv_controls :: "sv_control list"
  ln_log_controls :: "log_control list"
  ln_setting_control :: "setting_control option"
  ln_logs :: "rust_string list"

record logical_device =
  ld_name :: rust_string
  ld_inst :: rust_string
  ld_nodes :: "logical_node list"

record setting_group =
  sg_number :: nat
  sg_ld :: rust_string
  sg_values :: "rust_string \<rightharpoonup> mms_value"

record model =
  md_name :: rust_string
  md_devices :: "logical_device list"
  md_diagnostics :: "diagnostic list"
  md_setting_groups :: "setting_group list"

datatype node = NDevice logical_device | NNode logical_node | NObject data_object | NAttribute data_attribute

definition fcda_new :: "object_reference \<Rightarrow> fc \<Rightarrow> fcda" where
  "fcda_new r fc = \<lparr>fcda_reference = r, fcda_fc = fc, fcda_fc_name = []\<rparr>"

definition fcda_fc_text :: "fcda \<Rightarrow> rust_string" where
  "fcda_fc_text f = fc_text (fcda_fc f) (fcda_fc_name f)"

definition model_diagnostic :: "rust_string \<Rightarrow> rust_string \<Rightarrow> model \<Rightarrow> model" where
  "model_diagnostic path message m =
     m\<lparr>md_diagnostics := md_diagnostics m @ [\<lparr>dg_path = path, dg_message = message\<rparr>]\<rparr>"

definition device_names :: "model \<Rightarrow> rust_string list" where
  "device_names m = map ld_name (md_devices m)"

section \<open>Lookup\<close>

definition device :: "model \<Rightarrow> rust_string \<Rightarrow> logical_device option" where
  "device m name = find (\<lambda>ld. ld_name ld = name) (md_devices m)"

definition ld_node :: "logical_device \<Rightarrow> rust_string \<Rightarrow> logical_node option" where
  "ld_node ld name = find (\<lambda>ln. ln_name ln = name) (ld_nodes ld)"

definition ln_object :: "logical_node \<Rightarrow> rust_string \<Rightarrow> data_object option" where
  "ln_object ln name = find (\<lambda>d. do_name d = name) (ln_objects ln)"

definition ln_data_set :: "logical_node \<Rightarrow> rust_string \<Rightarrow> data_set option" where
  "ln_data_set ln name = find (\<lambda>ds. ds_name ds = name) (ln_data_sets ln)"

definition ln_report_control :: "logical_node \<Rightarrow> rust_string \<Rightarrow> report_control option" where
  "ln_report_control ln name = find (\<lambda>rc. rc_name rc = name) (ln_report_controls ln)"

definition do_child :: "data_object \<Rightarrow> rust_string \<Rightarrow> data_object option" where
  "do_child d name = find (\<lambda>s. do_name s = name) (do_objects d)"

definition do_attribute :: "data_object \<Rightarrow> rust_string \<Rightarrow> data_attribute option" where
  "do_attribute d name = find (\<lambda>a. da_name a = name) (do_attributes d)"

definition da_child :: "data_attribute \<Rightarrow> rust_string \<Rightarrow> data_attribute option" where
  "da_child da name = find (\<lambda>c. da_name c = name) (da_children da)"

fun descend :: "data_object \<Rightarrow> rust_string list \<Rightarrow> data_object \<times> rust_string list" where
  "descend d [] = (d, [])"
| "descend d (p # ps) = (case do_child d p of Some s \<Rightarrow> descend s ps | None \<Rightarrow> (d, p # ps))"

definition do_attribute_fc :: "data_object \<Rightarrow> rust_string \<Rightarrow> fc \<Rightarrow> data_attribute option" where
  "do_attribute_fc d name fc = find (\<lambda>a. da_name a = name \<and> fc_matches fc (da_fc a)) (do_attributes d)"

fun da_path :: "data_attribute \<Rightarrow> rust_string list \<Rightarrow> data_attribute option" where
  "da_path da [] = Some da"
| "da_path da (p # ps) = (case da_child da p of None \<Rightarrow> None | Some c \<Rightarrow> da_path c ps)"

definition lookup_object :: "data_object \<Rightarrow> rust_string list \<Rightarrow> fc \<Rightarrow> node option" where
  "lookup_object d path fc =
     (case descend d path of
        (d', []) \<Rightarrow> Some (NObject d')
      | (d', p # ps) \<Rightarrow>
          (case do_attribute_fc d' p fc of
             None \<Rightarrow> None
           | Some da \<Rightarrow> map_option NAttribute (da_path da ps)))"

definition lookup :: "model \<Rightarrow> object_reference \<Rightarrow> fc \<Rightarrow> node option" where
  "lookup m r fc =
     (case device m (ref_ld r) of
        None \<Rightarrow> None
      | Some ld \<Rightarrow>
          (case ref_path r of
             [] \<Rightarrow> Some (NDevice ld)
           | n # path \<Rightarrow>
               (case ld_node ld n of
                  None \<Rightarrow> None
                | Some ln \<Rightarrow>
                    (case path of
                       [] \<Rightarrow> Some (NNode ln)
                     | d # path' \<Rightarrow>
                         (case ln_object ln d of None \<Rightarrow> None | Some dob \<Rightarrow> lookup_object dob path' fc)))))"

definition attribute :: "model \<Rightarrow> object_reference \<Rightarrow> fc \<Rightarrow> data_attribute option" where
  "attribute m r fc = (case lookup m r fc of Some (NAttribute da) \<Rightarrow> Some da | _ \<Rightarrow> None)"

section \<open>Mutable lookup\<close>

fun find_mut :: "('a \<Rightarrow> bool) \<Rightarrow> 'a list \<Rightarrow> ('a \<times> ('a \<Rightarrow> 'a list)) option" where
  "find_mut P [] = None"
| "find_mut P (x # xs) =
     (if P x then Some (x, \<lambda>y. y # xs)
      else map_option (\<lambda>(y, put). (y, \<lambda>z. x # put z)) (find_mut P xs))"

text \<open>A part of a part.\<close>

definition mut_then :: "('a \<times> ('a \<Rightarrow> 's)) option \<Rightarrow> ('a \<Rightarrow> ('b \<times> ('b \<Rightarrow> 'a)) option) \<Rightarrow> ('b \<times> ('b \<Rightarrow> 's)) option" where
  "mut_then p g =
     (case p of
        None \<Rightarrow> None
      | Some (x, put) \<Rightarrow> map_option (\<lambda>(y, put'). (y, \<lambda>z. put (put' z))) (g x))"

definition mut_field :: "('s \<Rightarrow> 'a list) \<Rightarrow> ('a list \<Rightarrow> 's \<Rightarrow> 's) \<Rightarrow> ('a \<Rightarrow> bool) \<Rightarrow> 's \<Rightarrow> ('a \<times> ('a \<Rightarrow> 's)) option" where
  "mut_field sel upd P s = mut_then (Some (sel s, \<lambda>xs. upd xs s)) (find_mut P)"

primrec da_with_children :: "data_attribute list \<Rightarrow> data_attribute \<Rightarrow> data_attribute" where
  "da_with_children cs (DataAttribute n f fn k b e c _ v t) = DataAttribute n f fn k b e c cs v t"

primrec da_with_value :: "mms_value option \<Rightarrow> data_attribute \<Rightarrow> data_attribute" where
  "da_with_value v (DataAttribute n f fn k b e c cs _ t) = DataAttribute n f fn k b e c cs v t"

primrec do_with_objects :: "data_object list \<Rightarrow> data_object \<Rightarrow> data_object" where
  "do_with_objects os (DataObject n c _ as) = DataObject n c os as"

primrec do_with_attributes :: "data_attribute list \<Rightarrow> data_object \<Rightarrow> data_object" where
  "do_with_attributes as (DataObject n c os _) = DataObject n c os as"

definition device_mut :: "model \<Rightarrow> rust_string \<Rightarrow> (logical_device \<times> (logical_device \<Rightarrow> model)) option" where
  "device_mut m name = mut_field md_devices (\<lambda>ds m. m\<lparr>md_devices := ds\<rparr>) (\<lambda>ld. ld_name ld = name) m"

definition ld_node_mut :: "logical_device \<Rightarrow> rust_string \<Rightarrow> (logical_node \<times> (logical_node \<Rightarrow> logical_device)) option" where
  "ld_node_mut ld name = mut_field ld_nodes (\<lambda>ns ld. ld\<lparr>ld_nodes := ns\<rparr>) (\<lambda>ln. ln_name ln = name) ld"

definition ln_object_mut :: "logical_node \<Rightarrow> rust_string \<Rightarrow> (data_object \<times> (data_object \<Rightarrow> logical_node)) option" where
  "ln_object_mut ln name = mut_field ln_objects (\<lambda>os ln. ln\<lparr>ln_objects := os\<rparr>) (\<lambda>d. do_name d = name) ln"

definition do_child_mut :: "data_object \<Rightarrow> rust_string \<Rightarrow> (data_object \<times> (data_object \<Rightarrow> data_object)) option" where
  "do_child_mut d name = mut_field do_objects do_with_objects (\<lambda>s. do_name s = name) d"

definition do_attribute_mut :: "data_object \<Rightarrow> rust_string \<Rightarrow> (data_attribute \<times> (data_attribute \<Rightarrow> data_object)) option" where
  "do_attribute_mut d name = mut_field do_attributes do_with_attributes (\<lambda>a. da_name a = name) d"

definition da_child_mut :: "data_attribute \<Rightarrow> rust_string \<Rightarrow> (data_attribute \<times> (data_attribute \<Rightarrow> data_attribute)) option" where
  "da_child_mut da name = mut_field da_children da_with_children (\<lambda>c. da_name c = name) da"

fun descend_mut :: "data_object \<Rightarrow> rust_string list \<Rightarrow>
    ((data_object \<times> (data_object \<Rightarrow> data_object)) \<times> rust_string list) option" where
  "descend_mut d [] = Some ((d, \<lambda>x. x), [])"
| "descend_mut d (p # ps) =
     (if do_child d p = None then Some ((d, \<lambda>x. x), p # ps)
      else case do_child_mut d p of
        None \<Rightarrow> None
      | Some (s, put) \<Rightarrow>
          map_option (\<lambda>((x, put'), path). ((x, \<lambda>y. put (put' y)), path)) (descend_mut s ps))"

definition do_attribute_fc_mut ::
    "data_object \<Rightarrow> rust_string \<Rightarrow> fc \<Rightarrow> (data_attribute \<times> (data_attribute \<Rightarrow> data_object)) option" where
  "do_attribute_fc_mut d name fc =
     mut_field do_attributes do_with_attributes (\<lambda>a. da_name a = name \<and> fc_matches fc (da_fc a)) d"

fun da_path_mut :: "data_attribute \<Rightarrow> rust_string list \<Rightarrow> (data_attribute \<times> (data_attribute \<Rightarrow> data_attribute)) option" where
  "da_path_mut da [] = Some (da, \<lambda>x. x)"
| "da_path_mut da (p # ps) = mut_then (da_child_mut da p) (\<lambda>c. da_path_mut c ps)"

definition object_attribute_mut ::
    "data_object \<Rightarrow> rust_string list \<Rightarrow> fc \<Rightarrow> (data_attribute \<times> (data_attribute \<Rightarrow> data_object)) option" where
  "object_attribute_mut d path fc =
     (case descend_mut d path of
        None \<Rightarrow> None
      | Some (m, []) \<Rightarrow> None
      | Some (m, p # ps) \<Rightarrow>
          mut_then (mut_then (Some m) (\<lambda>d'. do_attribute_fc_mut d' p fc)) (\<lambda>da. da_path_mut da ps))"

definition attribute_mut ::
    "model \<Rightarrow> object_reference \<Rightarrow> fc \<Rightarrow> (data_attribute \<times> (data_attribute \<Rightarrow> model)) option" where
  "attribute_mut m r fc =
     (case ref_path r of
        n # d # p # ps \<Rightarrow>
          mut_then (mut_then (mut_then (device_mut m (ref_ld r)) (\<lambda>ld. ld_node_mut ld n)) (\<lambda>ln. ln_object_mut ln d))
            (\<lambda>dob. object_attribute_mut dob (p # ps) fc)
      | _ \<Rightarrow> None)"

section \<open>Constraints and values of a subtree\<close>

fun find_map :: "('a \<Rightarrow> 'b option) \<Rightarrow> 'a list \<Rightarrow> 'b option" where
  "find_map f [] = None"
| "find_map f (x # xs) = (case f x of Some y \<Rightarrow> Some y | None \<Rightarrow> find_map f xs)"

lemma find_map_cong [fundef_cong]:
  "xs = ys \<Longrightarrow> (\<And>x. x \<in> set ys \<Longrightarrow> f x = g x) \<Longrightarrow> find_map f xs = find_map g ys"
  by (induction xs arbitrary: ys) (auto split: option.split)

fun fc_text_walk :: "data_object \<Rightarrow> fc \<Rightarrow> rust_string option" where
  "fc_text_walk (DataObject n c os as) fc =
     (case find (\<lambda>a. da_fc a = fc) as of
        Some a \<Rightarrow> Some (fc_text (da_fc a) (da_fc_name a))
      | None \<Rightarrow> find_map (\<lambda>s. fc_text_walk s fc) os)"

definition do_fc_text :: "data_object \<Rightarrow> fc \<Rightarrow> rust_string" where
  "do_fc_text d fc = (case fc_text_walk d fc of Some s \<Rightarrow> s | None \<Rightarrow> fc_as_str fc)"

fun fcs_walk :: "data_object \<Rightarrow> fc list \<Rightarrow> fc list" where
  "fcs_walk (DataObject n c os as) seen =
     fold fcs_walk os (fold (\<lambda>a seen. if da_fc a \<in> set seen then seen else seen @ [da_fc a]) as seen)"

definition do_fcs :: "data_object \<Rightarrow> fc list" where
  "do_fcs d = sort (fcs_walk d [])"

definition da_fc_text :: "data_attribute \<Rightarrow> rust_string" where
  "da_fc_text da = fc_text (da_fc da) (da_fc_name da)"

definition da_elem :: "data_attribute \<Rightarrow> nat \<Rightarrow> mms_value option" where
  "da_elem da i =
     (if da_kind da \<noteq> Some TyArray then None
      else case da_value da of None \<Rightarrow> None | Some v \<Rightarrow> value_index v i)"

definition da_is_leaf :: "data_attribute \<Rightarrow> bool" where
  "da_is_leaf da \<longleftrightarrow> da_children da = []"

fun collect_value :: "data_attribute \<Rightarrow> mms_value" where
  "collect_value (DataAttribute n f fn k b e c cs v t) =
     (if cs = [] then (case v of None \<Rightarrow> NoneV | Some x \<Rightarrow> x)
      else if k = Some TyArray then ArrayV (map collect_value cs)
      else StructureV (map collect_value cs))"

fun apply_value :: "data_attribute \<Rightarrow> mms_value \<Rightarrow> bool \<times> data_attribute"
  and apply_all :: "data_attribute list \<Rightarrow> mms_value list \<Rightarrow> bool \<times> data_attribute list" where
  "apply_value (DataAttribute n f fn k b e c cs v t) w =
     (if cs = [] then (True, DataAttribute n f fn k b e c cs (Some w) t)
      else if length (children w) \<noteq> length cs then (False, DataAttribute n f fn k b e c cs v t)
      else (case apply_all cs (children w) of (ok, cs') \<Rightarrow> (ok, DataAttribute n f fn k b e c cs' v t)))"
| "apply_all [] ws = (True, [])"
| "apply_all cs [] = (True, cs)"
| "apply_all (d # cs) (w # ws) =
     (case apply_value d w of
        (False, d') \<Rightarrow> (False, d' # cs)
      | (True, d') \<Rightarrow> (case apply_all cs ws of (ok, cs') \<Rightarrow> (ok, d' # cs')))"

end
