(* ===== verification/Sv_Pdu.thy ===== *)
theory Sv_Pdu
  imports Mms_Codec Asn1_Fields Rust_String Ethernet Model_Tree
begin

text \<open>
  Sampled values on the wire: the savPdu and its ASDUs (\<open>src/sv/pdu.rs\<close>) and the fixed 9-2LE
  data set (\<open>src/sv/le.rs\<close>), with the sample mode of \<open>src/model/nodes.rs\<close>. The eight octets of
  a clock identity and the channel arrays of a sample are lists whose lengths the predicates
  \<open>asdu_ok\<close> and \<open>le_ok\<close> fix; an \<open>i32\<close> is its 32-bit word.
\<close>

datatype sv_reason =
    SvApduTruncated nat
  | SvApduLength nat nat
  | SvAsn1 asn1_error
  | SvField string asn1_error
  | GmIdentityOctets nat
  | LeSampleOctets nat

datatype sv_error =
    SvCodec sv_reason
  | SvConfig string
  | SvEthernet eth_error

definition SV_HEADER_LEN :: nat where "SV_HEADER_LEN = 8"
definition sav_pdu_tag :: tag where "sav_pdu_tag = application_constructed 0"
definition SMP_SYNCH_NONE :: u8 where "SMP_SYNCH_NONE = 0"
definition SMP_SYNCH_LOCAL :: u8 where "SMP_SYNCH_LOCAL = 1"
definition SMP_SYNCH_GLOBAL :: u8 where "SMP_SYNCH_GLOBAL = 2"

section \<open>ASDUs\<close>

record asdu =
  sv_id :: rust_string
  sv_dat_set :: rust_string
  smp_cnt :: u16
  sv_conf_rev :: u32
  refr_tm :: "system_time option"
  refr_tm_quality :: "time_quality option"
  smp_synch :: u8
  smp_rate :: u16
  sample :: bytes
  sv_smp_mod :: "smp_mod option"
  gm_identity :: "bytes option"

definition asdu_default :: asdu where
  "asdu_default = \<lparr>sv_id = [], sv_dat_set = [], smp_cnt = 0, sv_conf_rev = 0, refr_tm = None,
     refr_tm_quality = None, smp_synch = 0, smp_rate = 0, sample = [], sv_smp_mod = None,
     gm_identity = None\<rparr>"

record sv_pdu =
  sv_app_id :: u16
  asdus :: "asdu list"

definition refr_time :: "asdu \<Rightarrow> system_time \<Rightarrow> mms_value" where
  "refr_time a t = utc_time t (case refr_tm_quality a of Some q \<Rightarrow> q | None \<Rightarrow> TQ_DEFAULT)"

definition asdu_fields :: "asdu \<Rightarrow> element list" where
  "asdu_fields a =
     [prim (context_primitive 0) (sv_id a)] @
     (if sv_dat_set a \<noteq> [] then [prim (context_primitive 1) (sv_dat_set a)] else []) @
     [prim (context_primitive 2) (to_be_bytes (smp_cnt a)),
      prim (context_primitive 3) (to_be_bytes (sv_conf_rev a))] @
     (case refr_tm a of
        Some t \<Rightarrow> [prim (context_primitive 4) (value_bytes (refr_time a t))] | None \<Rightarrow> []) @
     [prim (context_primitive 5) [smp_synch a]] @
     (if smp_rate a \<noteq> 0 then [prim (context_primitive 6) (to_be_bytes (smp_rate a))] else []) @
     [prim (context_primitive 7) (sample a)] @
     (case sv_smp_mod a of Some m \<Rightarrow> [prim (context_primitive 8) [0, smp_mod_code m]] | None \<Rightarrow> []) @
     (case gm_identity a of Some i \<Rightarrow> [prim (context_primitive 9) i] | None \<Rightarrow> [])"

definition asdu_element :: "asdu \<Rightarrow> element" where
  "asdu_element a = cons TAG_SEQUENCE (asdu_fields a)"

definition sv_marshal :: "sv_pdu \<Rightarrow> bytes" where
  "sv_marshal p =
     (let seq_asdu = cons (context_constructed 2) (map asdu_element (asdus p));
          sav = cons sav_pdu_tag [uint_elem (context_primitive 0) (of_nat (length (asdus p))), seq_asdu];
          len = SV_HEADER_LEN + elem_size sav
      in to_be_bytes (sv_app_id p) @ to_be_bytes (of_nat len :: u16) @ [0, 0, 0, 0] @ append_elem sav)"

section \<open>Decoding\<close>

definition sv_try :: "asn1_error + 'a \<Rightarrow> sv_error + 'a" where
  "sv_try m = map_err (\<lambda>e. SvCodec (SvAsn1 e)) m"

definition sv_expect :: "tag \<Rightarrow> string \<Rightarrow> decoder \<Rightarrow> sv_error + (bytes \<times> decoder)" where
  "sv_expect t name d = map_err (\<lambda>e. SvCodec (SvField name e)) (expect_tag t d)"

definition be_u16 :: "bytes \<Rightarrow> u16" where
  "be_u16 b =
     (if length b = 0 then 0
      else if length b = 1 then ucast (b ! 0)
      else push_bit 8 (ucast (b ! (length b - 2))) OR ucast (b ! (length b - 1)))"

text \<open>The fields of an ASDU from the contents of its elements, all but the last one.\<close>

definition asdu_of :: "bytes \<Rightarrow> bytes option \<Rightarrow> bytes \<Rightarrow> bytes \<Rightarrow> bytes option \<Rightarrow> bytes option \<Rightarrow>
    bytes option \<Rightarrow> bytes \<Rightarrow> bytes option \<Rightarrow> asdu" where
  "asdu_of svid ds cnt cr tm syn rate smp md =
     (let tv = (case tm of Some b \<Rightarrow> (case utc_time_raw b of Inr v \<Rightarrow> Some v | Inl _ \<Rightarrow> None) | None \<Rightarrow> None)
      in \<lparr>sv_id = utf8_lossy svid,
          sv_dat_set = (case ds of Some b \<Rightarrow> utf8_lossy b | None \<Rightarrow> []),
          smp_cnt = be_u16 cnt,
          sv_conf_rev = (case decode_uint cr of Inr v \<Rightarrow> ucast v | Inl _ \<Rightarrow> 0),
          refr_tm = (case tv of Some v \<Rightarrow> value_time v | None \<Rightarrow> None),
          refr_tm_quality = map_option value_time_quality tv,
          smp_synch = (case syn of Some b \<Rightarrow> (if b = [] then 0 else last b) | None \<Rightarrow> 0),
          smp_rate = (case rate of Some b \<Rightarrow> be_u16 b | None \<Rightarrow> 0),
          sample = smp,
          sv_smp_mod = map_option (\<lambda>b. smp_mod_from_code (ucast (be_u16 b))) md,
          gm_identity = None\<rparr>)"

definition parse_asdu :: "bytes \<Rightarrow> sv_error + asdu" where
  "parse_asdu content =
     try_bind (sv_expect (context_primitive 0) ''svID'' (decoder_new content)) (\<lambda>(svid, d1).
     try_bind (sv_try (optional_tag (context_primitive 1) d1)) (\<lambda>(ds, d2).
     try_bind (sv_expect (context_primitive 2) ''smpCnt'' d2) (\<lambda>(cnt, d3).
     try_bind (sv_expect (context_primitive 3) ''confRev'' d3) (\<lambda>(rev, d4).
     try_bind (sv_try (optional_tag (context_primitive 4) d4)) (\<lambda>(tm, d5).
     try_bind (sv_try (optional_tag (context_primitive 5) d5)) (\<lambda>(syn, d6).
     try_bind (sv_try (optional_tag (context_primitive 6) d6)) (\<lambda>(rate, d7).
     try_bind (sv_expect (context_primitive 7) ''sample'' d7) (\<lambda>(smp, d8).
     try_bind (sv_try (optional_tag (context_primitive 8) d8)) (\<lambda>(md, d9).
     try_bind (sv_try (optional_tag (context_primitive 9) d9)) (\<lambda>(gm, d10).
       let a = asdu_of svid ds cnt rev tm syn rate smp md
       in case gm of
            None \<Rightarrow> Inr a
          | Some b \<Rightarrow> if length b = 8 then Inr (a\<lparr>gm_identity := Some b\<rparr>)
                       else Inl (SvCodec (GmIdentityOctets (length b)))))))))))))"

definition next_asdu :: "decoder \<Rightarrow> sv_error + (asdu \<times> decoder)" where
  "next_asdu sd =
     try_bind (sv_expect TAG_SEQUENCE ''ASDU'' sd) (\<lambda>(content, sd').
       try_bind (parse_asdu content) (\<lambda>a. Inr (a, sd')))"

lemma next_asdu_progress:
  "next_asdu sd = Inr (a, sd') \<Longrightarrow> dec_data sd' = dec_data sd \<and> dec_off sd < dec_off sd' \<and> dec_off sd' \<le> length (dec_data sd)"
  by (auto simp: next_asdu_def sv_expect_def expect_tag_def try_bind_Inr_iff dest!: read_tlv_progress split: if_splits)

function parse_asdus :: "decoder \<Rightarrow> sv_error + asdu list" where
  "parse_asdus sd =
     (if more_data sd then
        try_bind (next_asdu sd) (\<lambda>(a, sd'). try_bind (parse_asdus sd') (\<lambda>as. Inr (a # as)))
      else Inr [])"
  by pat_completeness auto
termination
proof (relation "measure (\<lambda>d. length (dec_data d) - dec_off d)", goal_cases)
  case (2 sd r a sd')
  then have "next_asdu sd = Inr (a, sd')" by simp
  from next_asdu_progress [OF this] 2 show ?case by (auto simp: more_data_def)
qed simp

declare parse_asdus.simps [simp del]

definition sv_parse :: "bytes \<Rightarrow> sv_error + sv_pdu" where
  "sv_parse apdu =
     (if length apdu < SV_HEADER_LEN then Inl (SvCodec (SvApduTruncated (length apdu)))
      else let app = from_be_bytes [apdu ! 0, apdu ! 1];
               len = unat (from_be_bytes [apdu ! 2, apdu ! 3] :: u16)
           in if len < SV_HEADER_LEN \<or> len > length apdu
              then Inl (SvCodec (SvApduLength len (length apdu)))
              else
                try_bind (sv_try (expect_tag sav_pdu_tag (decoder_new (subslice SV_HEADER_LEN len apdu)))) (\<lambda>(content, _).
                try_bind (sv_expect (context_primitive 0) ''noASDU'' (decoder_new content)) (\<lambda>(_, d).
                try_bind (sv_expect (context_constructed 2) ''seqOfASDU'' d) (\<lambda>(sq, _).
                try_bind (parse_asdus (decoder_new sq)) (\<lambda>as.
                  Inr \<lparr>sv_app_id = app, asdus = as\<rparr>)))))"

section \<open>Round trip\<close>

definition asdu_ok :: "asdu \<Rightarrow> bool" where
  "asdu_ok a \<longleftrightarrow> utf8_valid (sv_id a) \<and> utf8_valid (sv_dat_set a) \<and>
     (case gm_identity a of Some i \<Rightarrow> length i = 8 | None \<Rightarrow> True)"

text \<open>What a subscriber parses of an ASDU: the time is the \<open>UtcTime\<close> that was sent.\<close>

definition received_asdu :: "asdu \<Rightarrow> asdu" where
  "received_asdu a =
     a\<lparr>refr_tm := (case refr_tm a of Some t \<Rightarrow> value_time (refr_time a t) | None \<Rightarrow> None),
       refr_tm_quality := map_option (\<lambda>t. value_time_quality (refr_time a t)) (refr_tm a)\<rparr>"

lemma be_u16_to_be_bytes [simp]: "be_u16 (to_be_bytes w) = w"
  using from_to_be_bytes_16_list [of w] by (simp add: be_u16_def to_be_bytes_16 from_be_bytes_def)

lemma be_fold_ucast:
  "ucast (be_fold (v :: u64) bs) = be_fold (ucast v :: u32) bs"
proof (induction bs arbitrary: v)
  case (Cons b bs)
  have "ucast (push_bit 8 v OR ucast b :: u64) = (push_bit 8 (ucast v) OR ucast b :: u32)"
    by (rule bit_word_eqI) (auto simp: octet_bits dest: bit_imp_le_length)
  with Cons show ?case by simp
qed simp

lemma decode_uint_u32 [simp]: "\<exists>v. decode_uint (to_be_bytes (w :: u32)) = Inr v \<and> ucast v = w"
proof -
  have "decode_uint (to_be_bytes w) = Inr (be_fold 0 (to_be_bytes w))"
    by (simp add: decode_uint_def to_be_bytes_32)
  moreover have "ucast (be_fold (0 :: u64) (to_be_bytes w)) = w"
    using from_to_be_bytes_32 [of w] by (simp add: be_fold_ucast from_be_bytes_def)
  ultimately show ?thesis by blast
qed

lemma smp_mod_code_octets: "smp_mod_from_code (ucast (be_u16 [0, smp_mod_code m])) = m"
  by (cases m) (simp_all add: be_u16_def smp_mod_from_code_def)

lemma refr_time_raw: "utc_time_raw (value_bytes (refr_time a t)) = Inr (refr_time a t)"
  and length_refr_time: "length (value_bytes (refr_time a t)) = 8"
  by (simp_all add: refr_time_def utc_time_def utc_time_parts_def utc_time_raw_def Let_def split: prod.splits)

lemma asdu_fields_append:
  "concat (map append_elem (asdu_fields a)) =
     append_tlv (context_primitive 0) (sv_id a) @
     opt_tlv (context_primitive 1) (if sv_dat_set a = [] then None else Some (sv_dat_set a)) @
     append_tlv (context_primitive 2) (to_be_bytes (smp_cnt a)) @
     append_tlv (context_primitive 3) (to_be_bytes (sv_conf_rev a)) @
     opt_tlv (context_primitive 4) (map_option (\<lambda>t. value_bytes (refr_time a t)) (refr_tm a)) @
     append_tlv (context_primitive 5) [smp_synch a] @
     opt_tlv (context_primitive 6) (if smp_rate a = 0 then None else Some (to_be_bytes (smp_rate a))) @
     append_tlv (context_primitive 7) (sample a) @
     opt_tlv (context_primitive 8) (map_option (\<lambda>m. [0, smp_mod_code m]) (sv_smp_mod a)) @
     opt_tlv (context_primitive 9) (gm_identity a)"
  by (cases "refr_tm a"; cases "sv_smp_mod a"; cases "gm_identity a") (simp_all add: asdu_fields_def)

lemma asdu_fields_tags: "list_all elem_tags_ok (asdu_fields a)"
  by (auto simp: asdu_fields_def split: option.splits)

lemma fits_opt_tlv: "fits (opt_tlv t c) \<Longrightarrow> opt_fits c"
  by (cases c) (auto dest: fits_tlv)

lemma parse_asdu_fields:
  assumes ok: "asdu_ok a" and fit: "fits (concat (map append_elem (asdu_fields a)))"
  shows "parse_asdu (concat (map append_elem (asdu_fields a))) = Inr (received_asdu a)"
proof -
  define ds where "ds = (if sv_dat_set a = [] then None else Some (sv_dat_set a))"
  define tm where "tm = map_option (\<lambda>t. value_bytes (refr_time a t)) (refr_tm a)"
  define rt where "rt = (if smp_rate a = 0 then None else Some (to_be_bytes (smp_rate a)))"
  define md where "md = map_option (\<lambda>m. [0, smp_mod_code m]) (sv_smp_mod a)"
  note fields = asdu_fields_append [of a, folded ds_def tm_def rt_def md_def]
  have f: "fits (sv_id a)" "opt_fits ds" "opt_fits tm" "opt_fits rt" "fits (sample a)" "opt_fits md"
    "opt_fits (gm_identity a)"
    using fit unfolding fields by (auto dest!: fits_append fits_tlv fits_opt_tlv)
  obtain rev where rev: "decode_uint (to_be_bytes (sv_conf_rev a)) = Inr rev" "ucast rev = sv_conf_rev a"
    using decode_uint_u32 [of "sv_conf_rev a"] by blast
  have tv: "(case tm of Some b \<Rightarrow> (case utc_time_raw b of Inr v \<Rightarrow> Some v | Inl _ \<Rightarrow> None) | None \<Rightarrow> None) =
      map_option (refr_time a) (refr_tm a)"
    by (cases "refr_tm a") (simp_all add: tm_def refr_time_raw)
  have parts: "(case ds of Some b \<Rightarrow> utf8_lossy b | None \<Rightarrow> []) = sv_dat_set a"
    "(case rt of Some b \<Rightarrow> be_u16 b | None \<Rightarrow> 0) = smp_rate a"
    "map_option (\<lambda>b. smp_mod_from_code (ucast (be_u16 b))) md = sv_smp_mod a"
    using ok by (auto simp: ds_def rt_def md_def asdu_ok_def utf8_lossy_valid option.map_comp comp_def
        smp_mod_code_octets option.map_ident)
  have a: "asdu_of (sv_id a) ds (to_be_bytes (smp_cnt a)) (to_be_bytes (sv_conf_rev a)) tm (Some [smp_synch a]) rt
      (sample a) md = (received_asdu a)\<lparr>gm_identity := None\<rparr>"
    using ok unfolding asdu_of_def tv parts Let_def
    by (cases "refr_tm a") (simp_all add: rev utf8_lossy_valid asdu_ok_def received_asdu_def)
  have "parse_asdu (concat (map append_elem (asdu_fields a))) =
      (let a' = (received_asdu a)\<lparr>gm_identity := None\<rparr> in
       case gm_identity a of None \<Rightarrow> Inr a'
       | Some b \<Rightarrow> if length b = 8 then Inr (a'\<lparr>gm_identity := Some b\<rparr>)
           else Inl (SvCodec (GmIdentityOctets (length b))))"
    unfolding fields parse_asdu_def sv_expect_def sv_try_def decoder_new_at
    by (simp add: f expect_field optional_opt optional_opt_last optional_field a del: tag_defs opt_tlv_simps)
  then show ?thesis
    using ok by (cases "gm_identity a") (simp_all add: asdu_ok_def received_asdu_def)
qed

interpretation asdu_items: item_loop "\<lambda>a. append_elem (asdu_element a)" received_asdu next_asdu
  "\<lambda>a. asdu_ok a \<and> fits (append_elem (asdu_element a))" parse_asdus
proof unfold_locales
  fix a d zs
  let ?c = "concat (map append_elem (asdu_fields a))"
  have e: "append_elem (asdu_element a) = append_tlv TAG_SEQUENCE ?c"
    using asdu_fields_tags [of a] by (simp add: asdu_element_def)
  show "append_elem (asdu_element a) \<noteq> []" by (simp add: e)
  assume a: "asdu_ok a \<and> fits (append_elem (asdu_element a))" and r: "rest d = append_elem (asdu_element a) @ zs"
  then have c: "fits ?c" unfolding e by (blast dest: fits_tlv)
  have "expect_tag TAG_SEQUENCE d = Inr (?c, advance (length (append_tlv TAG_SEQUENCE ?c)) d)"
    by (rule expect_append_tlv) (use r c in \<open>simp_all add: e fits_def\<close>)
  with parse_asdu_fields [OF _ c] a
  show "next_asdu d = Inr (received_asdu a, advance (length (append_elem (asdu_element a))) d)"
    unfolding e next_asdu_def sv_expect_def by simp
qed (rule parse_asdus.simps)

definition sv_pdu_ok :: "sv_pdu \<Rightarrow> bool" where
  "sv_pdu_ok p \<longleftrightarrow> list_all asdu_ok (asdus p)"

lemma asdu_elements_tags: "list_all elem_tags_ok (map asdu_element as)"
  using asdu_fields_tags by (simp add: list_all_iff asdu_element_def)

lemma sv_marshal_octets:
  defines "pdu p \<equiv> append_tlv sav_pdu_tag (append_tlv (context_primitive 0) (append_uint (of_nat (length (asdus p)))) @
    append_tlv (context_constructed 2) (concat (map (\<lambda>a. append_elem (asdu_element a)) (asdus p))))"
  shows "sv_marshal p = to_be_bytes (sv_app_id p) @ to_be_bytes (of_nat (8 + length (pdu p)) :: u16) @ [0, 0, 0, 0] @ pdu p"
proof -
  let ?sav = "cons sav_pdu_tag [uint_elem (context_primitive 0) (of_nat (length (asdus p))),
    cons (context_constructed 2) (map asdu_element (asdus p))]"
  have e: "append_elem ?sav = pdu p"
    using asdu_elements_tags [of "asdus p"] by (simp add: pdu_def sav_pdu_tag_def comp_def)
  have "elem_size ?sav = length (pdu p)"
    using length_append_elem [of ?sav] asdu_elements_tags [of "asdus p"] unfolding e by (simp add: sav_pdu_tag_def)
  with e show ?thesis by (simp add: sv_marshal_def Let_def SV_HEADER_LEN_def)
qed

lemma sv_parse_marshal:
  assumes ok: "sv_pdu_ok p" and n: "length (sv_marshal p) < 2 ^ 16"
  shows "sv_parse (sv_marshal p @ padding) = Inr \<lparr>sv_app_id = sv_app_id p, asdus = map received_asdu (asdus p)\<rparr>"
proof -
  let ?as = "concat (map (\<lambda>a. append_elem (asdu_element a)) (asdus p))"
  let ?c = "append_tlv (context_primitive 0) (append_uint (of_nat (length (asdus p)))) @ append_tlv (context_constructed 2) ?as"
  define pdu where "pdu = append_tlv sav_pdu_tag ?c"
  define k :: u16 where "k = of_nat (8 + length pdu)"
  have a: "sv_marshal p @ padding = ucast (drop_bit 8 (sv_app_id p)) # ucast (sv_app_id p) #
      ucast (drop_bit 8 k) # ucast k # 0 # 0 # 0 # 0 # pdu @ padding"
    using sv_marshal_octets [of p] by (simp add: to_be_bytes_16 pdu_def k_def)
  have len: "8 + length pdu < 2 ^ 16" using n sv_marshal_octets [of p] by (simp add: pdu_def)
  then have k: "unat k = 8 + length pdu" unfolding k_def by (intro unat_of_nat_small) simp
  have c: "fits ?c"
    using len length_append_tlv_content [of ?c sav_pdu_tag] by (simp add: fits_def pdu_def)
  then have as: "fits ?as" by (auto dest!: fits_append fits_tlv)
  have "subslice 8 (8 + length pdu) (sv_marshal p @ padding) = pdu"
    unfolding a subslice_def by (simp add: numeral_eq_Suc)
  moreover have "parse_asdus (decoder_new ?as) = Inr (map received_asdu (asdus p))"
    using ok fits_member [OF as] by (intro asdu_items.loop_new) (auto simp: sv_pdu_ok_def list_all_iff)
  ultimately show ?thesis
    using c k as unfolding a
    by (simp add: sv_parse_def SV_HEADER_LEN_def Let_def sv_try_def sv_expect_def pdu_def
        decoder_new_at expect_last expect_field del: tag_defs)
qed

end
