(* ===== verification/Sv_Le.thy ===== *)
theory Sv_Le
  imports Sv_Pdu
begin

text \<open>
  The 9-2LE data set (\<open>src/sv/le.rs\<close>), the publisher with its sample clock
  (\<open>src/sv/publisher.rs\<close>) and the subscriber (\<open>src/sv/subscriber.rs\<close>). A tick of the sample clock
  is \<open>sv_tick\<close>; the callback that fills a sample is an argument.
\<close>

section \<open>The data set\<close>

definition LE_SAMPLE_LEN :: nat where "LE_SAMPLE_LEN = 8 * 8"
definition LE_QUALITY_MASK :: u32 where "LE_QUALITY_MASK = 0x1fff"
definition LE_VALIDITY_LEGACY_INVALID :: u32 where "LE_VALIDITY_LEGACY_INVALID = 0x0001"

record le_sample =
  le_smp_cnt :: u16
  le_smp_synch :: u8
  le_i :: "u32 list"
  le_v :: "u32 list"
  le_q :: "u32 list"

definition le_sample_default :: le_sample where
  "le_sample_default = \<lparr>le_smp_cnt = 0, le_smp_synch = 0, le_i = replicate 4 0, le_v = replicate 4 0,
     le_q = replicate 8 0\<rparr>"

definition le_quality :: "le_sample \<Rightarrow> nat \<Rightarrow> quality" where
  "le_quality s i =
     (if i < length (le_q s) then
        let q = le_q s ! i; qual = ucast (q AND LE_QUALITY_MASK)
        in if q AND 3 = LE_VALIDITY_LEGACY_INVALID then with_validity qual VInvalid else qual
      else Q_GOOD)"

definition le_set_quality :: "le_sample \<Rightarrow> nat \<Rightarrow> quality \<Rightarrow> le_sample" where
  "le_set_quality s i q =
     (if i < length (le_q s) then
        s\<lparr>le_q := (le_q s)[i := (le_q s ! i AND NOT LE_QUALITY_MASK) OR (ucast q AND LE_QUALITY_MASK)]\<rparr>
      else s)"

text \<open>\<open>out[off..off + n].copy_from_slice\<close>.\<close>

definition copy_at :: "nat \<Rightarrow> bytes \<Rightarrow> bytes \<Rightarrow> bytes" where
  "copy_at off bs out = take off out @ bs @ drop (off + length bs) out"

definition write_channel :: "nat \<Rightarrow> u32 list \<Rightarrow> u32 list \<Rightarrow> nat \<Rightarrow> bytes \<Rightarrow> bytes" where
  "write_channel base xs qs i out =
     copy_at (base + i * 8 + 4) (to_be_bytes (qs ! i)) (copy_at (base + i * 8) (to_be_bytes (xs ! i)) out)"

definition write_le_sample :: "le_sample \<Rightarrow> bytes \<Rightarrow> bool \<times> bytes" where
  "write_le_sample s out =
     (if length out < LE_SAMPLE_LEN then (False, out)
      else let out1 = fold (write_channel 0 (le_i s) (le_q s)) [0..<4] out;
               out2 = fold (write_channel 32 (le_v s) (drop 4 (le_q s))) [0..<4] out1
           in (True, out2))"

definition encode_le_sample :: "le_sample \<Rightarrow> bytes" where
  "encode_le_sample s = snd (write_le_sample s (replicate LE_SAMPLE_LEN 0))"

definition le_word :: "bytes \<Rightarrow> nat \<Rightarrow> u32" where
  "le_word smp off = from_be_bytes [smp ! off, smp ! (off + 1), smp ! (off + 2), smp ! (off + 3)]"

definition fill_from :: "le_sample \<Rightarrow> bytes \<Rightarrow> sv_error + le_sample" where
  "fill_from s smp =
     (if length smp < LE_SAMPLE_LEN then Inl (SvCodec (LeSampleOctets (length smp)))
      else Inr (s\<lparr>le_i := map (\<lambda>i. le_word smp (i * 8)) [0..<4],
                  le_v := map (\<lambda>i. le_word smp (32 + i * 8)) [0..<4],
                  le_q := map (\<lambda>i. le_word smp (i * 8 + 4)) [0..<4] @
                          map (\<lambda>i. le_word smp (32 + i * 8 + 4)) [0..<4]\<rparr>))"

definition decode_le_sample :: "bytes \<Rightarrow> sv_error + le_sample" where
  "decode_le_sample smp = fill_from le_sample_default smp"

definition decode_le_into :: "asdu \<Rightarrow> le_sample \<Rightarrow> sv_error + le_sample" where
  "decode_le_into a s =
     try_bind (fill_from s (sample a)) (\<lambda>s'. Inr (s'\<lparr>le_smp_cnt := smp_cnt a, le_smp_synch := smp_synch a\<rparr>))"

section \<open>The publisher\<close>

record asdu_opts =
  ao_sample_rate :: bool
  ao_refresh_time :: bool
  ao_data_set :: bool
  ao_smp_mod :: bool
  ao_synch_source_id :: bool

record le_config =
  lc_app_id :: u16
  lc_sv_id :: rust_string
  lc_conf_rev :: u32
  lc_dst_mac :: bytes
  lc_src_mac :: bytes
  lc_vlan :: "vlan_tag option"
  lc_samples_per_cycle :: u32
  lc_nominal_hz :: u32
  lc_no_asdu :: u32
  lc_smp_mod :: smp_mod
  lc_dat_set :: rust_string
  lc_time_quality :: "time_quality option"
  lc_gm_identity :: bytes
  lc_opts :: asdu_opts

definition sv_default_mac :: "u16 \<Rightarrow> bytes" where
  "sv_default_mac sel = [0x01, 0x0c, 0xcd, 0x04, to_be_bytes sel ! 0 AND 0x01, to_be_bytes sel ! 1]"

definition le_config_default :: le_config where
  "le_config_default = \<lparr>lc_app_id = 0x4000, lc_sv_id = [], lc_conf_rev = 1, lc_dst_mac = sv_default_mac 0,
     lc_src_mac = replicate 6 0, lc_vlan = None, lc_samples_per_cycle = 80, lc_nominal_hz = 50,
     lc_no_asdu = 1, lc_smp_mod = SmpPerPeriod, lc_dat_set = [], lc_time_quality = None,
     lc_gm_identity = replicate 8 0,
     lc_opts = \<lparr>ao_sample_rate = False, ao_refresh_time = False, ao_data_set = False,
       ao_smp_mod = False, ao_synch_source_id = False\<rparr>\<rparr>"

record le_publisher =
  lp_cfg :: le_config
  lp_rate :: u32
  lp_gm_identity :: bytes

definition lp_smp_rate :: "le_publisher \<Rightarrow> u32" where
  "lp_smp_rate p =
     (case lc_smp_mod (lp_cfg p) of SmpPerSec \<Rightarrow> lp_rate p | _ \<Rightarrow> lc_samples_per_cycle (lp_cfg p))"

definition le_publisher_new :: "le_config \<Rightarrow> sv_error + le_publisher" where
  "le_publisher_new c0 =
     (if lc_sv_id c0 = [] then Inl (SvConfig ''sv_id is required'')
      else let c1 = (if lc_samples_per_cycle c0 = 0 then c0\<lparr>lc_samples_per_cycle := 80\<rparr> else c0);
               c2 = (if lc_nominal_hz c1 = 0 then c1\<lparr>lc_nominal_hz := 50\<rparr> else c1);
               cfg = (if lc_no_asdu c2 = 0 then c2\<lparr>lc_no_asdu := 1\<rparr> else c2);
               rate = lc_samples_per_cycle cfg * lc_nominal_hz cfg
           in if lc_smp_mod cfg = SecPerSmp then Inl (SvConfig ''sample mode cannot express the rate'')
              else let p = \<lparr>lp_cfg = cfg, lp_rate = rate, lp_gm_identity = lc_gm_identity cfg\<rparr>
                   in if lp_smp_rate p > 0xffff then Inl (SvConfig ''smpRate does not fit its 16 bits'')
                      else if lc_no_asdu cfg > rate then Inl (SvConfig ''more ASDUs per frame than samples per second'')
                      else Inr p)"

definition sample_interval :: "le_publisher \<Rightarrow> nat" where
  "sample_interval p = 1000000000 div unat (lp_rate p)"

definition set_gm_identity :: "bytes \<Rightarrow> le_publisher \<Rightarrow> le_publisher" where
  "set_gm_identity i p = p\<lparr>lp_gm_identity := i\<rparr>"

definition sv_asdu :: "le_publisher \<Rightarrow> system_time \<Rightarrow> le_sample \<Rightarrow> asdu" where
  "sv_asdu p now s =
     (let cfg = lp_cfg p; opts = lc_opts cfg in
      \<lparr>sv_id = lc_sv_id cfg,
       sv_dat_set = (if ao_data_set opts then lc_dat_set cfg else []),
       smp_cnt = le_smp_cnt s,
       sv_conf_rev = lc_conf_rev cfg,
       refr_tm = (if ao_refresh_time opts then Some now else None),
       refr_tm_quality = (if ao_refresh_time opts then lc_time_quality cfg else None),
       smp_synch = le_smp_synch s,
       smp_rate = (if ao_sample_rate opts then ucast (lp_smp_rate p) else 0),
       sample = encode_le_sample s,
       sv_smp_mod = (if ao_smp_mod opts then Some (lc_smp_mod cfg) else None),
       gm_identity = (if ao_synch_source_id opts then Some (lp_gm_identity p) else None)\<rparr>)"

definition sv_frame :: "le_publisher \<Rightarrow> system_time \<Rightarrow> le_sample list \<Rightarrow> frame" where
  "sv_frame p now ss = \<lparr>fr_src = lc_src_mac (lp_cfg p), fr_dst = lc_dst_mac (lp_cfg p),
     fr_ether_type = ETHER_TYPE_SV, fr_vlan = lc_vlan (lp_cfg p),
     fr_payload = sv_marshal \<lparr>sv_app_id = lc_app_id (lp_cfg p), asdus = map (sv_asdu p now) ss\<rparr>\<rparr>"

definition emit_all ::
    "(frame \<Rightarrow> 's \<Rightarrow> eth_error + 's) \<Rightarrow> le_publisher \<Rightarrow> system_time \<Rightarrow> le_sample list \<Rightarrow> 's \<Rightarrow> sv_error + 's" where
  "emit_all put p now ss st = map_err SvEthernet (put (sv_frame p now ss) st)"

definition sv_emit ::
    "(frame \<Rightarrow> 's \<Rightarrow> eth_error + 's) \<Rightarrow> le_publisher \<Rightarrow> system_time \<Rightarrow> le_sample \<Rightarrow> 's \<Rightarrow> sv_error + 's" where
  "sv_emit put p now s st = emit_all put p now [s] st"

text \<open>The sample count and the batch of \<open>run\<close>, and one tick of its clock.\<close>

record sample_clock =
  sc_cnt :: u16
  sc_batch :: "le_sample list"

definition next_cnt :: "le_publisher \<Rightarrow> u16 \<Rightarrow> u16" where
  "next_cnt p cnt = (let c = cnt + 1 in if ucast c \<ge> lp_rate p then 0 else c)"

definition filled :: "(u16 \<Rightarrow> le_sample \<Rightarrow> le_sample) \<Rightarrow> u16 \<Rightarrow> le_sample" where
  "filled fill cnt = fill cnt (le_sample_default\<lparr>le_smp_cnt := cnt, le_smp_synch := SMP_SYNCH_GLOBAL\<rparr>)"

definition sv_tick ::
    "(frame \<Rightarrow> 's \<Rightarrow> eth_error + 's) \<Rightarrow> le_publisher \<Rightarrow> (u16 \<Rightarrow> le_sample \<Rightarrow> le_sample) \<Rightarrow> system_time
      \<Rightarrow> sample_clock \<Rightarrow> 's \<Rightarrow> sv_error + (sample_clock \<times> 's)" where
  "sv_tick put p fill now sc st =
     (let batch = sc_batch sc @ [filled fill (sc_cnt sc)];
          cnt = next_cnt p (sc_cnt sc)
      in if length batch = unat (lc_no_asdu (lp_cfg p)) then
           try_bind (emit_all put p now batch st) (\<lambda>st'. Inr (\<lparr>sc_cnt = cnt, sc_batch = []\<rparr>, st'))
         else Inr (\<lparr>sc_cnt = cnt, sc_batch = batch\<rparr>, st))"

fun sv_run ::
    "(frame \<Rightarrow> 's \<Rightarrow> eth_error + 's) \<Rightarrow> le_publisher \<Rightarrow> (u16 \<Rightarrow> le_sample \<Rightarrow> le_sample) \<Rightarrow> system_time list
      \<Rightarrow> sample_clock \<Rightarrow> 's \<Rightarrow> sv_error + (sample_clock \<times> 's)" where
  "sv_run put p fill [] sc st = Inr (sc, st)"
| "sv_run put p fill (now # nows) sc st =
     try_bind (sv_tick put p fill now sc st) (\<lambda>(sc', st'). sv_run put p fill nows sc' st')"

section \<open>The subscriber\<close>

record sv_filter =
  sf_app_id :: u16
  sf_sv_id :: rust_string

definition sv_filter_any :: sv_filter where
  "sv_filter_any = \<lparr>sf_app_id = 0, sf_sv_id = []\<rparr>"

definition sv_filter_app_id :: "u16 \<Rightarrow> sv_filter" where
  "sv_filter_app_id a = \<lparr>sf_app_id = a, sf_sv_id = []\<rparr>"

definition sv_filter_matches :: "sv_filter \<Rightarrow> u16 \<Rightarrow> asdu \<Rightarrow> bool" where
  "sv_filter_matches f app a =
     (if sf_app_id f \<noteq> 0 \<and> app \<noteq> sf_app_id f then False
      else if sf_sv_id f \<noteq> [] \<and> sv_id a \<noteq> sf_sv_id f then False
      else True)"

text \<open>The matching ASDUs of a frame: what the loop in \<open>run\<close> hands to its handler.\<close>

definition sv_frame_asdus :: "sv_filter \<Rightarrow> frame \<Rightarrow> asdu list" where
  "sv_frame_asdus flt f =
     (if fr_ether_type f \<noteq> ETHER_TYPE_SV then []
      else case sv_parse (fr_payload f) of
        Inl e \<Rightarrow> []
      | Inr pdu \<Rightarrow> filter (sv_filter_matches flt (sv_app_id pdu)) (asdus pdu))"

text \<open>The handler of \<open>subscribe_le\<close>: one sample is reused from call to call.\<close>

fun le_handle :: "asdu list \<Rightarrow> le_sample \<Rightarrow> le_sample list \<times> le_sample" where
  "le_handle [] s = ([], s)"
| "le_handle (a # as) s =
     (case decode_le_into a s of
        Inl e \<Rightarrow> le_handle as s
      | Inr s' \<Rightarrow> (case le_handle as s' of (ss, s'') \<Rightarrow> (s' # ss, s'')))"

definition sv_on_frame :: "sv_filter \<Rightarrow> bool \<Rightarrow> frame \<Rightarrow> le_sample \<Rightarrow> (le_sample list \<times> le_sample) option" where
  "sv_on_frame flt stopped f s = (if stopped then None else Some (le_handle (sv_frame_asdus flt f) s))"

section \<open>The data set is kept\<close>

definition le_ok :: "le_sample \<Rightarrow> bool" where
  "le_ok s \<longleftrightarrow> length (le_i s) = 4 \<and> length (le_v s) = 4 \<and> length (le_q s) = 8"

text \<open>The sixteen words of a data set in the order they are sent.\<close>

definition le_words :: "le_sample \<Rightarrow> u32 list" where
  "le_words s = concat (map (\<lambda>(x, q). [x, q]) (zip (le_i s @ le_v s) (le_q s)))"

lemma copy_at_append: "length p = off \<Longrightarrow> copy_at off bs (p @ out) = (p @ bs) @ drop (length bs) out"
  by (simp add: copy_at_def)

lemma write_channel_append:
  assumes "length p = base + i * 8"
  shows "write_channel base xs qs i (p @ out) =
    (p @ to_be_bytes (xs ! i) @ to_be_bytes (qs ! i)) @ drop 8 out"
proof -
  have "copy_at (base + i * 8) (to_be_bytes (xs ! i)) (p @ out) = (p @ to_be_bytes (xs ! i)) @ drop 4 out"
    using copy_at_append [OF assms, of "to_be_bytes (xs ! i)" out] by simp
  moreover have "copy_at (base + i * 8 + 4) (to_be_bytes (qs ! i)) ((p @ to_be_bytes (xs ! i)) @ drop 4 out) =
      ((p @ to_be_bytes (xs ! i)) @ to_be_bytes (qs ! i)) @ drop (length (to_be_bytes (qs ! i))) (drop 4 out)"
    by (rule copy_at_append) (simp add: assms)
  ultimately show ?thesis by (simp add: write_channel_def)
qed

lemma write_channels:
  assumes "length p = base" "n \<le> 4"
  shows "fold (write_channel base xs qs) [0..<n] (p @ out) =
    (p @ concat (map (\<lambda>i. to_be_bytes (xs ! i) @ to_be_bytes (qs ! i)) [0..<n])) @ drop (8 * n) out"
  using assms(2)
proof (induction n)
  case (Suc n)
  have "length (p @ concat (map (\<lambda>i. to_be_bytes (xs ! i) @ to_be_bytes (qs ! i)) [0..<n])) = base + n * 8"
    using length_concat_map [of "[0..<n]" "\<lambda>i. to_be_bytes (xs ! i) @ to_be_bytes (qs ! i)" "\<lambda>_. 8"] assms(1)
    by (simp add: sum_list_triv)
  from write_channel_append [OF this, of xs qs "drop (8 * n) out"] Suc show ?case by simp
qed simp

lemma le_lists:
  assumes "le_ok s"
  obtains i0 i1 i2 i3 v0 v1 v2 v3 q0 q1 q2 q3 q4 q5 q6 q7 where
    "le_i s = [i0, i1, i2, i3]" "le_v s = [v0, v1, v2, v3]" "le_q s = [q0, q1, q2, q3, q4, q5, q6, q7]"
  using assms by (auto simp: le_ok_def numeral_eq_Suc length_Suc_conv)

lemma write_le_sample_octets:
  assumes "le_ok s" "LE_SAMPLE_LEN \<le> length out"
  shows "write_le_sample s out = (True, concat (map to_be_bytes (le_words s)) @ drop LE_SAMPLE_LEN out)"
proof -
  have "fold (write_channel 0 (le_i s) (le_q s)) [0..<4] out =
      concat (map (\<lambda>i. to_be_bytes (le_i s ! i) @ to_be_bytes (le_q s ! i)) [0..<4]) @ drop 32 out"
    using write_channels [of "[]" 0 4 "le_i s" "le_q s" out] by simp
  moreover have "fold (write_channel 32 (le_v s) (drop 4 (le_q s))) [0..<4] \<dots> =
      (concat (map (\<lambda>i. to_be_bytes (le_i s ! i) @ to_be_bytes (le_q s ! i)) [0..<4]) @
       concat (map (\<lambda>i. to_be_bytes (le_v s ! i) @ to_be_bytes (drop 4 (le_q s) ! i)) [0..<4])) @ drop 32 (drop 32 out)"
    by (subst write_channels) (simp_all add: upt_rec)
  moreover obtain i0 i1 i2 i3 v0 v1 v2 v3 q0 q1 q2 q3 q4 q5 q6 q7 where
    "le_i s = [i0, i1, i2, i3]" "le_v s = [v0, v1, v2, v3]" "le_q s = [q0, q1, q2, q3, q4, q5, q6, q7]"
    by (rule le_lists [OF assms(1)])
  ultimately show ?thesis
    using assms(2) by (simp add: write_le_sample_def Let_def le_words_def LE_SAMPLE_LEN_def upt_rec)
qed

lemma length_le_words: "le_ok s \<Longrightarrow> length (le_words s) = 16"
  by (auto elim!: le_lists simp: le_words_def)

lemma encode_le_octets: "le_ok s \<Longrightarrow> encode_le_sample s = concat (map to_be_bytes (le_words s))"
  by (simp add: encode_le_sample_def write_le_sample_octets LE_SAMPLE_LEN_def)

lemma le_word_append: "length xs = 4 \<Longrightarrow> le_word (xs @ ys) (4 + n) = le_word ys n"
  by (simp add: le_word_def nth_append add.commute)

lemma word_octets:
  "k < length ws \<Longrightarrow> le_word (concat (map to_be_bytes ws) @ zs) (4 * k) = ws ! k"
proof (induction ws arbitrary: k)
  case (Cons w ws)
  show ?case
  proof (cases k)
    case 0
    then show ?thesis using from_to_be_bytes_32 [of w] by (simp add: le_word_def to_be_bytes_32)
  next
    case (Suc j)
    with Cons le_word_append [of "to_be_bytes w" "concat (map to_be_bytes ws) @ zs" "4 * j"] show ?thesis by simp
  qed
qed simp

lemma fill_from_octets:
  assumes "le_ok s" "le_ok r"
  shows "fill_from r (encode_le_sample s @ zs) = Inr (s\<lparr>le_smp_cnt := le_smp_cnt r, le_smp_synch := le_smp_synch r\<rparr>)"
proof -
  have w: "le_word (encode_le_sample s @ zs) (4 * k) = le_words s ! k" if "k < 16" for k
    using that word_octets [of k "le_words s" zs] length_le_words [OF assms(1)] by (simp add: encode_le_octets [OF assms(1)])
  have "length (encode_le_sample s) = 64"
    using length_concat_map [of "le_words s" to_be_bytes "\<lambda>_. 4"] length_le_words [OF assms(1)]
    by (simp add: encode_le_octets [OF assms(1)] sum_list_triv)
  moreover obtain i0 i1 i2 i3 v0 v1 v2 v3 q0 q1 q2 q3 q4 q5 q6 q7 where
    "le_i s = [i0, i1, i2, i3]" "le_v s = [v0, v1, v2, v3]" "le_q s = [q0, q1, q2, q3, q4, q5, q6, q7]"
    by (rule le_lists [OF assms(1)])
  ultimately show ?thesis
    using w [of 0] w [of 1] w [of 2] w [of 3] w [of 4] w [of 5] w [of 6] w [of 7] w [of 8] w [of 9] w [of 10]
      w [of 11] w [of 12] w [of 13] w [of 14] w [of 15]
    by (simp add: fill_from_def LE_SAMPLE_LEN_def upt_rec le_words_def)
qed

section \<open>Samples from publisher to subscriber\<close>

definition le_publisher_ok :: "le_publisher \<Rightarrow> bool" where
  "le_publisher_ok p \<longleftrightarrow> utf8_valid (lc_sv_id (lp_cfg p)) \<and> utf8_valid (lc_dat_set (lp_cfg p)) \<and>
     length (lp_gm_identity p) = 8"

definition sv_selects :: "sv_filter \<Rightarrow> le_publisher \<Rightarrow> bool" where
  "sv_selects flt p \<longleftrightarrow> (sf_app_id flt = 0 \<or> sf_app_id flt = lc_app_id (lp_cfg p)) \<and>
     (sf_sv_id flt = [] \<or> sf_sv_id flt = lc_sv_id (lp_cfg p))"

lemma sv_asdu_ok: "le_publisher_ok p \<Longrightarrow> asdu_ok (sv_asdu p now s)"
  by (simp add: asdu_ok_def sv_asdu_def le_publisher_ok_def Let_def)

lemma decode_le_received:
  assumes "le_ok s" "le_ok r"
  shows "decode_le_into (received_asdu (sv_asdu p now s)) r = Inr s"
  using fill_from_octets [OF assms, of "[]"]
  by (simp add: decode_le_into_def received_asdu_def sv_asdu_def Let_def)

lemma le_handle_received:
  assumes "list_all le_ok ss" "le_ok r"
  shows "le_handle (map (\<lambda>s. received_asdu (sv_asdu p now s)) ss) r = (ss, last (r # ss))"
  using assms by (induction ss arbitrary: r) (auto simp: decode_le_received)

lemma sv_filter_received:
  assumes "sv_selects flt p"
  shows "sv_filter_matches flt (lc_app_id (lp_cfg p)) (received_asdu (sv_asdu p now s))"
  using assms unfolding sv_filter_matches_def sv_selects_def
  by (simp add: received_asdu_def sv_asdu_def Let_def) metis

lemma sv_frame_received:
  assumes "le_publisher_ok p" "sv_selects flt p" "list_all le_ok ss" "le_ok r"
    "length (fr_payload (sv_frame p now ss)) < 2 ^ 16"
  shows "sv_on_frame flt False (sv_frame p now ss) r = Some (ss, last (r # ss))"
proof -
  let ?p = "\<lparr>sv_app_id = lc_app_id (lp_cfg p), asdus = map (sv_asdu p now) ss\<rparr>"
  have "sv_parse (sv_marshal ?p @ []) = Inr \<lparr>sv_app_id = sv_app_id ?p, asdus = map received_asdu (asdus ?p)\<rparr>"
    using assms(1,5) by (intro sv_parse_marshal) (auto simp: sv_pdu_ok_def list_all_iff sv_asdu_ok sv_frame_def)
  then have "sv_frame_asdus flt (sv_frame p now ss) = map (\<lambda>s. received_asdu (sv_asdu p now s)) ss"
    using sv_filter_received [OF assms(2)] by (simp add: sv_frame_asdus_def sv_frame_def comp_def filter_map)
  with le_handle_received [OF assms(3,4)] show ?thesis by (simp add: sv_on_frame_def)
qed

text \<open>The size of a frame.\<close>

lemma length_opt_tlv: "length (opt_tlv t c) \<le> 11 + (case c of Some b \<Rightarrow> length b | None \<Rightarrow> 0)"
  using length_append_tlv_bound [of t] by (cases c) (simp_all add: add_increasing)

lemma length_sv_asdu:
  assumes "le_ok s" "length (lp_gm_identity p) = 8"
  shows "length (append_elem (asdu_element (sv_asdu p now s))) \<le>
    220 + length (lc_sv_id (lp_cfg p)) + length (lc_dat_set (lp_cfg p))"
proof -
  let ?a = "sv_asdu p now s" and ?c = "concat (map append_elem (asdu_fields (sv_asdu p now s)))"
  have smp: "length (sample ?a) = 64"
    using length_concat_map [of "le_words s" to_be_bytes "\<lambda>_. 4"] length_le_words [OF assms(1)]
    by (simp add: sv_asdu_def Let_def encode_le_octets [OF assms(1)] sum_list_triv)
  have ids: "sv_id ?a = lc_sv_id (lp_cfg p)" by (simp add: sv_asdu_def Let_def)
  have ds: "length (opt_tlv (context_primitive 1) (if sv_dat_set ?a = [] then None else Some (sv_dat_set ?a)))
      \<le> 11 + length (lc_dat_set (lp_cfg p))"
    using length_opt_tlv [of "context_primitive 1" "if sv_dat_set ?a = [] then None else Some (sv_dat_set ?a)"]
    by (auto simp: sv_asdu_def Let_def split: if_splits)
  have tm: "length (opt_tlv (context_primitive 4) (map_option (\<lambda>t. value_bytes (refr_time ?a t)) (refr_tm ?a))) \<le> 19"
    using length_opt_tlv [of "context_primitive 4" "map_option (\<lambda>t. value_bytes (refr_time ?a t)) (refr_tm ?a)"]
    by (cases "refr_tm ?a") (simp_all add: length_refr_time)
  have rt: "length (opt_tlv (context_primitive 6) (if smp_rate ?a = 0 then None else Some (to_be_bytes (smp_rate ?a)))) \<le> 13"
    using length_opt_tlv [of "context_primitive 6" "Some (to_be_bytes (smp_rate ?a))"] by simp
  have md: "length (opt_tlv (context_primitive 8) (map_option (\<lambda>m. [0, smp_mod_code m]) (sv_smp_mod ?a))) \<le> 13"
    using length_opt_tlv [of "context_primitive 8" "map_option (\<lambda>m. [0, smp_mod_code m]) (sv_smp_mod ?a)"]
    by (cases "sv_smp_mod ?a") simp_all
  have gm: "length (opt_tlv (context_primitive 9) (gm_identity ?a)) \<le> 19"
    using length_opt_tlv [of "context_primitive 9" "gm_identity ?a"] assms(2)
    by (auto simp: sv_asdu_def Let_def split: if_splits)
  have "length ?c \<le> 209 + length (lc_sv_id (lp_cfg p)) + length (lc_dat_set (lp_cfg p))"
    unfolding asdu_fields_append
    using length_append_tlv_bound [of "context_primitive 0" "sv_id ?a"]
      length_append_tlv_bound [of "context_primitive 2" "to_be_bytes (smp_cnt ?a)"]
      length_append_tlv_bound [of "context_primitive 3" "to_be_bytes (sv_conf_rev ?a)"]
      length_append_tlv_bound [of "context_primitive 5" "[smp_synch ?a]"]
      length_append_tlv_bound [of "context_primitive 7" "sample ?a"] ds tm rt md gm smp ids
    by (simp del: tag_defs)
  moreover have "append_elem (asdu_element ?a) = append_tlv TAG_SEQUENCE ?c"
    using asdu_fields_tags [of ?a] by (simp add: asdu_element_def)
  ultimately show ?thesis using length_append_tlv_bound [of TAG_SEQUENCE ?c] by simp
qed

end
