(* ===== verification/Sv_Correct.thy ===== *)
theory Sv_Correct
  imports Sv_Le
begin

text \<open>
  The correctness of sampled values: the wire format, the fixed data set and its quality words,
  and the stream of samples from the publisher's clock to a subscriber's callback.
\<close>

section \<open>The wire format\<close>

text \<open>
  C29. A sampled-value APDU below 64 KiB survives the wire, whatever padding follows: every ASDU
  is parsed with the fields it was sent with, present or absent, and the refresh time is the
  \<open>UtcTime\<close> that was sent.
\<close>

theorem sv_roundtrip:
  assumes "sv_pdu_ok p" "length (sv_marshal p) < 2 ^ 16"
  shows "sv_parse (sv_marshal p @ padding) = Inr \<lparr>sv_app_id = sv_app_id p, asdus = map received_asdu (asdus p)\<rparr>"
  by (rule sv_parse_marshal [OF assms])

definition sample_pdu :: sv_pdu where
  "sample_pdu = \<lparr>sv_app_id = 0x4000, asdus = [asdu_default\<lparr>sv_id := [0x4d, 0x55], smp_cnt := 7, smp_synch := 2,
     sv_smp_mod := Some SmpPerSec, sample := [1, 2, 3]\<rparr>]\<rparr>"

lemma length_sv_marshal:
  "length (sv_marshal p) \<le> 50 + (\<Sum>a\<leftarrow>asdus p. length (append_elem (asdu_element a)))"
proof -
  have "length (concat (map (\<lambda>a. append_elem (asdu_element a)) (asdus p))) =
      (\<Sum>a\<leftarrow>asdus p. length (append_elem (asdu_element a)))"
    by (simp add: length_concat comp_def)
  then show ?thesis
    unfolding sv_marshal_octets
    using length_append_tlv_bound [of sav_pdu_tag "append_tlv (context_primitive 0) (append_uint (of_nat (length (asdus p)))) @
        append_tlv (context_constructed 2) (concat (map (\<lambda>a. append_elem (asdu_element a)) (asdus p)))"]
      length_append_tlv_bound [of "context_primitive 0" "append_uint (of_nat (length (asdus p)))"]
      length_append_tlv_bound [of "context_constructed 2" "concat (map (\<lambda>a. append_elem (asdu_element a)) (asdus p))"]
      uint_size_range(2) [of "of_nat (length (asdus p))"]
    by (simp del: tag_defs)
qed

theorem sv_roundtrip_witness:
  "sv_parse (sv_marshal sample_pdu @ [0]) =
     Inr \<lparr>sv_app_id = sv_app_id sample_pdu, asdus = map received_asdu (asdus sample_pdu)\<rparr>"
proof (rule sv_roundtrip)
  let ?a = "asdu_default\<lparr>sv_id := [0x4d, 0x55], smp_cnt := 7, smp_synch := 2,
     sv_smp_mod := Some SmpPerSec, sample := [1, 2, 3 :: u8]\<rparr>"
  have "length (append_elem (asdu_element ?a)) \<le> 1000"
    using asdu_fields_tags [of ?a]
      length_append_tlv_bound [of TAG_SEQUENCE "concat (map append_elem (asdu_fields ?a))"]
      length_append_tlv_bound [of "context_primitive 0" "[0x4d, 0x55]"]
      length_append_tlv_bound [of "context_primitive 2" "to_be_bytes (7 :: u16)"]
      length_append_tlv_bound [of "context_primitive 3" "to_be_bytes (0 :: u32)"]
      length_append_tlv_bound [of "context_primitive 5" "[2]"]
      length_append_tlv_bound [of "context_primitive 7" "[1, 2, 3]"]
      length_append_tlv_bound [of "context_primitive 8" "[0, 1]"]
    by (simp add: asdu_element_def asdu_fields_append asdu_default_def)
  then show "length (sv_marshal sample_pdu) < 2 ^ 16"
    using length_sv_marshal [of sample_pdu] by (simp add: sample_pdu_def)
  show "sv_pdu_ok sample_pdu"
    by (simp add: sample_pdu_def sv_pdu_ok_def asdu_ok_def asdu_default_def utf8_valid_ascii)
qed

section \<open>The sample clock\<close>





section \<open>The stream\<close>













section \<open>Quality words\<close>

lemma bit_u32_0x1fff [simp]: "bit (0x1fff :: u32) n \<longleftrightarrow> n < 13"
  using bit_mask_word [of 13 n, where ?'a = 32] by (auto simp: mask_eq_exp_minus_1)

lemma bit_u32_3 [simp]: "bit (3 :: u32) n \<longleftrightarrow> n < 2"
  using bit_mask_word [of 2 n, where ?'a = 32] by (auto simp: mask_eq_exp_minus_1)

lemma low_bits_u32: "w AND 3 = (1 :: u32) \<longleftrightarrow> bit w 0 \<and> \<not> bit w 1"
proof
  assume e: "w AND 3 = 1"
  show "bit w 0 \<and> \<not> bit w 1"
    using arg_cong [OF e, of "\<lambda>x. bit x 0"] arg_cong [OF e, of "\<lambda>x. bit x 1"] by (simp add: bit_and_iff bit_1_iff)
next
  assume "bit w 0 \<and> \<not> bit w 1"
  then show "w AND 3 = 1" by (intro bit_word_eqI) (auto simp: bit_and_iff bit_1_iff less_2_cases_iff)
qed

lemma low_bits_u16: "w AND 3 = (1 :: u16) \<longleftrightarrow> bit w 0 \<and> \<not> bit w 1"
proof
  assume e: "w AND 3 = 1"
  show "bit w 0 \<and> \<not> bit w 1"
    using arg_cong [OF e, of "\<lambda>x. bit x 0"] arg_cong [OF e, of "\<lambda>x. bit x 1"] by (simp add: bit_and_iff bit_1_iff)
next
  assume "bit w 0 \<and> \<not> bit w 1"
  then show "w AND 3 = 1" by (intro bit_word_eqI) (auto simp: bit_and_iff bit_1_iff less_2_cases_iff)
qed

lemma validity_reserved: "quality_validity q = VReserved \<longleftrightarrow> q AND 3 = 1"
  by (auto simp: quality_validity_def validity_from_bits_def)

text \<open>
  A quality written to a channel is read back, except that the validity which the first
  9-2LE guideline used for invalid is read as invalid; the other channels and the bits beyond
  the quality are untouched.
\<close>

theorem le_quality_roundtrip:
  assumes "i < length (le_q s)" "q < 0x2000"
  shows "le_quality (le_set_quality s i q) i =
      (if quality_validity q = VReserved then with_validity q VInvalid else q) \<and>
    (\<forall>j. j \<noteq> i \<longrightarrow> le_quality (le_set_quality s i q) j = le_quality s j) \<and>
    drop_bit 13 (le_q (le_set_quality s i q) ! i) = drop_bit 13 (le_q s ! i)"
proof -
  let ?w = "(le_q s ! i AND NOT LE_QUALITY_MASK) OR (ucast q AND LE_QUALITY_MASK)"
  have m: "bit LE_QUALITY_MASK n \<longleftrightarrow> n < 13" for n by (simp add: LE_QUALITY_MASK_def)
  have q: "n < 13" if "bit q n" for n
    using assms(2) that word_less_exp_bits [of q 13 n] by (force simp: word_less_nat_alt not_le [symmetric])
  have b: "bit ?w n \<longleftrightarrow> (if n < 13 then bit q n else bit (le_q s ! i) n)" for n
    using q [of n] by (auto simp: m bit_or_iff bit_and_iff bit_not_iff bit_word_ucast_iff dest: bit_imp_le_length)
  have u: "ucast (?w AND LE_QUALITY_MASK) = q"
    by (rule bit_word_eqI) (use q in \<open>auto simp: bit_and_iff bit_word_ucast_iff b m\<close>)
  have v: "(?w AND 3 = LE_VALIDITY_LEGACY_INVALID) = (quality_validity q = VReserved)"
    using b [of 0] b [of 1] unfolding LE_VALIDITY_LEGACY_INVALID_def low_bits_u32 validity_reserved low_bits_u16 by simp
  have "drop_bit 13 ?w = drop_bit 13 (le_q s ! i)"
    by (rule bit_word_eqI) (simp only: bit_drop_bit_eq o_def b, simp)
  with u v assms(1) show ?thesis by (simp add: le_quality_def le_set_quality_def Let_def)
qed

theorem le_quality_roundtrip_witness:
  "le_quality (le_set_quality le_sample_default 3 0x841) 3 = with_validity 0x841 VInvalid \<and>
    le_quality (le_set_quality le_sample_default 3 0x841) 2 = le_quality le_sample_default 2 \<and>
    drop_bit 13 (le_q (le_set_quality le_sample_default 3 0x841) ! 3) = drop_bit 13 (le_q le_sample_default ! 3)"
  using le_quality_roundtrip [of 3 le_sample_default "0x841"]
  by (simp add: le_sample_default_def quality_validity_def validity_from_bits_def)

end
