(* ===== verification/Model_Access.thy ===== *)
theory Model_Access
  imports Model_Tree
begin

text \<open>
  The laws of the lookups in the data model. Each level of the tree offers its parts by name,
  shared and mutable; the locale \<open>named_parts\<close> is the contract of such a level, interpreted for
  devices, nodes, objects, sub-objects and attributes. Along a path the laws compose: the
  mutable lookup finds what the shared lookup finds, a replacement is found again, and every
  other reference finds the value it found before.
\<close>

section \<open>One level\<close>

lemma find_mut_find: "map_option fst (find_mut P xs) = find P xs"
  by (induction xs) (auto simp: option.map_comp o_def case_prod_beta)

lemma find_mut_Some: "find_mut P xs = Some (x, put) \<Longrightarrow> find P xs = Some x"
  using find_mut_find [of P xs] by simp

lemma find_mut_holds: "find_mut P xs = Some (x, put) \<Longrightarrow> P x"
  using find_mut_Some [of P xs] by (auto simp: find_Some_iff)

lemma find_mut_put:
  "find_mut P xs = Some (x, put) \<Longrightarrow> P y \<Longrightarrow> find P (put y) = Some y"
  by (induction xs arbitrary: put) (auto split: if_splits)

lemma find_mut_other:
  "find_mut P xs = Some (x, put) \<Longrightarrow> \<not> Q x \<Longrightarrow> \<not> Q y \<Longrightarrow> find Q (put y) = find Q xs"
  by (induction xs arbitrary: put) (auto split: if_splits)

lemma find_mut_same:
  "find_mut P xs = Some (x, put) \<Longrightarrow> Q y = Q x \<Longrightarrow>
    find Q (put y) = find Q xs \<or> find Q xs = Some x \<and> find Q (put y) = Some y"
  by (induction xs arbitrary: put) (auto split: if_splits)

lemma mut_then_Some:
  "mut_then p g = Some (y, put) \<longleftrightarrow>
    (\<exists>x put1 put2. p = Some (x, put1) \<and> g x = Some (y, put2) \<and> put = (\<lambda>z. put1 (put2 z)))"
  by (auto simp: mut_then_def split: option.splits)

lemma mut_then_fst: "map_option fst (mut_then p g) = Option.bind (map_option fst p) (\<lambda>x. map_option fst (g x))"
  by (auto simp: mut_then_def option.map_comp o_def case_prod_beta split: option.splits)

lemma mut_field_Some:
  "mut_field sel upd P s = Some (x, put) \<longleftrightarrow>
    (\<exists>put'. find_mut P (sel s) = Some (x, put') \<and> put = (\<lambda>y. upd (put' y) s))"
  by (auto simp: mut_field_def mut_then_Some)

lemma mut_field_fst: "map_option fst (mut_field sel upd P s) = find P (sel s)"
  by (simp add: mut_field_def mut_then_fst find_mut_find)

locale named_parts =
  fixes get :: "'s \<Rightarrow> rust_string \<Rightarrow> 'a option"
    and get_mut :: "'s \<Rightarrow> rust_string \<Rightarrow> ('a \<times> ('a \<Rightarrow> 's)) option"
    and name_of :: "'a \<Rightarrow> rust_string"
  assumes get_eq: "get s k = map_option fst (get_mut s k)"
    and get_named: "get s k = Some x \<Longrightarrow> name_of x = k"
    and put_get: "get_mut s k = Some (x, put) \<Longrightarrow> name_of y = k \<Longrightarrow> get (put y) k = Some y"
    and put_frame: "get_mut s k = Some (x, put) \<Longrightarrow> name_of y = k \<Longrightarrow> k' \<noteq> k \<Longrightarrow> get (put y) k' = get s k'"
begin

lemma get_mut_get: "get_mut s k = Some (x, put) \<Longrightarrow> get s k = Some x"
  by (simp add: get_eq)

lemma get_mut_None: "get_mut s k = None \<longleftrightarrow> get s k = None"
  by (simp add: get_eq)

lemma get_mut_named: "get_mut s k = Some (x, put) \<Longrightarrow> name_of x = k"
  by (rule get_named [OF get_mut_get])

text \<open>A function of the part that a replacement keeps is kept for every name.\<close>

lemma put_view:
  assumes "get_mut s k = Some (x, put)" "name_of y = name_of x"
    and "k' = k \<Longrightarrow> f y = f x"
  shows "map_option f (get (put y) k') = map_option f (get s k')"
proof (cases "k' = k")
  case True
  with assms show ?thesis
    using put_get [OF assms(1), of y] get_mut_get [OF assms(1)] get_mut_named [OF assms(1)] by simp
next
  case False
  with assms show ?thesis
    using put_frame [OF assms(1)] get_mut_named [OF assms(1)] by simp
qed

end

lemma named_parts_field:
  assumes "\<And>s k. get s k = find (\<lambda>x. name_of x = k) (sel s)"
    and "\<And>s k. get_mut s k = mut_field sel upd (\<lambda>x. name_of x = k) s"
    and "\<And>xs s. sel (upd xs s) = xs"
  shows "named_parts get get_mut name_of"
proof
  fix s k show "get s k = map_option fst (get_mut s k)"
    by (simp add: assms mut_field_fst)
next
  fix s k x assume "get s k = Some x" then show "name_of x = k"
    by (auto simp: assms find_Some_iff)
next
  fix s k x put y assume "get_mut s k = Some (x, put)" "name_of y = k"
  then show "get (put y) k = Some y"
    by (auto simp: assms mut_field_Some dest: find_mut_put)
next
  fix s k x put y k' assume a: "get_mut s k = Some (x, put)" "name_of y = k" "k' \<noteq> k"
  then obtain put' where p: "find_mut (\<lambda>x. name_of x = k) (sel s) = Some (x, put')"
      "put = (\<lambda>y. upd (put' y) s)"
    by (auto simp: assms mut_field_Some)
  with a find_mut_other [OF p(1), of "\<lambda>x. name_of x = k'"] find_mut_holds [OF p(1)]
  show "get (put y) k' = get s k'" by (simp add: assms)
qed

lemma with_simps [simp]:
  "da_children (da_with_children cs da) = cs" "da_name (da_with_children cs da) = da_name da"
  "da_fc (da_with_children cs da) = da_fc da" "da_value (da_with_children cs da) = da_value da"
  "da_value (da_with_value v da) = v" "da_name (da_with_value v da) = da_name da"
  "da_fc (da_with_value v da) = da_fc da" "da_children (da_with_value v da) = da_children da"
  "da_trg_ops (da_with_value v da) = da_trg_ops da"
  "do_objects (do_with_objects os d) = os" "do_name (do_with_objects os d) = do_name d"
  "do_attributes (do_with_objects os d) = do_attributes d"
  "do_attributes (do_with_attributes as d) = as" "do_name (do_with_attributes as d) = do_name d"
  "do_objects (do_with_attributes as d) = do_objects d"
  by (cases da; simp)+ (cases d; simp)+

interpretation devices: named_parts device device_mut ld_name
  by (rule named_parts_field, rule device_def, rule device_mut_def, simp)

interpretation nodes: named_parts ld_node ld_node_mut ln_name
  by (rule named_parts_field, rule ld_node_def, rule ld_node_mut_def, simp)

interpretation node_objects: named_parts ln_object ln_object_mut do_name
  by (rule named_parts_field, rule ln_object_def, rule ln_object_mut_def, simp)

interpretation sub_objects: named_parts do_child do_child_mut do_name
  by (rule named_parts_field, rule do_child_def, rule do_child_mut_def, simp)

interpretation object_attributes: named_parts do_attribute do_attribute_mut da_name
  by (rule named_parts_field, rule do_attribute_def, rule do_attribute_mut_def, simp)

interpretation sub_attributes: named_parts da_child da_child_mut da_name
  by (rule named_parts_field, rule da_child_def, rule da_child_mut_def, simp)

section \<open>Along a path\<close>

text \<open>A replacement of an attribute that keeps its name, its constraint and its members.\<close>

definition same_place :: "data_attribute \<Rightarrow> data_attribute \<Rightarrow> bool" where
  "same_place x y \<longleftrightarrow> da_name y = da_name x \<and> da_fc y = da_fc x \<and> da_children y = da_children x"

lemma same_place_with_value [simp]: "same_place da (da_with_value v da)"
  by (simp add: same_place_def)

lemma da_path_mut_fst: "map_option fst (da_path_mut da ps) = da_path da ps"
proof (induction ps arbitrary: da)
  case (Cons p ps)
  then show ?case
    by (simp add: mut_then_fst sub_attributes.get_eq split: option.split)
qed simp

text \<open>The part that is put back keeps the header of the attribute above it.\<close>

lemma da_child_mut_header:
  "da_child_mut da p = Some (c, put) \<Longrightarrow>
    da_name (put c') = da_name da \<and> da_fc (put c') = da_fc da \<and> da_value (put c') = da_value da"
  by (auto simp: da_child_mut_def mut_field_Some)

lemma da_path_mut_header:
  "da_path_mut da ps = Some (x, put) \<Longrightarrow> same_place x y \<Longrightarrow>
    da_name (put y) = da_name da \<and> da_fc (put y) = da_fc da \<and> (ps \<noteq> [] \<longrightarrow> da_value (put y) = da_value da)"
  by (cases ps) (auto simp: mut_then_Some same_place_def dest: da_child_mut_header)

lemma da_path_put:
  "da_path_mut da ps = Some (x, put) \<Longrightarrow> same_place x y \<Longrightarrow> da_path (put y) ps = Some y"
proof (induction ps arbitrary: da put)
  case (Cons p ps)
  then obtain c put1 put2 where c: "da_child_mut da p = Some (c, put1)" "da_path_mut c ps = Some (x, put2)"
      "put = (\<lambda>z. put1 (put2 z))"
    by (auto simp: mut_then_Some)
  have "da_name (put2 y) = p"
    using da_path_mut_header [OF c(2) Cons.prems(2)] sub_attributes.get_mut_named [OF c(1)] by simp
  then show ?case
    using Cons.IH [OF c(2) Cons.prems(2)] sub_attributes.put_get [OF c(1)] c(3) by simp
qed simp

lemma da_path_children: "da_children y = da_children x \<Longrightarrow> ps \<noteq> [] \<Longrightarrow> da_path y ps = da_path x ps"
  by (cases ps) (simp_all add: da_child_def)

lemma da_path_frame:
  "da_path_mut da ps = Some (x, put) \<Longrightarrow> same_place x y \<Longrightarrow> qs \<noteq> ps \<Longrightarrow>
    map_option da_value (da_path (put y) qs) = map_option da_value (da_path da qs)"
proof (induction ps arbitrary: da put qs)
  case Nil
  then show ?case
    by (auto simp: same_place_def dest: da_path_children [where ps = qs])
next
  case (Cons p ps)
  then obtain c put1 put2 where c: "da_child_mut da p = Some (c, put1)" "da_path_mut c ps = Some (x, put2)"
      "put = (\<lambda>z. put1 (put2 z))"
    by (auto simp: mut_then_Some)
  have n: "da_name (put2 y) = p"
    using da_path_mut_header [OF c(2) Cons.prems(2)] sub_attributes.get_mut_named [OF c(1)] by simp
  show ?case
  proof (cases qs)
    case Nil
    then show ?thesis using da_child_mut_header [OF c(1)] c(3) by simp
  next
    case (Cons q qs')
    show ?thesis
    proof (cases "q = p")
      case True
      then have "qs' \<noteq> ps" using Cons.prems(3) \<open>qs = q # qs'\<close> by simp
      with True show ?thesis
        using Cons.IH [OF c(2) Cons.prems(2)] sub_attributes.put_get [OF c(1) n]
          sub_attributes.get_mut_get [OF c(1)] c(3) \<open>qs = q # qs'\<close> by simp
    next
      case False
      then show ?thesis
        using sub_attributes.put_frame [OF c(1) n False] c(3) \<open>qs = q # qs'\<close> by simp
    qed
  qed
qed

text \<open>The two phases of the lookup below a data object: sub-objects, then attributes.\<close>

definition object_attr :: "data_object \<Rightarrow> rust_string list \<Rightarrow> fc \<Rightarrow> data_attribute option" where
  "object_attr d path fc = (case lookup_object d path fc of Some (NAttribute da) \<Rightarrow> Some da | _ \<Rightarrow> None)"

lemma object_attr_simps [simp]:
  "object_attr d [] fc = None"
  "object_attr d (p # ps) fc =
     (case do_child d p of
        Some s \<Rightarrow> object_attr s ps fc
      | None \<Rightarrow> Option.bind (do_attribute_fc d p fc) (\<lambda>da. da_path da ps))"
  by (auto simp: object_attr_def lookup_object_def Option.bind_def split: option.splits node.splits)

lemma object_attribute_mut_simps [simp]:
  "object_attribute_mut d [] fc = None"
  "object_attribute_mut d (p # ps) fc =
     (if do_child d p = None then mut_then (do_attribute_fc_mut d p fc) (\<lambda>da. da_path_mut da ps)
      else mut_then (do_child_mut d p) (\<lambda>s. object_attribute_mut s ps fc))"
  by (auto simp: object_attribute_mut_def mut_then_def option.map_comp o_def case_prod_beta
      split: option.splits list.splits prod.splits intro!: option.map_cong)

lemma do_attribute_fc_mut_Some:
  assumes "do_attribute_fc_mut d p fc = Some (x, put)"
  shows "do_attribute_fc d p fc = Some x" "da_name x = p" "do_objects (put y) = do_objects d"
    and "do_name (put y) = do_name d"
    and "da_name y = da_name x \<Longrightarrow> da_fc y = da_fc x \<Longrightarrow> do_attribute_fc (put y) p fc = Some y"
    and "da_name y = da_name x \<Longrightarrow> da_fc y = da_fc x \<Longrightarrow>
      do_attribute_fc (put y) q fc' = do_attribute_fc d q fc' \<or>
      q = p \<and> do_attribute_fc d q fc' = Some x \<and> do_attribute_fc (put y) q fc' = Some y"
proof -
  let ?P = "\<lambda>a. da_name a = p \<and> fc_matches fc (da_fc a)"
  obtain put' where p: "find_mut ?P (do_attributes d) = Some (x, put')"
      "put = (\<lambda>y. do_with_attributes (put' y) d)"
    using assms by (auto simp: do_attribute_fc_mut_def mut_field_Some)
  show "do_attribute_fc d p fc = Some x" "da_name x = p" "do_objects (put y) = do_objects d" "do_name (put y) = do_name d"
    using find_mut_Some [OF p(1)] find_mut_holds [OF p(1)] p(2) by (simp_all add: do_attribute_fc_def)
  show "do_attribute_fc (put y) p fc = Some y" if "da_name y = da_name x" "da_fc y = da_fc x"
    using find_mut_put [OF p(1), of y] find_mut_holds [OF p(1)] p(2) that by (simp add: do_attribute_fc_def)
  show "do_attribute_fc (put y) q fc' = do_attribute_fc d q fc' \<or>
      q = p \<and> do_attribute_fc d q fc' = Some x \<and> do_attribute_fc (put y) q fc' = Some y"
    if "da_name y = da_name x" "da_fc y = da_fc x"
    using find_mut_same [OF p(1), of "\<lambda>a. da_name a = q \<and> fc_matches fc' (da_fc a)" y]
      find_mut_holds [OF p(1)] p(2) that
    by (auto simp: do_attribute_fc_def find_Some_iff)
qed

lemma do_child_mut_header:
  "do_child_mut d p = Some (s, put) \<Longrightarrow> do_name (put s') = do_name d \<and> do_attributes (put s') = do_attributes d"
  by (auto simp: do_child_mut_def mut_field_Some)

lemma object_attribute_mut_fst: "map_option fst (object_attribute_mut d path fc) = object_attr d path fc"
proof (induction path arbitrary: d)
  case (Cons p ps)
  have "map_option fst (do_attribute_fc_mut d p fc) = do_attribute_fc d p fc"
    by (simp add: do_attribute_fc_mut_def do_attribute_fc_def mut_field_fst)
  then show ?case
    using Cons.IH by (auto simp: mut_then_fst da_path_mut_fst sub_objects.get_eq Option.bind_def split: option.split)
qed simp

lemma object_attribute_mut_name:
  "object_attribute_mut d path fc = Some (x, put) \<Longrightarrow> do_name (put y) = do_name d"
  by (cases path)
     (auto simp: mut_then_Some do_attribute_fc_mut_Some(4) split: if_splits dest: do_child_mut_header)

lemma object_attr_put:
  "object_attribute_mut d path fc = Some (x, put) \<Longrightarrow> same_place x y \<Longrightarrow> object_attr (put y) path fc = Some y"
proof (induction path arbitrary: d put)
  case (Cons p ps)
  show ?case
  proof (cases "do_child d p")
    case None
    with Cons.prems obtain da put1 put2 where s: "do_attribute_fc_mut d p fc = Some (da, put1)"
        "da_path_mut da ps = Some (x, put2)" "put = (\<lambda>z. put1 (put2 z))"
      by (auto simp: mut_then_Some)
    moreover have "do_child (put1 a) p = None" for a
      using None do_attribute_fc_mut_Some(3) [OF s(1)] by (simp add: do_child_def)
    ultimately show ?thesis
      using da_path_put [OF s(2) Cons.prems(2)] da_path_mut_header [OF s(2) Cons.prems(2)]
        do_attribute_fc_mut_Some(5) [OF s(1), of "put2 y"] by simp
  next
    case (Some c)
    with Cons.prems obtain s put1 put2 where s: "do_child_mut d p = Some (s, put1)"
        "object_attribute_mut s ps fc = Some (x, put2)" "put = (\<lambda>z. put1 (put2 z))"
      by (auto simp: mut_then_Some)
    then show ?thesis
      using Cons.IH [OF s(2) Cons.prems(2)] sub_objects.put_get [OF s(1), of "put2 y"]
        object_attribute_mut_name [OF s(2), of y] sub_objects.get_mut_named [OF s(1)] by simp
  qed
qed simp

abbreviation object_value :: "data_object \<Rightarrow> rust_string list \<Rightarrow> fc \<Rightarrow> mms_value option option" where
  "object_value d path fc \<equiv> map_option da_value (object_attr d path fc)"

lemma object_value_frame:
  "object_attribute_mut d path fc = Some (x, put) \<Longrightarrow> same_place x y \<Longrightarrow> qs \<noteq> path \<Longrightarrow>
    object_value (put y) qs fc' = object_value d qs fc'"
proof (induction path arbitrary: d put qs)
  case (Cons p ps)
  show ?case
  proof (cases qs)
    case (Cons q qs')
    note qs = \<open>qs = q # qs'\<close>
    show ?thesis
    proof (cases "do_child d p")
      case None
      with Cons.prems obtain da put1 put2 where s: "do_attribute_fc_mut d p fc = Some (da, put1)"
          "da_path_mut da ps = Some (x, put2)" "put = (\<lambda>z. put1 (put2 z))"
        by (auto simp: mut_then_Some)
      have c: "do_child (put1 a) q = do_child d q" for a
        using do_attribute_fc_mut_Some(3) [OF s(1)] by (simp add: do_child_def)
      have h: "da_name (put2 y) = da_name da" "da_fc (put2 y) = da_fc da"
        using da_path_mut_header [OF s(2) Cons.prems(2)] by simp_all
      have f: "map_option da_value (da_path (put2 y) qs') = map_option da_value (da_path da qs')" if "q = p"
        using da_path_frame [OF s(2) Cons.prems(2)] Cons.prems(3) qs that by simp
      show ?thesis
        using do_attribute_fc_mut_Some(6) [OF s(1) h, of q fc'] f c qs s(3)
        by (auto split: option.split)
    next
      case (Some c)
      with Cons.prems obtain s put1 put2 where s: "do_child_mut d p = Some (s, put1)"
          "object_attribute_mut s ps fc = Some (x, put2)" "put = (\<lambda>z. put1 (put2 z))"
        by (auto simp: mut_then_Some)
      have n: "do_name (put2 y) = p"
        using object_attribute_mut_name [OF s(2)] sub_objects.get_mut_named [OF s(1)] by simp
      have a: "do_attribute_fc (put1 z) q fc' = do_attribute_fc d q fc'" for z
        using do_child_mut_header [OF s(1)] by (simp add: do_attribute_fc_def)
      show ?thesis
      proof (cases "q = p")
        case True
        then have "qs' \<noteq> ps" using Cons.prems(3) qs by simp
        with True show ?thesis
          using Cons.IH [OF s(2) Cons.prems(2)] sub_objects.put_get [OF s(1) n]
            sub_objects.get_mut_get [OF s(1)] qs s(3) by simp
      next
        case False
        then show ?thesis
          using sub_objects.put_frame [OF s(1) n False] a qs s(3) by (simp split: option.split)
      qed
    qed
  qed simp
qed simp

section \<open>The whole model\<close>

lemma attribute_path:
  "attribute m r fc =
    (case ref_path r of
       n # d # p # ps \<Rightarrow>
         Option.bind (Option.bind (Option.bind (device m (ref_ld r)) (\<lambda>ld. ld_node ld n)) (\<lambda>ln. ln_object ln d))
           (\<lambda>dob. object_attr dob (p # ps) fc)
     | _ \<Rightarrow> None)"
proof -
  have "lookup_object d [] fc = Some (NObject d)" for d
    by (simp add: lookup_object_def)
  then show ?thesis
    by (auto simp: attribute_def lookup_def object_attr_def simp del: object_attr_simps
        split: option.split list.split)
qed

lemma attribute_mut_attribute: "map_option fst (attribute_mut m r fc) = attribute m r fc"
  by (auto simp: attribute_mut_def attribute_path mut_then_fst object_attribute_mut_fst
      devices.get_eq nodes.get_eq node_objects.get_eq
      simp del: object_attr_simps object_attribute_mut_simps split: list.split)

lemma attribute_mut_Some: "attribute_mut m r fc = Some (x, put) \<Longrightarrow> attribute m r fc = Some x"
  using attribute_mut_attribute [of m r fc] by simp

lemma attribute_mut_None: "attribute_mut m r fc = None \<longleftrightarrow> attribute m r fc = None"
  by (simp flip: attribute_mut_attribute)

text \<open>The levels of a mutable lookup that succeeds.\<close>

lemma attribute_mut_levels:
  assumes "attribute_mut m r fc = Some (x, put)"
  obtains n d p ps ld put1 ln put2 dob put3 put4 where "ref_path r = n # d # p # ps"
    "device_mut m (ref_ld r) = Some (ld, put1)" "ld_node_mut ld n = Some (ln, put2)"
    "ln_object_mut ln d = Some (dob, put3)" "object_attribute_mut dob (p # ps) fc = Some (x, put4)"
    "put = (\<lambda>y. put1 (put2 (put3 (put4 y))))"
  using assms
  by (auto simp: attribute_mut_def mut_then_Some simp del: object_attribute_mut_simps split: list.splits)

lemma put_names:
  "device_mut m k = Some (ld, put1) \<Longrightarrow> ld_name ld = k"
  "ld_node_mut ld n = Some (ln, put2) \<Longrightarrow> ld_name (put2 ln') = ld_name ld"
  "ln_object_mut ln d = Some (dob, put3) \<Longrightarrow> ln_name (put3 dob') = ln_name ln"
  by (auto simp: ld_node_mut_def ln_object_mut_def mut_field_Some devices.get_mut_named)

lemma attribute_put:
  assumes "attribute_mut m r fc = Some (x, put)" "same_place x y"
  shows "attribute (put y) r fc = Some y"
  using assms(1)
proof (rule attribute_mut_levels)
  fix n d p ps ld put1 ln put2 dob put3 put4
  assume l: "ref_path r = n # d # p # ps" "device_mut m (ref_ld r) = Some (ld, put1)"
    "ld_node_mut ld n = Some (ln, put2)" "ln_object_mut ln d = Some (dob, put3)"
    "object_attribute_mut dob (p # ps) fc = Some (x, put4)" "put = (\<lambda>y. put1 (put2 (put3 (put4 y))))"
  have "do_name (put4 y) = d"
    using object_attribute_mut_name [OF l(5)] node_objects.get_mut_named [OF l(4)] by simp
  moreover have "ln_name (put3 z) = n" for z
    using put_names(3) [OF l(4)] nodes.get_mut_named [OF l(3)] by simp
  moreover have "ld_name (put2 z) = ref_ld r" for z
    using put_names(2) [OF l(3)] put_names(1) [OF l(2)] by simp
  ultimately show ?thesis
    using object_attr_put [OF l(5) assms(2)] node_objects.put_get [OF l(4)] nodes.put_get [OF l(3)]
      devices.put_get [OF l(2)]
    by (simp add: attribute_path l(1,6) del: object_attr_simps)
qed

definition attribute_value :: "model \<Rightarrow> object_reference \<Rightarrow> fc \<Rightarrow> mms_value option option" where
  "attribute_value m r fc = map_option da_value (attribute m r fc)"

lemma bind_view: "map_option f a = map_option f b \<Longrightarrow> Option.bind a f = Option.bind b f"
  by (cases a; cases b) auto

text \<open>What can be seen of the data object under a device, a node and a name.\<close>

definition object_view ::
    "(data_object \<Rightarrow> 'b option) \<Rightarrow> rust_string \<Rightarrow> rust_string \<Rightarrow> rust_string \<Rightarrow> model \<Rightarrow> 'b option" where
  "object_view f k n d m =
     Option.bind (device m k) (\<lambda>ld. Option.bind (ld_node ld n) (\<lambda>ln. Option.bind (ln_object ln d) f))"

lemma object_view_put:
  assumes l: "device_mut m k = Some (ld, put1)" "ld_node_mut ld n = Some (ln, put2)" "ln_object_mut ln d = Some (dob, put3)"
    and "do_name dob' = do_name dob"
    and f: "(k', n', d') = (k, n, d) \<Longrightarrow> f dob' = f dob"
  shows "object_view f k' n' d' (put1 (put2 (put3 dob'))) = object_view f k' n' d' m"
proof -
  define nv where "nv = (\<lambda>ln. Option.bind (ln_object ln d') f)"
  define dv where "dv = (\<lambda>ld. Option.bind (ld_node ld n') nv)"
  have nv: "nv (put3 dob') = nv ln" if "(k', n') = (k, n)"
    using node_objects.put_view [OF l(3) assms(4), of d' f] f that by (auto simp: nv_def intro: bind_view)
  have "ln_name (put3 dob') = ln_name ln"
    by (rule put_names(3) [OF l(3)])
  then have dv: "dv (put2 (put3 dob')) = dv ld" if "k' = k"
    using nodes.put_view [OF l(2), of "put3 dob'" n' nv] nv that by (auto simp: dv_def intro: bind_view)
  have "ld_name (put2 (put3 dob')) = ld_name ld"
    by (rule put_names(2) [OF l(2)])
  then have "Option.bind (device (put1 (put2 (put3 dob'))) k') dv = Option.bind (device m k') dv"
    using devices.put_view [OF l(1), of "put2 (put3 dob')" k' dv] dv by (auto intro: bind_view)
  then show ?thesis
    by (simp add: object_view_def dv_def nv_def)
qed

lemma attribute_value_view:
  "attribute_value m r fc =
    (case ref_path r of
       n # d # p # ps \<Rightarrow> object_view (\<lambda>dob. object_value dob (p # ps) fc) (ref_ld r) n d m
     | _ \<Rightarrow> None)"
  by (auto simp: attribute_value_def attribute_path object_view_def map_option_bind o_def
      simp del: object_attr_simps split: list.split)

lemma attribute_value_frame:
  assumes "attribute_mut m r fc = Some (x, put)" "same_place x y"
    and "(ref_ld r', ref_path r') \<noteq> (ref_ld r, ref_path r)"
  shows "attribute_value (put y) r' fc' = attribute_value m r' fc'"
  using assms(1)
proof (rule attribute_mut_levels)
  fix n d p ps ld put1 ln put2 dob put3 put4
  assume l: "ref_path r = n # d # p # ps" "device_mut m (ref_ld r) = Some (ld, put1)"
    "ld_node_mut ld n = Some (ln, put2)" "ln_object_mut ln d = Some (dob, put3)"
    "object_attribute_mut dob (p # ps) fc = Some (x, put4)" "put = (\<lambda>y. put1 (put2 (put3 (put4 y))))"
  have "object_value (put4 y) qs fc' = object_value dob qs fc'" if "qs \<noteq> p # ps" for qs
    by (rule object_value_frame [OF l(5) assms(2) that])
  then have "object_view (\<lambda>dob. object_value dob (p' # ps') fc') (ref_ld r') n' d' (put y) =
      object_view (\<lambda>dob. object_value dob (p' # ps') fc') (ref_ld r') n' d' m"
    if "ref_path r' = n' # d' # p' # ps'" for n' d' p' ps'
    using object_view_put [OF l(2,3,4), of "put4 y" "ref_ld r'" n' d' "\<lambda>dob. object_value dob (p' # ps') fc'"]
      object_attribute_mut_name [OF l(5), of y] assms(3) l(1) that by (auto simp: l(6) simp del: object_attr_simps)
  then show ?thesis
    by (auto simp: attribute_value_view simp del: object_attr_simps split: list.split)
qed

end
