(* ===== verification/Model_Control.thy ===== *)
theory Model_Control
  imports Rust_Text
begin

text \<open>
  The enumerations of the control model (\<open>src/model/control.rs\<close>): control models, originator
  categories and additional causes, with their codes and texts; of the named causes those are
  defined that the modelled code uses. A code outside the standard's
  range is carried, so that every code survives.
\<close>

section \<open>Decimal text\<close>

text \<open>The decimal form of a number, as \<open>Display\<close> of the unsigned types writes it.\<close>

fun decimal :: "nat \<Rightarrow> string" where
  "decimal n = (if n < 10 then [char_of (48 + n)] else decimal (n div 10) @ [char_of (48 + n mod 10)])"

declare decimal.simps [simp del]

section \<open>Control models\<close>

datatype ctl_model = StatusOnly | DirectNormal | SboNormal | DirectEnhanced | SboEnhanced | OtherModel u8

definition ctl_model_from_code :: "u8 \<Rightarrow> ctl_model" where
  "ctl_model_from_code code =
     (if code = 0 then StatusOnly else if code = 1 then DirectNormal else if code = 2 then SboNormal
      else if code = 3 then DirectEnhanced else if code = 4 then SboEnhanced else OtherModel code)"

fun ctl_model_code :: "ctl_model \<Rightarrow> u8" where
  "ctl_model_code StatusOnly = 0"
| "ctl_model_code DirectNormal = 1"
| "ctl_model_code SboNormal = 2"
| "ctl_model_code DirectEnhanced = 3"
| "ctl_model_code SboEnhanced = 4"
| "ctl_model_code (OtherModel n) = n"

definition has_select :: "ctl_model \<Rightarrow> bool" where
  "has_select cm \<longleftrightarrow> cm = SboNormal \<or> cm = SboEnhanced"

definition is_enhanced :: "ctl_model \<Rightarrow> bool" where
  "is_enhanced cm \<longleftrightarrow> cm = DirectEnhanced \<or> cm = SboEnhanced"

definition is_controllable :: "ctl_model \<Rightarrow> bool" where
  "is_controllable cm \<longleftrightarrow> cm \<noteq> StatusOnly"

fun ctl_model_text :: "ctl_model \<Rightarrow> string" where
  "ctl_model_text StatusOnly = ''status-only''"
| "ctl_model_text DirectNormal = ''direct-with-normal-security''"
| "ctl_model_text SboNormal = ''sbo-with-normal-security''"
| "ctl_model_text DirectEnhanced = ''direct-with-enhanced-security''"
| "ctl_model_text SboEnhanced = ''sbo-with-enhanced-security''"
| "ctl_model_text (OtherModel n) = ''ctlModel('' @ decimal (unat n) @ '')''"

lemma ctl_model_code_from_code: "ctl_model_code (ctl_model_from_code c) = c"
  by (simp add: ctl_model_from_code_def)

section \<open>Originator categories\<close>

datatype or_cat =
    OrNotSupported | BayControl | StationControl | RemoteControl | AutomaticBay | AutomaticStation
  | AutomaticRemote | Maintenance | ProcessOrigin | OtherOrigin u8

definition or_cat_from_code :: "u8 \<Rightarrow> or_cat" where
  "or_cat_from_code code =
     (if code = 0 then OrNotSupported else if code = 1 then BayControl else if code = 2 then StationControl
      else if code = 3 then RemoteControl else if code = 4 then AutomaticBay
      else if code = 5 then AutomaticStation else if code = 6 then AutomaticRemote
      else if code = 7 then Maintenance else if code = 8 then ProcessOrigin else OtherOrigin code)"

fun or_cat_code :: "or_cat \<Rightarrow> u8" where
  "or_cat_code OrNotSupported = 0"
| "or_cat_code BayControl = 1"
| "or_cat_code StationControl = 2"
| "or_cat_code RemoteControl = 3"
| "or_cat_code AutomaticBay = 4"
| "or_cat_code AutomaticStation = 5"
| "or_cat_code AutomaticRemote = 6"
| "or_cat_code Maintenance = 7"
| "or_cat_code ProcessOrigin = 8"
| "or_cat_code (OtherOrigin n) = n"

fun or_cat_text :: "or_cat \<Rightarrow> string" where
  "or_cat_text OrNotSupported = ''not-supported''"
| "or_cat_text BayControl = ''bay-control''"
| "or_cat_text StationControl = ''station-control''"
| "or_cat_text RemoteControl = ''remote-control''"
| "or_cat_text AutomaticBay = ''automatic-bay''"
| "or_cat_text AutomaticStation = ''automatic-station''"
| "or_cat_text AutomaticRemote = ''automatic-remote''"
| "or_cat_text Maintenance = ''maintenance''"
| "or_cat_text ProcessOrigin = ''process''"
| "or_cat_text (OtherOrigin n) = ''orCat('' @ decimal (unat n) @ '')''"

lemma or_cat_code_from_code: "or_cat_code (or_cat_from_code c) = c"
  by (simp add: or_cat_from_code_def)

section \<open>Additional causes\<close>

type_synonym add_cause = u8

definition AC_UNKNOWN :: add_cause where "AC_UNKNOWN = 0"
definition AC_NOT_SUPPORTED :: add_cause where "AC_NOT_SUPPORTED = 1"
definition AC_TIME_LIMIT_OVER :: add_cause where "AC_TIME_LIMIT_OVER = 16"
definition AC_OBJECT_NOT_SELECTED :: add_cause where "AC_OBJECT_NOT_SELECTED = 18"
definition AC_OBJECT_ALREADY_SELECTED :: add_cause where "AC_OBJECT_ALREADY_SELECTED = 19"
definition AC_INCONSISTENT_PARAMETERS :: add_cause where "AC_INCONSISTENT_PARAMETERS = 26"
definition AC_TEST_NOT_ALLOWED :: add_cause where "AC_TEST_NOT_ALLOWED = 28"
definition AC_NONE :: add_cause where "AC_NONE = 255"

definition is_accepted :: "add_cause \<Rightarrow> bool" where
  "is_accepted c \<longleftrightarrow> c = AC_NONE"

definition ADD_CAUSE_NAMES :: "string list" where
  "ADD_CAUSE_NAMES =
     [''unknown'', ''not-supported'', ''blocked-by-switching-hierarchy'', ''select-failed'',
      ''invalid-position'', ''position-reached'', ''parameter-change-in-execution'',
      ''step-limit'', ''blocked-by-mode'', ''blocked-by-process'',
      ''blocked-by-interlocking'', ''blocked-by-synchrocheck'',
      ''command-already-in-execution'', ''blocked-by-health'', ''1-of-n-control'',
      ''abortion-by-cancel'', ''time-limit-over'', ''abortion-by-trip'',
      ''object-not-selected'', ''object-already-selected'', ''no-access-authority'',
      ''ended-with-overshoot'', ''abortion-due-to-deviation'',
      ''abortion-by-communication-loss'', ''blocked-by-command'', ''none-reported'',
      ''inconsistent-parameters'', ''locked-by-other-client'', ''test-not-allowed'',
      ''blocked-by-test'']"

definition add_cause_text :: "add_cause \<Rightarrow> string" where
  "add_cause_text c =
     (if c = 255 then ''none''
      else if unat c < length ADD_CAUSE_NAMES then ADD_CAUSE_NAMES ! unat c
      else ''addCause('' @ decimal (unat c) @ '')'')"

named_theorems cause_defs \<open>the additional causes as numbers\<close>

lemmas [cause_defs] = AC_UNKNOWN_def AC_NOT_SUPPORTED_def AC_TIME_LIMIT_OVER_def AC_OBJECT_NOT_SELECTED_def AC_OBJECT_ALREADY_SELECTED_def AC_INCONSISTENT_PARAMETERS_def AC_TEST_NOT_ALLOWED_def AC_NONE_def

text \<open>Every cause but the sentinel is a refusal.\<close>

lemma refusals [simp]:
  "AC_UNKNOWN \<noteq> AC_NONE" "AC_NOT_SUPPORTED \<noteq> AC_NONE" "AC_TIME_LIMIT_OVER \<noteq> AC_NONE" "AC_OBJECT_NOT_SELECTED \<noteq> AC_NONE"
  "AC_OBJECT_ALREADY_SELECTED \<noteq> AC_NONE" "AC_INCONSISTENT_PARAMETERS \<noteq> AC_NONE" "AC_TEST_NOT_ALLOWED \<noteq> AC_NONE"
  by (simp_all add: cause_defs)

end
