(* ===== verification/Server_Command.thy ===== *)
theory Server_Command
  imports Server_Tx Model_Control Mms_Codec
begin

text \<open>
  The commands of \<open>src/server/control.rs\<close>: recognising a control item, decoding the operate
  structure, the control model an object declares, the effect of an accepted operate on the
  process image, and the reports a client is sent. A transport address is an IP address with a
  port. \<open>None\<close> of \<open>decode_oper\<close> stands for a panic, which a bit string with fewer octets than
  its length would cause; no decoded value has one.
\<close>

section \<open>Control items\<close>

datatype phase = Sbow | Oper | Cancel | Sbo

definition phase_from_name :: "rust_string \<Rightarrow> phase option" where
  "phase_from_name s =
     (if s = ascii ''SBOw'' then Some Sbow else if s = ascii ''Oper'' then Some Oper
      else if s = ascii ''Cancel'' then Some Cancel else if s = ascii ''SBO'' then Some Sbo else None)"

fun split_control_loop :: "rust_string list \<Rightarrow> nat list \<Rightarrow> (rust_string \<times> phase) option" where
  "split_control_loop parts [] = None"
| "split_control_loop parts (i # is) =
     (case phase_from_name (parts ! i) of
        Some ph \<Rightarrow> Some (join_with [dollar] (take i parts), ph)
      | None \<Rightarrow> split_control_loop parts is)"

definition split_control :: "rust_string \<Rightarrow> (rust_string \<times> phase) option" where
  "split_control item =
     (let parts = split_on dollar item
      in if length parts < 4 \<or> parts ! 1 \<noteq> ascii ''CO'' then None
         else split_control_loop parts (rev [3..<length parts]))"

definition control_ref :: "rust_string \<Rightarrow> rust_string \<Rightarrow> object_reference" where
  "control_ref domain base =
     (let parts = split_on dollar base
      in domain @ [slash] @ join_with [dot] (parts ! 0 # drop 2 parts))"

section \<open>Commands\<close>

type_synonym conn_id = u64
type_synonym socket_addr = "ip_addr \<times> u16"

record control_ctx =
  ct_reference :: object_reference
  ct_value :: mms_value
  ct_origin :: or_cat
  ct_or_ident :: rust_string
  ct_ctl_num :: u8
  ct_test :: bool
  ct_interlock_check :: bool
  ct_synchro_check :: bool
  ct_select :: bool
  ct_t :: "system_time option"
  ct_t_quality :: time_quality
  ct_or_ident_len :: nat
  ct_conn :: conn_id
  ct_peer :: "socket_addr option"
  ct_term :: "nat option"

definition MAX_OR_IDENT_LEN :: nat where "MAX_OR_IDENT_LEN = 64"

definition empty_ctx :: "object_reference \<Rightarrow> conn_id \<Rightarrow> socket_addr option \<Rightarrow> control_ctx" where
  "empty_ctx r conn peer =
     \<lparr>ct_reference = r, ct_value = NoneV, ct_origin = OrNotSupported, ct_or_ident = [], ct_ctl_num = 0,
      ct_test = False, ct_interlock_check = False, ct_synchro_check = False, ct_select = False, ct_t = None,
      ct_t_quality = 0, ct_or_ident_len = 0, ct_conn = conn, ct_peer = peer, ct_term = None\<rparr>"

text \<open>The members of the structure, in the order they are read.\<close>

definition decode_origin :: "mms_value \<Rightarrow> control_ctx \<Rightarrow> control_ctx" where
  "decode_origin origin ctx =
     (if type_of_value origin \<noteq> TyStructure then ctx
      else let ctx1 = (case value_index origin 0 of
                         Some cat \<Rightarrow> ctx\<lparr>ct_origin := or_cat_from_code (ucast (as_i64 cat))\<rparr> | None \<Rightarrow> ctx)
           in case value_index origin 1 of
                Some ident \<Rightarrow> ctx1\<lparr>ct_or_ident := utf8_lossy (value_bytes ident),
                                   ct_or_ident_len := length (value_bytes ident)\<rparr>
              | None \<Rightarrow> ctx1)"

definition decode_check :: "mms_value \<Rightarrow> control_ctx \<Rightarrow> control_ctx option" where
  "decode_check check ctx =
     (case (value_bit check 0, value_bit check 1) of
        (Some b0, Some b1) \<Rightarrow> Some (ctx\<lparr>ct_synchro_check := b0, ct_interlock_check := b1\<rparr>)
      | _ \<Rightarrow> None)"

definition decode_oper ::
    "object_reference \<Rightarrow> mms_value \<Rightarrow> conn_id \<Rightarrow> socket_addr option \<Rightarrow> control_ctx option" where
  "decode_oper r v conn peer =
     (let ctx0 = empty_ctx r conn peer in
      if type_of_value v \<noteq> TyStructure then Some ctx0
      else let ctx1 = (case value_index v 0 of Some val \<Rightarrow> ctx0\<lparr>ct_value := val\<rparr> | None \<Rightarrow> ctx0);
               ctx2 = (case value_index v 1 of Some origin \<Rightarrow> decode_origin origin ctx1 | None \<Rightarrow> ctx1);
               ctx3 = (case value_index v 2 of Some n \<Rightarrow> ctx2\<lparr>ct_ctl_num := ucast (as_i64 n)\<rparr> | None \<Rightarrow> ctx2);
               ctx4 = (case value_index v 3 of
                         Some t \<Rightarrow> ctx3\<lparr>ct_t := value_time t, ct_t_quality := value_time_quality t\<rparr> | None \<Rightarrow> ctx3);
               ctx5 = (case value_index v 4 of Some t \<Rightarrow> ctx4\<lparr>ct_test := as_bool t\<rparr> | None \<Rightarrow> ctx4)
           in case value_index v 5 of Some check \<Rightarrow> decode_check check ctx5 | None \<Rightarrow> Some ctx5)"

section \<open>What an object declares\<close>

definition cf_value :: "model \<Rightarrow> object_reference \<Rightarrow> rust_string \<Rightarrow> mms_value option" where
  "cf_value m r name =
     (case attribute m (ref_child r name) FcCf of None \<Rightarrow> None | Some da \<Rightarrow> da_value da)"

definition declared_ctl_model :: "model \<Rightarrow> object_reference \<Rightarrow> ctl_model option" where
  "declared_ctl_model m r =
     map_option (\<lambda>v. ctl_model_from_code (ucast (as_i64 v))) (cf_value m r (ascii ''ctlModel''))"

text \<open>Durations are in nanoseconds.\<close>

definition cf_millis :: "model \<Rightarrow> object_reference \<Rightarrow> rust_string \<Rightarrow> nat" where
  "cf_millis m r name =
     (case cf_value m r name of None \<Rightarrow> 0 | Some v \<Rightarrow> unat (as_u64 v) * 1000000)"

section \<open>The effect of an operate\<close>

definition status_value :: "data_attribute \<Rightarrow> mms_value \<Rightarrow> mms_value option" where
  "status_value da ctl_val =
     (let dbpos = (eq_ignore_ascii_case (da_btype da) (ascii ''Dbpos'') \<or>
                   (da_kind da = Some TyBitString \<and>
                    (case da_value da of None \<Rightarrow> False | Some v \<Rightarrow> value_bit_len v = 2)));
          kind = type_of_value ctl_val;
          same_type = ((case da_kind da of None \<Rightarrow> True | Some k \<Rightarrow> k = kind) \<and>
                       (case da_value da of None \<Rightarrow> True | Some v \<Rightarrow> type_of_value v = kind))
      in case ctl_val of
           NoneV \<Rightarrow> None
         | BooleanV on \<Rightarrow> if dbpos then dbpos_value (if on then On else Off)
                         else if same_type then Some ctl_val else None
         | _ \<Rightarrow> if same_type then Some ctl_val else None)"

definition apply_control ::
    "object_reference \<Rightarrow> mms_value \<Rightarrow> model \<times> change_set \<Rightarrow> model \<times> change_set" where
  "apply_control r ctl_val = (\<lambda>(m, changes).
     let st_ref = ref_child r (ascii ''stVal'') in
     case attribute_mut m st_ref FcSt of
       None \<Rightarrow> (m, changes)
     | Some (da, put) \<Rightarrow>
         if da_children da \<noteq> [] then (m, changes)
         else case status_value da ctl_val of
                None \<Rightarrow> (m, changes)
              | Some status \<Rightarrow>
                  (put (da_with_value (Some status) da),
                   record_change st_ref FcSt (da_trg_ops da) (da_value da) status changes))"

section \<open>Reports to the client\<close>

definition int8_value :: "8 word \<Rightarrow> mms_value" where "int8_value b = IntegerV (scast b)"
definition uint8_value :: "u8 \<Rightarrow> mms_value" where "uint8_value b = UnsignedV (ucast b)"
definition int32_value :: "32 word \<Rightarrow> mms_value" where "int32_value b = IntegerV (scast b)"

definition domain_specific_name :: "rust_string \<Rightarrow> rust_string \<Rightarrow> element" where
  "domain_specific_name domain item =
     cons (context_constructed 1) [prim TAG_VISIBLE_STRING domain, prim TAG_VISIBLE_STRING item]"

definition vmd_specific_name :: "rust_string \<Rightarrow> element" where
  "vmd_specific_name name = prim (context_primitive 0) name"

definition variable_entry :: "element \<Rightarrow> element" where
  "variable_entry name = cons TAG_SEQUENCE [cons (context_constructed 0) [name]]"

definition last_appl_error_value ::
    "rust_string \<Rightarrow> rust_string \<Rightarrow> control_ctx \<Rightarrow> add_cause \<Rightarrow> mms_value" where
  "last_appl_error_value domain ctl_item ctx cause =
     StructureV
       [VisibleStringV (domain @ [slash] @ ctl_item),
        int8_value 0,
        StructureV [int8_value (or_cat_code (ct_origin ctx)), OctetStringV (ct_or_ident ctx)],
        uint8_value (ct_ctl_num ctx),
        int8_value cause]"

definition elements_of :: "mms_value \<Rightarrow> element list" where
  "elements_of v = (case data_element v of None \<Rightarrow> [] | Some e \<Rightarrow> [e])"

definition last_appl_error_report ::
    "rust_string \<Rightarrow> rust_string \<Rightarrow> control_ctx \<Rightarrow> add_cause \<Rightarrow> element" where
  "last_appl_error_report domain ctl_item ctx cause =
     cons (context_constructed 0)
       [cons (context_constructed 0) [variable_entry (vmd_specific_name (ascii ''LastApplError''))],
        cons (context_constructed 0) (elements_of (last_appl_error_value domain ctl_item ctx cause))]"

definition command_termination_report :: "rust_string \<Rightarrow> rust_string \<Rightarrow> mms_value \<Rightarrow> element" where
  "command_termination_report domain item oper =
     cons (context_constructed 0)
       [cons (context_constructed 0) [variable_entry (domain_specific_name domain item)],
        cons (context_constructed 0) (elements_of oper)]"

definition command_termination_negative_report ::
    "rust_string \<Rightarrow> rust_string \<Rightarrow> mms_value \<Rightarrow> mms_value \<Rightarrow> element" where
  "command_termination_negative_report domain item oper last_appl_error =
     cons (context_constructed 0)
       [cons (context_constructed 0)
          [variable_entry (vmd_specific_name (ascii ''LastApplError'')),
           variable_entry (domain_specific_name domain item)],
        cons (context_constructed 0) (elements_of last_appl_error @ elements_of oper)]"

end
