(* ===== verification/Server_Select.thy ===== *)
theory Server_Select
  imports Server_Command
begin

text \<open>
  Select-before-operate reservations (\<open>src/server/select.rs\<close>). Instants and durations are
  nanoseconds. The locale \<open>reservations\<close> is the contract the control services rely on: an
  object has at most one holder, a holder keeps the object until the reservation runs out or is
  given up, and only the holder passes the check of an operate.
\<close>

record selection =
  sel_conn :: conn_id
  sel_expiry :: nat
  sel_ctl_num :: "u8 option"

type_synonym selections = "object_reference \<rightharpoonup> selection"

definition SELECT_TIMEOUT :: nat where "SELECT_TIMEOUT = 30 * 1000000000"

definition reserve ::
    "object_reference \<Rightarrow> conn_id \<Rightarrow> u8 option \<Rightarrow> nat \<Rightarrow> nat \<Rightarrow> selections \<Rightarrow> bool \<times> selections" where
  "reserve r conn ctl_num timeout now s =
     (if (case s r of Some sel \<Rightarrow> sel_conn sel \<noteq> conn \<and> now < sel_expiry sel | None \<Rightarrow> False) then (False, s)
      else (True, s(r \<mapsto> \<lparr>sel_conn = conn, sel_expiry = now + timeout, sel_ctl_num = ctl_num\<rparr>)))"

definition check_number :: "u8 option \<Rightarrow> u8 \<Rightarrow> add_cause" where
  "check_number selected ctl_num =
     (case selected of Some n \<Rightarrow> if n \<noteq> ctl_num then AC_INCONSISTENT_PARAMETERS else AC_NONE | None \<Rightarrow> AC_NONE)"

definition check_operate :: "object_reference \<Rightarrow> conn_id \<Rightarrow> u8 \<Rightarrow> nat \<Rightarrow> selections \<Rightarrow> add_cause" where
  "check_operate r conn ctl_num now s =
     (case s r of
        None \<Rightarrow> AC_OBJECT_NOT_SELECTED
      | Some sel \<Rightarrow>
          if sel_conn sel \<noteq> conn \<or> sel_expiry sel \<le> now then AC_OBJECT_NOT_SELECTED
          else check_number (sel_ctl_num sel) ctl_num)"

definition check_cancel :: "object_reference \<Rightarrow> conn_id \<Rightarrow> u8 \<Rightarrow> nat \<Rightarrow> selections \<Rightarrow> add_cause" where
  "check_cancel r conn ctl_num now s =
     (case s r of
        None \<Rightarrow> AC_NONE
      | Some sel \<Rightarrow>
          if sel_expiry sel \<le> now then AC_NONE
          else if sel_conn sel \<noteq> conn then AC_OBJECT_NOT_SELECTED
          else check_number (sel_ctl_num sel) ctl_num)"

definition sel_clear :: "object_reference \<Rightarrow> selections \<Rightarrow> selections" where
  "sel_clear r s = s(r := None)"

definition release_conn :: "conn_id \<Rightarrow> selections \<Rightarrow> selections" where
  "release_conn conn s = (\<lambda>r. case s r of Some sel \<Rightarrow> if sel_conn sel \<noteq> conn then Some sel else None | None \<Rightarrow> None)"

text \<open>The holder of an object: the connection, and the number it selected with.\<close>

definition holder :: "selections \<Rightarrow> object_reference \<Rightarrow> nat \<Rightarrow> (conn_id \<times> u8 option) option" where
  "holder s r now =
     (case s r of
        Some sel \<Rightarrow> if now < sel_expiry sel then Some (sel_conn sel, sel_ctl_num sel) else None
      | None \<Rightarrow> None)"

locale reservations =
  fixes hold_of :: "'s \<Rightarrow> 'r \<Rightarrow> nat \<Rightarrow> ('c \<times> u8 option) option"
    and acquire :: "'r \<Rightarrow> 'c \<Rightarrow> u8 option \<Rightarrow> nat \<Rightarrow> nat \<Rightarrow> 's \<Rightarrow> bool \<times> 's"
    and give_up :: "'r \<Rightarrow> 's \<Rightarrow> 's"
    and give_up_all :: "'c \<Rightarrow> 's \<Rightarrow> 's"
    and may_operate :: "'r \<Rightarrow> 'c \<Rightarrow> u8 \<Rightarrow> nat \<Rightarrow> 's \<Rightarrow> add_cause"
    and may_cancel :: "'r \<Rightarrow> 'c \<Rightarrow> u8 \<Rightarrow> nat \<Rightarrow> 's \<Rightarrow> add_cause"
  assumes acquire_fst: "fst (acquire r c n timeout now s) \<longleftrightarrow> (\<forall>c' n'. hold_of s r now = Some (c', n') \<longrightarrow> c' = c)"
    and acquire_ok: "fst (acquire r c n timeout now s) \<Longrightarrow>
      hold_of (snd (acquire r c n timeout now s)) r' t =
        (if r' = r then (if t < now + timeout then Some (c, n) else None) else hold_of s r' t)"
    and acquire_refused: "\<not> fst (acquire r c n timeout now s) \<Longrightarrow> snd (acquire r c n timeout now s) = s"
    and give_up_hold: "hold_of (give_up r s) r' t = (if r' = r then None else hold_of s r' t)"
    and give_up_all_hold: "hold_of (give_up_all c s) r t =
      (case hold_of s r t of Some (c', n) \<Rightarrow> if c' = c then None else Some (c', n) | None \<Rightarrow> None)"
    and may_operate_iff: "may_operate r c k now s = AC_NONE \<longleftrightarrow>
      hold_of s r now = Some (c, None) \<or> hold_of s r now = Some (c, Some k)"
    and may_cancel_iff: "may_cancel r c k now s = AC_NONE \<longleftrightarrow>
      hold_of s r now = None \<or> hold_of s r now = Some (c, None) \<or> hold_of s r now = Some (c, Some k)"
begin

lemma operate_excludes:
  "may_operate r c n now s = AC_NONE \<Longrightarrow> may_operate r c' n' now s = AC_NONE \<Longrightarrow> c' = c"
  by (auto simp: may_operate_iff)

lemma acquire_keeps:
  assumes "hold_of s r now = Some (c, n)" "c' \<noteq> c"
  shows "\<not> fst (acquire r c' n' timeout now s)" "snd (acquire r c' n' timeout now s) = s"
    "may_operate r c' m now s \<noteq> AC_NONE" "may_cancel r c' m now s \<noteq> AC_NONE"
  using assms acquire_refused [of r c' n' timeout now s] by (auto simp: acquire_fst may_operate_iff may_cancel_iff)

lemma acquire_operate:
  assumes "fst (acquire r c n timeout now s)" "t < now + timeout" "\<forall>m. n = Some m \<longrightarrow> m = k"
  shows "may_operate r c k t (snd (acquire r c n timeout now s)) = AC_NONE"
  using assms by (cases n) (simp_all add: may_operate_iff acquire_ok)

end

lemma check_number_iff: "check_number sel n = AC_NONE \<longleftrightarrow> sel = None \<or> sel = Some n"
  by (auto simp: check_number_def cause_defs split: option.split)

interpretation sbo: reservations holder reserve sel_clear release_conn check_operate check_cancel
proof
  fix r c n timeout now and s :: selections and r' t
  show "fst (reserve r c n timeout now s) \<longleftrightarrow> (\<forall>c' n'. holder s r now = Some (c', n') \<longrightarrow> c' = c)"
    by (auto simp: reserve_def holder_def split: option.split)
  show "holder (snd (reserve r c n timeout now s)) r' t =
      (if r' = r then (if t < now + timeout then Some (c, n) else None) else holder s r' t)"
    if "fst (reserve r c n timeout now s)"
    using that by (auto simp: reserve_def holder_def split: option.split if_splits)
  show "snd (reserve r c n timeout now s) = s" if "\<not> fst (reserve r c n timeout now s)"
    using that by (auto simp: reserve_def split: option.split if_splits)
next
  fix r r' t and s :: selections and c n now
  show "holder (sel_clear r s) r' t = (if r' = r then None else holder s r' t)"
    by (simp add: holder_def sel_clear_def)
  show "holder (release_conn c s) r t =
      (case holder s r t of Some (c', n) \<Rightarrow> if c' = c then None else Some (c', n) | None \<Rightarrow> None)"
    by (auto simp: holder_def release_conn_def split: option.split)
next
  fix r c n now and s :: selections
  show "check_operate r c n now s = AC_NONE \<longleftrightarrow>
      holder s r now = Some (c, None) \<or> holder s r now = Some (c, Some n)"
    by (auto simp: check_operate_def holder_def check_number_iff split: option.split)
  show "check_cancel r c n now s = AC_NONE \<longleftrightarrow>
      holder s r now = None \<or> holder s r now = Some (c, None) \<or> holder s r now = Some (c, Some n)"
    by (auto simp: check_cancel_def holder_def check_number_iff split: option.split)
qed

end
