(* ===== verification/Server_Tracking.thy ===== *)
theory Server_Tracking
  imports Server_Command
begin

text \<open>
  Tracking of control services (\<open>src/server/tracking.rs\<close>): the tracking objects of a model, the
  record a control service leaves in its object, and the type check of \<open>src/server/handler.rs\<close>
  that guards every store. \<open>track_command\<close> is \<open>Tracker::track\<close> for the records of control
  services, which carry a command and no control block; tracking of control block writes is not
  modelled. The lemmas show that tracking touches nothing but the attributes it is for.
\<close>

section \<open>Type check of a store\<close>

definition int_range :: "rust_string \<Rightarrow> (int \<times> int) option" where
  "int_range btype =
     (if btype = ascii ''INT8'' then Some (- (2 ^ 7), 2 ^ 7 - 1)
      else if btype = ascii ''INT16'' then Some (- (2 ^ 15), 2 ^ 15 - 1)
      else if btype = ascii ''INT32'' then Some (- (2 ^ 31), 2 ^ 31 - 1)
      else if btype = ascii ''INT8U'' then Some (0, 2 ^ 8 - 1)
      else if btype = ascii ''INT16U'' then Some (0, 2 ^ 16 - 1)
      else if btype = ascii ''INT32U'' then Some (0, 2 ^ 32 - 1)
      else None)"

definition fits_type :: "value_type \<Rightarrow> data_attribute \<Rightarrow> mms_value \<Rightarrow> bool" where
  "fits_type want da v =
     (if want = TyNone then True
      else if type_of_value v \<noteq> want then False
      else case want of
        TyBitString \<Rightarrow> (case da_value da of None \<Rightarrow> True | Some cur \<Rightarrow> value_bit_len v = value_bit_len cur)
      | TyInteger \<Rightarrow> (case int_range (da_btype da) of None \<Rightarrow> True
                      | Some (lo, hi) \<Rightarrow> lo \<le> sint (as_i64 v) \<and> sint (as_i64 v) \<le> hi)
      | TyUnsigned \<Rightarrow> (case int_range (da_btype da) of None \<Rightarrow> True | Some (_, hi) \<Rightarrow> uint (as_u64 v) \<le> hi)
      | _ \<Rightarrow> True)"

definition value_fits :: "data_attribute \<Rightarrow> mms_value \<Rightarrow> bool" where
  "value_fits da v =
     (case da_value da of
        Some cur \<Rightarrow> fits_type (type_of_value cur) da v
      | None \<Rightarrow> (case da_kind da of Some k \<Rightarrow> fits_type k da v | None \<Rightarrow> True))"

section \<open>Service types and errors\<close>

type_synonym service_type = "32 word"
type_synonym service_error_code = "32 word"

definition ST_SELECT :: service_type where "ST_SELECT = 43"
definition ST_SELECT_WITH_VALUE :: service_type where "ST_SELECT_WITH_VALUE = 44"
definition ST_CANCEL :: service_type where "ST_CANCEL = 45"
definition ST_OPERATE :: service_type where "ST_OPERATE = 46"
definition ST_COMMAND_TERMINATION :: service_type where "ST_COMMAND_TERMINATION = 47"

definition SE_NO_ERROR :: service_error_code where "SE_NO_ERROR = 0"
definition SE_INSTANCE_NOT_AVAILABLE :: service_error_code where "SE_INSTANCE_NOT_AVAILABLE = 1"
definition SE_INSTANCE_IN_USE :: service_error_code where "SE_INSTANCE_IN_USE = 2"
definition SE_ACCESS_VIOLATION :: service_error_code where "SE_ACCESS_VIOLATION = 3"
definition SE_PARAMETER_VALUE_INAPPROPRIATE :: service_error_code where "SE_PARAMETER_VALUE_INAPPROPRIATE = 5"
definition SE_PARAMETER_VALUE_INCONSISTENT :: service_error_code where "SE_PARAMETER_VALUE_INCONSISTENT = 6"
definition SE_INSTANCE_LOCKED :: service_error_code where "SE_INSTANCE_LOCKED = 8"
definition SE_SERVER_CONSTRAINT :: service_error_code where "SE_SERVER_CONSTRAINT = 12"

definition service_error_of :: "data_access_error + unit \<Rightarrow> service_error_code" where
  "service_error_of res =
     (case res of
        Inr _ \<Rightarrow> SE_NO_ERROR
      | Inl TemporarilyUnavailable \<Rightarrow> SE_INSTANCE_LOCKED
      | Inl ObjectAccessDenied \<Rightarrow> SE_ACCESS_VIOLATION
      | Inl ObjectValueInvalid \<Rightarrow> SE_PARAMETER_VALUE_INAPPROPRIATE
      | Inl TypeInconsistent \<Rightarrow> SE_PARAMETER_VALUE_INCONSISTENT
      | Inl ObjectAttributeInconsistent \<Rightarrow> SE_PARAMETER_VALUE_INCONSISTENT
      | Inl ObjectNonExistent \<Rightarrow> SE_INSTANCE_NOT_AVAILABLE
      | Inl _ \<Rightarrow> SE_SERVER_CONSTRAINT)"

definition termination_error :: "add_cause \<Rightarrow> service_error_code" where
  "termination_error cause = (if cause = AC_NONE then SE_NO_ERROR else SE_SERVER_CONSTRAINT)"

section \<open>Tracking objects\<close>

definition TRACKING_KINDS :: "rust_string list" where
  "TRACKING_KINDS = map ascii
     [''SpcTrk'', ''DpcTrk'', ''IncTrk'', ''EncTrk'', ''ApcFTrk'', ''ApcIntTrk'', ''BscTrk'', ''IscTrk'', ''BacTrk'',
      ''BrcbTrk'', ''UrcbTrk'', ''LocbTrk'', ''GocbTrk'', ''MsvcbTrk'', ''UsvcbTrk'', ''SgcbTrk'']"

record trk_obj =
  to_ld :: rust_string
  to_ln :: rust_string
  to_object :: rust_string

definition trk_reference :: "trk_obj \<Rightarrow> object_reference" where
  "trk_reference t = to_ld t @ [slash] @ to_ln t @ [dot] @ to_object t"

record tracker =
  tk_by_ld :: "rust_string \<rightharpoonup> (rust_string \<rightharpoonup> trk_obj)"
  tk_first :: "rust_string \<rightharpoonup> trk_obj"

definition or_insert :: "('k \<rightharpoonup> 'v) \<Rightarrow> 'k \<Rightarrow> 'v \<Rightarrow> ('k \<rightharpoonup> 'v)" where
  "or_insert m k v = (case m k of Some _ \<Rightarrow> m | None \<Rightarrow> m(k \<mapsto> v))"

definition trim_digits :: "rust_string \<Rightarrow> rust_string" where
  "trim_digits s = rev (dropWhile (\<lambda>b. 0x30 \<le> b \<and> b \<le> 0x39) (rev s))"

definition tracker_add :: "logical_device \<Rightarrow> logical_node \<Rightarrow> data_object \<Rightarrow> tracker \<Rightarrow> tracker" where
  "tracker_add ld ln d t =
     (let kind = trim_digits (do_name d) in
      if kind \<notin> set TRACKING_KINDS then t
      else let obj = \<lparr>to_ld = ld_name ld, to_ln = ln_name ln, to_object = do_name d\<rparr>;
               of_ld = (case tk_by_ld t (ld_name ld) of None \<Rightarrow> Map.empty | Some m \<Rightarrow> m)
           in t\<lparr>tk_by_ld := (tk_by_ld t)(ld_name ld \<mapsto> or_insert of_ld kind obj),
                tk_first := or_insert (tk_first t) kind obj\<rparr>)"

definition is_ltrk :: "logical_node \<Rightarrow> bool" where
  "is_ltrk ln \<longleftrightarrow> ln_class ln = ascii ''LTRK'' \<or> ln_class ln = [] \<and> starts_with (ln_name ln) (ascii ''LTRK'')"

definition tracker_build :: "model \<Rightarrow> tracker" where
  "tracker_build m =
     fold (\<lambda>ld. fold (\<lambda>ln t. if is_ltrk ln then fold (tracker_add ld ln) (ln_objects ln) t else t) (ld_nodes ld))
       (md_devices m) \<lparr>tk_by_ld = Map.empty, tk_first = Map.empty\<rparr>"

definition tracker_lookup :: "tracker \<Rightarrow> rust_string \<Rightarrow> rust_string \<Rightarrow> trk_obj option" where
  "tracker_lookup t ld kind =
     (case tk_by_ld t ld of
        None \<Rightarrow> tk_first t kind
      | Some m \<Rightarrow> (case m kind of Some o' \<Rightarrow> Some o' | None \<Rightarrow> tk_first t kind))"

definition tracker_is_empty :: "tracker \<Rightarrow> bool" where
  "tracker_is_empty t \<longleftrightarrow> tk_first t = Map.empty"

section \<open>Recording a command\<close>

type_synonym 'a tracked = "'a \<times> change_set"

definition set_tracked :: "object_reference \<Rightarrow> mms_value \<Rightarrow> data_attribute tracked \<Rightarrow> data_attribute tracked" where
  "set_tracked r v = (\<lambda>(da, cs).
     if da_children da \<noteq> [] \<or> \<not> value_fits da v then (da, cs)
     else (da_with_value (Some v) da, record_change r (da_fc da) (da_trg_ops da) (da_value da) v cs))"

definition set_attr :: "object_reference \<Rightarrow> string \<Rightarrow> mms_value \<Rightarrow> data_object tracked \<Rightarrow> data_object tracked" where
  "set_attr base name v = (\<lambda>(d, cs).
     case do_attribute_mut d (ascii name) of
       None \<Rightarrow> (d, cs)
     | Some (da, put) \<Rightarrow> apfst put (set_tracked (ref_child base (ascii name)) v (da, cs)))"

definition set_member :: "object_reference \<Rightarrow> string \<times> mms_value \<Rightarrow> data_attribute tracked \<Rightarrow> data_attribute tracked" where
  "set_member r = (\<lambda>(name, v) (origin, cs).
     case mut_field da_children da_with_children (\<lambda>a. eq_ignore_ascii_case (da_name a) (ascii name)) origin of
       None \<Rightarrow> (origin, cs)
     | Some (da, put) \<Rightarrow> apfst put (set_tracked (ref_child r (ascii name)) v (da, cs)))"

definition set_origin :: "object_reference \<Rightarrow> (string \<times> mms_value) list \<Rightarrow> data_object tracked \<Rightarrow> data_object tracked" where
  "set_origin base members = (\<lambda>(d, cs).
     case do_attribute_mut d (ascii ''origin'') of
       None \<Rightarrow> (d, cs)
     | Some (da, put) \<Rightarrow> apfst put (fold (set_member (ref_child base (ascii ''origin''))) members (da, cs)))"

record ctl_track =
  tr_ctl_val :: mms_value
  tr_oper :: "mms_value option"
  tr_or_cat :: i64
  tr_or_ident :: bytes
  tr_ctl_num :: u8
  tr_cause :: add_cause

definition set_oper :: "object_reference \<Rightarrow> mms_value option \<Rightarrow> data_object tracked \<Rightarrow> data_object tracked" where
  "set_oper base oper s =
     (case oper of
        Some v \<Rightarrow>
          if type_of_value v = TyStructure then
            fold (\<lambda>(i, name) s. case value_index v i of Some x \<Rightarrow> set_attr base name x s | None \<Rightarrow> s)
              [(3, ''T''), (4, ''Test''), (5, ''Check'')] s
          else s
      | None \<Rightarrow> s)"

definition set_command :: "object_reference \<Rightarrow> ctl_track option \<Rightarrow> data_object tracked \<Rightarrow> data_object tracked" where
  "set_command base ctl s =
     (case ctl of
        None \<Rightarrow> s
      | Some c \<Rightarrow>
          let s1 = set_attr base ''ctlVal'' (tr_ctl_val c) s;
              s2 = set_origin base [(''orCat'', int8_value (ucast (tr_or_cat c))),
                                    (''orIdent'', OctetStringV (tr_or_ident c))] s1;
              s3 = set_attr base ''ctlNum'' (uint8_value (tr_ctl_num c)) s2;
              s4 = set_oper base (tr_oper c) s3;
              cause = (if tr_cause c = AC_NONE then AC_UNKNOWN else tr_cause c)
          in set_attr base ''respAddCause'' (int8_value cause) s4)"

definition object_mut :: "model \<Rightarrow> trk_obj \<Rightarrow> (data_object \<times> (data_object \<Rightarrow> model)) option" where
  "object_mut m t =
     mut_then (mut_then (device_mut m (to_ld t)) (\<lambda>ld. ld_node_mut ld (to_ln t))) (\<lambda>ln. ln_object_mut ln (to_object t))"

definition track_command ::
    "tracker \<Rightarrow> rust_string \<Rightarrow> rust_string \<Rightarrow> rust_string \<Rightarrow> service_type \<Rightarrow> service_error_code \<Rightarrow>
     ctl_track option \<Rightarrow> mms_value \<Rightarrow> model tracked \<Rightarrow> model tracked" where
  "track_command tk ld kind obj_ref svc err ctl now = (\<lambda>(m, cs).
     case tracker_lookup tk ld kind of
       None \<Rightarrow> (m, cs)
     | Some t \<Rightarrow>
         let base = trk_reference t in
         case object_mut m t of
           None \<Rightarrow> (m, cs)
         | Some (d, put) \<Rightarrow>
             apfst put
               (set_attr base ''objRef'' (VisibleStringV obj_ref)
                 (set_attr base ''t'' now
                   (set_attr base ''errorCode'' (int32_value err)
                     (set_attr base ''serviceType'' (int32_value svc)
                       (set_command base ctl (d, cs)))))))"

definition control_tracking_kind :: "model \<Rightarrow> object_reference \<Rightarrow> mms_value option \<Rightarrow> string option" where
  "control_tracking_kind m r ctl_val =
     (let cdc = (case lookup m r FcCo of Some (NObject d) \<Rightarrow> do_cdc d | _ \<Rightarrow> []) in
      if cdc = ascii ''SPC'' then Some ''SpcTrk''
      else if cdc = ascii ''DPC'' then Some ''DpcTrk''
      else if cdc = ascii ''INC'' then Some ''IncTrk''
      else if cdc = ascii ''ENC'' then Some ''EncTrk''
      else if cdc = ascii ''BSC'' then Some ''BscTrk''
      else if cdc = ascii ''ISC'' then Some ''IscTrk''
      else if cdc = ascii ''BAC'' then Some ''BacTrk''
      else if cdc = ascii ''APC'' then
        let integer = (case ctl_val of
                         Some v \<Rightarrow> type_of_value v = TyStructure \<and>
                           (case value_index v 0 of
                              Some f \<Rightarrow> type_of_value f \<noteq> TyFloat32 \<and> type_of_value f \<noteq> TyFloat64
                            | None \<Rightarrow> False)
                       | None \<Rightarrow> False)
        in Some (if integer then ''ApcIntTrk'' else ''ApcFTrk'')
      else None)"

definition track_control ::
    "tracker \<Rightarrow> object_reference \<Rightarrow> service_type \<Rightarrow> service_error_code \<Rightarrow> control_ctx option \<Rightarrow>
     mms_value option \<Rightarrow> add_cause \<Rightarrow> mms_value \<Rightarrow> model tracked \<Rightarrow> model tracked" where
  "track_control tk r svc err ctx oper cause now = (\<lambda>(m, cs).
     if tracker_is_empty tk then (m, cs)
     else case control_tracking_kind m r (map_option ct_value ctx) of
       None \<Rightarrow> (m, cs)
     | Some kind \<Rightarrow>
         track_command tk (ref_ld r) (ascii kind) r svc err
           (map_option (\<lambda>c. \<lparr>tr_ctl_val = ct_value c, tr_oper = oper, tr_or_cat = ucast (or_cat_code (ct_origin c)),
              tr_or_ident = ct_or_ident c, tr_ctl_num = ct_ctl_num c, tr_cause = cause\<rparr>) ctx)
           now (m, cs))"

section \<open>What tracking leaves alone\<close>

text \<open>The names of the attributes that tracking writes.\<close>

definition tracked_name :: "rust_string \<Rightarrow> bool" where
  "tracked_name n \<longleftrightarrow>
     n \<in> set (map ascii [''ctlVal'', ''ctlNum'', ''T'', ''Test'', ''Check'', ''respAddCause'', ''serviceType'',
        ''errorCode'', ''t'', ''objRef'']) \<or>
     eq_ignore_ascii_case n (ascii ''orCat'') \<or> eq_ignore_ascii_case n (ascii ''orIdent'')"

abbreviation untracked :: "rust_string list \<Rightarrow> bool" where
  "untracked qs \<equiv> qs \<noteq> [] \<and> \<not> tracked_name (last qs)"

definition attr_agrees :: "data_attribute \<Rightarrow> data_attribute \<Rightarrow> bool" where
  "attr_agrees da da' \<longleftrightarrow> da_name da' = da_name da \<and> da_fc da' = da_fc da \<and>
     (\<not> tracked_name (da_name da) \<longrightarrow> da_value da' = da_value da) \<and>
     (\<forall>ps. untracked ps \<longrightarrow> map_option da_value (da_path da' ps) = map_option da_value (da_path da ps))"

definition object_agrees :: "data_object \<Rightarrow> data_object \<Rightarrow> bool" where
  "object_agrees d d' \<longleftrightarrow> do_name d' = do_name d \<and>
     (\<forall>qs fc. untracked qs \<longrightarrow> object_value d' qs fc = object_value d qs fc)"

lemma agrees_refl [simp]: "attr_agrees da da" "object_agrees d d"
  by (simp_all add: attr_agrees_def object_agrees_def)

lemma attr_agrees_trans: "attr_agrees a b \<Longrightarrow> attr_agrees b c \<Longrightarrow> attr_agrees a c"
  by (simp add: attr_agrees_def)

lemma object_agrees_trans: "object_agrees a b \<Longrightarrow> object_agrees b c \<Longrightarrow> object_agrees a c"
  by (simp add: object_agrees_def)

lemma set_tracked_place: "same_place da (fst (set_tracked r v (da, cs)))"
  by (simp add: set_tracked_def same_place_def)

lemma set_tracked_agrees:
  assumes "tracked_name (da_name da)"
  shows "attr_agrees da (fst (set_tracked r v (da, cs)))"
proof -
  have s: "same_place da (fst (set_tracked r v (da, cs)))"
    by (rule set_tracked_place)
  then have "da_path (fst (set_tracked r v (da, cs))) ps = da_path da ps" if "ps \<noteq> []" for ps
    using that by (intro da_path_children) (simp_all add: same_place_def)
  with s assms show ?thesis
    by (simp add: attr_agrees_def same_place_def)
qed

lemma set_member_agrees:
  assumes "\<And>n. eq_ignore_ascii_case n (ascii name) \<Longrightarrow> tracked_name n"
  shows "attr_agrees da (fst (set_member r (name, v) (da, cs)))"
proof (cases "mut_field da_children da_with_children (\<lambda>a. eq_ignore_ascii_case (da_name a) (ascii name)) da")
  case None
  then show ?thesis by (simp add: set_member_def)
next
  case (Some p)
  then obtain c put where c: "mut_field da_children da_with_children
      (\<lambda>a. eq_ignore_ascii_case (da_name a) (ascii name)) da = Some (c, put)"
    by (cases p) simp
  then obtain put' where p: "find_mut (\<lambda>a. eq_ignore_ascii_case (da_name a) (ascii name)) (da_children da) = Some (c, put')"
      "put = (\<lambda>y. da_with_children (put' y) da)"
    by (auto simp: mut_field_Some)
  define c' where "c' = fst (set_tracked (ref_child r (ascii name)) v (c, cs))"
  have c': "same_place c c'" by (simp add: c'_def set_tracked_place)
  have tn: "tracked_name (da_name c)"
    using find_mut_holds [OF p(1)] assms by simp
  have "map_option da_value (da_path (put c') ps) = map_option da_value (da_path da ps)" if "untracked ps" for ps
  proof (cases ps)
    case (Cons q qs)
    have "da_child (put c') q = da_child da q \<or>
        da_child da q = Some c \<and> da_child (put c') q = Some c' \<and> q = da_name c"
      using find_mut_same [OF p(1), of "\<lambda>a. da_name a = q" c'] c' p(2)
      by (auto simp: da_child_def same_place_def find_Some_iff)
    moreover have "da_path c' qs = da_path c qs" if "q = da_name c"
      using tn \<open>untracked ps\<close> that Cons c' by (auto simp: same_place_def intro!: da_path_children)
    ultimately show ?thesis
      using Cons by (auto split: option.split)
  qed (use that in simp)
  then have "attr_agrees da (put c')"
    using p(2) by (simp add: attr_agrees_def)
  then show ?thesis
    by (simp add: set_member_def c c'_def)
qed

lemma put_attr_agrees:
  assumes "do_attribute_mut d p = Some (da, put)" "attr_agrees da da'"
  shows "object_agrees d (put da')"
proof -
  obtain put' where p: "find_mut (\<lambda>a. da_name a = p) (do_attributes d) = Some (da, put')"
      "put = (\<lambda>y. do_with_attributes (put' y) d)"
    using assms(1) by (auto simp: do_attribute_mut_def mut_field_Some)
  have "object_value (put da') qs fc = object_value d qs fc" if "untracked qs" for qs fc
  proof (cases qs)
    case (Cons q ps)
    have c: "do_child (put da') q = do_child d q"
      using p(2) by (simp add: do_child_def)
    have a: "do_attribute_fc (put da') q fc = do_attribute_fc d q fc \<or>
        do_attribute_fc d q fc = Some da \<and> do_attribute_fc (put da') q fc = Some da' \<and> q = da_name da"
      using find_mut_same [OF p(1), of "\<lambda>a. da_name a = q \<and> fc_matches fc (da_fc a)" da'] assms(2) p(2)
      by (auto simp: do_attribute_fc_def attr_agrees_def find_Some_iff)
    have "map_option da_value (da_path da' ps) = map_option da_value (da_path da ps)" if "q = da_name da"
      using assms(2) \<open>untracked qs\<close> that Cons by (cases ps) (auto simp: attr_agrees_def)
    then show ?thesis
      using a c Cons by (auto split: option.split)
  qed (use that in simp)
  then show ?thesis
    using p(2) by (simp add: object_agrees_def)
qed

lemma set_attr_agrees:
  assumes "tracked_name (ascii name)"
  shows "object_agrees d (fst (set_attr base name v (d, cs)))"
proof (cases "do_attribute_mut d (ascii name)")
  case (Some p)
  then obtain da put where a: "do_attribute_mut d (ascii name) = Some (da, put)"
    by (cases p) simp
  with assms have "tracked_name (da_name da)"
    by (simp add: object_attributes.get_mut_named)
  then have "object_agrees d (put (fst (set_tracked (ref_child base (ascii name)) v (da, cs))))"
    by (intro put_attr_agrees [OF a] set_tracked_agrees)
  with a show ?thesis by (simp add: set_attr_def)
qed (simp add: set_attr_def)

lemma set_members_agree:
  "\<forall>(name, v)\<in>set members. \<forall>n. eq_ignore_ascii_case n (ascii name) \<longrightarrow> tracked_name n \<Longrightarrow>
    attr_agrees da (fst (fold (set_member r) members (da, cs)))"
proof (induction members arbitrary: da cs)
  case (Cons mv members)
  obtain name v where mv: "mv = (name, v)" by (cases mv)
  have "attr_agrees da (fst (set_member r mv (da, cs)))"
    using Cons.prems set_member_agrees [of name] mv by auto
  then show ?case
    using Cons.IH [of "fst (set_member r mv (da, cs))" "snd (set_member r mv (da, cs))"] Cons.prems
    by (auto intro: attr_agrees_trans)
qed simp

lemma set_origin_agrees:
  assumes "\<forall>(name, v)\<in>set members. \<forall>n. eq_ignore_ascii_case n (ascii name) \<longrightarrow> tracked_name n"
  shows "object_agrees d (fst (set_origin base members (d, cs)))"
  using put_attr_agrees [OF _ set_members_agree [OF assms]]
  by (simp add: set_origin_def split: option.split)

text \<open>Steps that agree compose.\<close>

definition agreeing :: "(data_object tracked \<Rightarrow> data_object tracked) \<Rightarrow> bool" where
  "agreeing f \<longleftrightarrow> (\<forall>d cs. object_agrees d (fst (f (d, cs))))"

lemma agreeing_step: "agreeing f \<Longrightarrow> object_agrees d0 (fst s) \<Longrightarrow> object_agrees d0 (fst (f s))"
  by (cases s) (auto simp: agreeing_def intro: object_agrees_trans)

lemma agreeing_set_attr: "tracked_name (ascii name) \<Longrightarrow> agreeing (set_attr base name v)"
  by (simp add: agreeing_def set_attr_agrees)

lemma tracked_names [simp]:
  "tracked_name (ascii ''ctlVal'')" "tracked_name (ascii ''ctlNum'')" "tracked_name (ascii ''T'')"
  "tracked_name (ascii ''Test'')" "tracked_name (ascii ''Check'')" "tracked_name (ascii ''respAddCause'')"
  "tracked_name (ascii ''serviceType'')" "tracked_name (ascii ''errorCode'')" "tracked_name (ascii ''t'')"
  "tracked_name (ascii ''objRef'')"
  "eq_ignore_ascii_case n (ascii ''orCat'') \<Longrightarrow> tracked_name n"
  "eq_ignore_ascii_case n (ascii ''orIdent'') \<Longrightarrow> tracked_name n"
  by (simp_all add: tracked_name_def)

lemma agreeing_set_oper: "agreeing (set_oper base oper)"
  unfolding agreeing_def
proof (intro allI)
  fix d cs
  have "object_agrees d (fst (fold (\<lambda>(i, name) s. case value_index v i of Some x \<Rightarrow> set_attr base name x s | None \<Rightarrow> s)
              [(3, ''T''), (4, ''Test''), (5, ''Check'')] (d, cs)))" for v
    by (auto split: option.split intro!: agreeing_step [OF agreeing_set_attr])
  then show "object_agrees d (fst (set_oper base oper (d, cs)))"
    by (simp add: set_oper_def split: option.split)
qed

lemma agreeing_set_origin:
  "agreeing (set_origin base [(''orCat'', x), (''orIdent'', y)])"
  unfolding agreeing_def by (intro allI set_origin_agrees) simp

lemma agreeing_set_command: "agreeing (set_command base ctl)"
  unfolding agreeing_def
  by (auto simp: set_command_def Let_def split: option.split
      intro!: agreeing_step [OF agreeing_set_attr] agreeing_step [OF agreeing_set_oper]
        agreeing_step [OF agreeing_set_origin])

text \<open>Tracking keeps the value of every attribute that is not named like a tracked one.\<close>

lemma track_command_frame:
  assumes "untracked (ref_path r)"
  shows "attribute_value (fst (track_command tk ld kind obj svc err ctl now (m, cs))) r fc = attribute_value m r fc"
proof -
  have "attribute_value (put d') r fc = attribute_value m r fc"
    if om: "object_mut m t = Some (d, put)" and d': "object_agrees d d'" for t d put d'
  proof -
    obtain ldv put1 ln put2 put3 where l: "device_mut m (to_ld t) = Some (ldv, put1)"
        "ld_node_mut ldv (to_ln t) = Some (ln, put2)" "ln_object_mut ln (to_object t) = Some (d, put3)"
        "put = (\<lambda>y. put1 (put2 (put3 y)))"
      using om by (auto simp: object_mut_def mut_then_Some)
    have "object_value d' (p # ps) fc = object_value d (p # ps) fc" if "ref_path r = n # k # p # ps" for n k p ps
      using d' assms that by (simp add: object_agrees_def del: object_attr_simps)
    then show ?thesis
      using d' object_view_put [OF l(1-3), of d' "ref_ld r"]
      by (auto simp: attribute_value_view l(4) object_agrees_def simp del: object_attr_simps split: list.split)
  qed
  moreover have "object_agrees d (fst (set_attr base ''objRef'' a (set_attr base ''t'' b
      (set_attr base ''errorCode'' c (set_attr base ''serviceType'' e (set_command base ctl (d, cs)))))))" for base a b c d e
    by (intro agreeing_step [OF agreeing_set_attr] agreeing_step [OF agreeing_set_command]) simp_all
  ultimately show ?thesis
    by (simp add: track_command_def Let_def split: option.split)
qed

lemma track_control_frame:
  "untracked (ref_path r) \<Longrightarrow>
    attribute_value (fst (track_control tk obj svc err ctx oper cause now s)) r fc = attribute_value (fst s) r fc"
  by (cases s) (simp add: track_control_def track_command_frame split: option.split)

end
