(* ===== verification/Server_Conn.thy ===== *)
theory Server_Conn
  imports Mms_Codec Model_Tree
begin

text \<open>
  The sending side of an association on the server (\<open>src/mms/server_conn.rs\<close>): unconfirmed PDUs
  are held while a confirmed request is handled, those that explain the response go out ahead
  of it and all others behind it, through a bounded queue that a writer task drains. The socket
  is the list of PDUs written to it; a failing socket ends the association and is not modelled.
\<close>

definition UNCONFIRMED_QUEUE_DEPTH :: nat where "UNCONFIRMED_QUEUE_DEPTH = 512"

definition TAG_CONFIRMED_RESPONSE :: tag where "TAG_CONFIRMED_RESPONSE = context_constructed 1"
definition TAG_CONFIRMED_ERROR :: tag where "TAG_CONFIRMED_ERROR = context_constructed 2"
definition TAG_UNCONFIRMED :: tag where "TAG_UNCONFIRMED = context_constructed 3"
definition TAG_REJECT_PDU :: tag where "TAG_REJECT_PDU = context_constructed 4"

record held =
  in_request :: bool
  before :: "bytes list"
  after :: "bytes list"

record server_conn =
  sc_peer :: "(ip_addr \<times> u16) option"
  sc_max_pdu :: nat
  sc_held :: held
  sc_queue :: "bytes list"

definition hold :: "bytes \<Rightarrow> bool \<Rightarrow> server_conn \<Rightarrow> bytes option \<times> server_conn" where
  "hold pdu first sc =
     (let h = sc_held sc in
      if \<not> in_request h then (Some pdu, sc)
      else if first then (None, sc\<lparr>sc_held := h\<lparr>before := before h @ [pdu]\<rparr>\<rparr>)
      else (None, sc\<lparr>sc_held := h\<lparr>after := after h @ [pdu]\<rparr>\<rparr>))"

text \<open>\<open>try_send\<close> of the bounded channel.\<close>

definition try_send :: "bytes \<Rightarrow> server_conn \<Rightarrow> bool \<times> server_conn" where
  "try_send pdu sc =
     (if length (sc_queue sc) < UNCONFIRMED_QUEUE_DEPTH then (True, sc\<lparr>sc_queue := sc_queue sc @ [pdu]\<rparr>)
      else (False, sc))"

definition unconfirmed_pdu :: "element \<Rightarrow> bytes" where
  "unconfirmed_pdu service = encode_elem (cons TAG_UNCONFIRMED [service])"

definition send_held :: "bool \<Rightarrow> element \<Rightarrow> server_conn \<Rightarrow> (mms_error + unit) \<times> server_conn" where
  "send_held first service sc =
     (case hold (unconfirmed_pdu service) first sc of
        (None, sc') \<Rightarrow> (Inr (), sc')
      | (Some pdu, sc') \<Rightarrow>
          (case try_send pdu sc' of (ok, sc'') \<Rightarrow> (if ok then Inr () else Inl ReportQueueFull, sc'')))"

definition send_unconfirmed :: "element \<Rightarrow> server_conn \<Rightarrow> (mms_error + unit) \<times> server_conn" where
  "send_unconfirmed service sc = send_held False service sc"

definition send_unconfirmed_first :: "element \<Rightarrow> server_conn \<Rightarrow> (mms_error + unit) \<times> server_conn" where
  "send_unconfirmed_first service sc = send_held True service sc"

text \<open>One turn of the writer task.\<close>

definition pump_unconfirmed :: "server_conn \<Rightarrow> (bytes \<times> server_conn) option" where
  "pump_unconfirmed sc =
     (case sc_queue sc of [] \<Rightarrow> None | pdu # q \<Rightarrow> Some (pdu, sc\<lparr>sc_queue := q\<rparr>))"

section \<open>Responses\<close>

definition error_class_choice :: "mms_error \<Rightarrow> u32 \<times> i64" where
  "error_class_choice err =
     (case err of
        MmsAccess dae \<Rightarrow>
          (case dae of
             ObjectAccessUnsupported \<Rightarrow> (7, 1)
           | ObjectNonExistent \<Rightarrow> (7, 2)
           | ObjectAccessDenied \<Rightarrow> (7, 3)
           | _ \<Rightarrow> (7, 2))
      | MmsService se \<Rightarrow> if se_class se \<noteq> 0 then (ucast (se_class se), ucast (se_code se)) else (4, 0)
      | _ \<Rightarrow> (4, 0))"

definition confirmed_error :: "u32 \<Rightarrow> mms_error \<Rightarrow> bytes" where
  "confirmed_error invoke_id err =
     (case error_class_choice err of
        (class_tag, value) \<Rightarrow>
          encode_elem
            (cons TAG_CONFIRMED_ERROR
              [prim (context_primitive 0) (append_uint (ucast invoke_id)),
               cons (context_constructed 2)
                 [cons (context_constructed 0) [int_elem (context_primitive class_tag) value]]]))"

definition encode_error_pdu :: "u32 \<Rightarrow> mms_error \<Rightarrow> bytes" where
  "encode_error_pdu invoke_id err =
     (case err of
        MmsService se \<Rightarrow>
          if se_rejected se then
            encode_elem
              (cons TAG_REJECT_PDU
                [uint_elem (context_primitive 0) (ucast invoke_id),
                 int_elem (context_primitive (ucast (se_class se))) (ucast (se_code se))])
          else confirmed_error invoke_id err
      | _ \<Rightarrow> confirmed_error invoke_id err)"

definition resource_error :: mms_error where
  "resource_error = MmsService (service_error_new 3 0)"

definition response_pdu :: "server_conn \<Rightarrow> u32 \<Rightarrow> element \<Rightarrow> bytes" where
  "response_pdu sc invoke_id resp =
     (let out = encode_elem (cons TAG_CONFIRMED_RESPONSE [uint_elem TAG_INTEGER (ucast invoke_id), resp])
      in if sc_max_pdu sc > 0 \<and> length out > sc_max_pdu sc then encode_error_pdu invoke_id resource_error else out)"

definition answer_pdu :: "server_conn \<Rightarrow> u32 \<Rightarrow> mms_error + element \<Rightarrow> bytes" where
  "answer_pdu sc invoke_id result =
     (case result of Inr resp \<Rightarrow> response_pdu sc invoke_id resp | Inl e \<Rightarrow> encode_error_pdu invoke_id e)"

section \<open>One confirmed request\<close>

definition begin_request :: "server_conn \<Rightarrow> server_conn" where
  "begin_request sc = sc\<lparr>sc_held := (sc_held sc)\<lparr>in_request := True\<rparr>\<rparr>"

text \<open>The PDUs that are written to the socket, and the association afterwards.\<close>

definition finish_request :: "u32 \<Rightarrow> mms_error + element \<Rightarrow> server_conn \<Rightarrow> bytes list \<times> server_conn" where
  "finish_request invoke_id result sc =
     (let h = sc_held sc;
          sc' = sc\<lparr>sc_held := \<lparr>in_request = False, before = [], after = []\<rparr>\<rparr>
      in (before h @ [answer_pdu sc invoke_id result], fold (\<lambda>pdu c. snd (try_send pdu c)) (after h) sc'))"

section \<open>Order\<close>

lemma send_held_in_request:
  assumes "in_request (sc_held sc)"
  shows "send_held first service sc =
    (Inr (), sc\<lparr>sc_held := (sc_held sc)\<lparr>before := before (sc_held sc) @ (if first then [unconfirmed_pdu service] else []),
        after := after (sc_held sc) @ (if first then [] else [unconfirmed_pdu service])\<rparr>\<rparr>)"
  using assms by (simp add: send_held_def hold_def Let_def)

lemma try_send_all:
  "snd (try_send pdu sc) = sc\<lparr>sc_queue := take UNCONFIRMED_QUEUE_DEPTH (sc_queue sc @ [pdu])\<rparr>"
  if "length (sc_queue sc) \<le> UNCONFIRMED_QUEUE_DEPTH"
  using that by (cases "length (sc_queue sc) = UNCONFIRMED_QUEUE_DEPTH") (auto simp: try_send_def)

lemma finish_request_queue:
  "length (sc_queue sc) \<le> UNCONFIRMED_QUEUE_DEPTH \<Longrightarrow>
    fold (\<lambda>pdu c. snd (try_send pdu c)) pdus sc =
      sc\<lparr>sc_queue := take UNCONFIRMED_QUEUE_DEPTH (sc_queue sc @ pdus)\<rparr>"
proof (induction pdus arbitrary: sc)
  case (Cons p ps)
  have "take UNCONFIRMED_QUEUE_DEPTH (take UNCONFIRMED_QUEUE_DEPTH (sc_queue sc @ [p]) @ ps) =
      take UNCONFIRMED_QUEUE_DEPTH (sc_queue sc @ p # ps)"
    using Cons.prems by (auto simp: min_def take_Cons')
  then show ?case
    using Cons.IH [of "snd (try_send p sc)"] Cons.prems by (simp add: try_send_all)
qed simp

end
