(* ===== verification/Server_Access.thy ===== *)
theory Server_Access
  imports Model_Access Mms_TypeSpec
begin

text \<open>
  The mapping between MMS item names and the data model: \<open>src/server/access.rs\<close>. The name list
  of a device, the value a read composes, the attribute a write lands on and the type that is
  reported for an item. The lemmas show that the value of an item fits its reported type
  where every leaf has a value, and that a write is read back.
\<close>

section \<open>Names\<close>

definition has_fc :: "data_object \<Rightarrow> fc \<Rightarrow> bool" where
  "has_fc d fc \<longleftrightarrow> fc \<in> set (do_fcs d)"

definition node_fcs :: "logical_node \<Rightarrow> fc list" where
  "node_fcs ln =
     sort (fold (\<lambda>d order. fold (\<lambda>fc order. if fc \<in> set order then order else order @ [fc]) (do_fcs d) order)
             (ln_objects ln) [])"

definition fc_name_for :: "logical_node \<Rightarrow> fc \<Rightarrow> rust_string" where
  "fc_name_for ln fc =
     (case find (\<lambda>d. has_fc d fc) (ln_objects ln) of None \<Rightarrow> fc_as_str fc | Some d \<Rightarrow> do_fc_text d fc)"

fun append_attr_names :: "rust_string \<Rightarrow> data_attribute \<Rightarrow> fc \<Rightarrow> rust_string list" where
  "append_attr_names prefix (DataAttribute n f fn k b e c cs v t) fc =
     (if f \<noteq> fc then []
      else let p = prefix @ [dollar] @ n in p # concat (map (\<lambda>x. append_attr_names p x fc) cs))"

fun append_sub_do_names :: "rust_string \<Rightarrow> data_object \<Rightarrow> fc \<Rightarrow> rust_string list" where
  "append_sub_do_names prefix (DataObject n c os as) fc =
     (if \<not> has_fc (DataObject n c os as) fc then []
      else let p = prefix @ [dollar] @ n
           in p # concat (map (\<lambda>a. append_attr_names p a fc) as) @ concat (map (\<lambda>s. append_sub_do_names p s fc) os))"

definition fc_names :: "logical_node \<Rightarrow> fc \<Rightarrow> rust_string list" where
  "fc_names ln fc =
     (let prefix = ln_name ln @ [dollar] @ fc_name_for ln fc
      in prefix # concat (map (\<lambda>d.
           if \<not> has_fc d fc then []
           else let p = prefix @ [dollar] @ do_name d
                in p # concat (map (\<lambda>a. append_attr_names p a fc) (do_attributes d)) @
                   concat (map (\<lambda>s. append_sub_do_names p s fc) (do_objects d))) (ln_objects ln)))"

definition names_for_domain :: "logical_device \<Rightarrow> rust_string list" where
  "names_for_domain ld =
     concat (map (\<lambda>ln. ln_name ln # concat (map (fc_names ln) (node_fcs ln))) (ld_nodes ld))"

section \<open>Reading\<close>

definition split_item :: "rust_string \<Rightarrow> (rust_string \<times> fc \<times> rust_string list) option" where
  "split_item item =
     (case split_on dollar item of
        ln # fc # path \<Rightarrow> Some (ln, parse_fc_lenient fc, path)
      | _ \<Rightarrow> None)"

text \<open>\<open>collect\<close> of optional members that stops at the first one that is missing.\<close>

fun all_some :: "'a option list \<Rightarrow> 'a list option" where
  "all_some [] = Some []"
| "all_some (None # xs) = None"
| "all_some (Some x # xs) = map_option ((#) x) (all_some xs)"

fun da_value_opt :: "data_attribute \<Rightarrow> mms_value option" where
  "da_value_opt (DataAttribute n f fn k b e c cs v t) =
     (if cs = [] then
        (case v of
           Some x \<Rightarrow> Some x
         | None \<Rightarrow> if k = None \<or> k = Some TyNone then None else Some (BooleanV False))
      else case all_some (map da_value_opt cs) of
        None \<Rightarrow> None
      | Some members \<Rightarrow>
          Some (if k = Some TyArray then ArrayV (replicate c (StructureV members)) else StructureV members))"

definition da_read_value :: "data_attribute \<Rightarrow> mms_value" where
  "da_read_value da = (case da_value_opt da of Some v \<Rightarrow> v | None \<Rightarrow> BooleanV False)"

fun do_value :: "data_object \<Rightarrow> fc \<Rightarrow> mms_value option" where
  "do_value (DataObject n c os as) fc =
     (case all_some (map da_value_opt (filter (\<lambda>a. da_fc a = fc) as)) of
        None \<Rightarrow> None
      | Some members \<Rightarrow>
          let members' = members @ filter (\<lambda>v. value_len v \<noteq> 0) (List.map_filter (\<lambda>s. do_value s fc) os)
          in if members' = [] then None else Some (StructureV members'))"

fun descend_objects :: "data_object \<Rightarrow> rust_string list \<Rightarrow> data_object \<times> rust_string list" where
  "descend_objects d [] = (d, [])"
| "descend_objects d (p # ps) =
     (case do_child d p of Some s \<Rightarrow> descend_objects s ps | None \<Rightarrow> (d, p # ps))"

definition descend_attributes :: "data_object \<Rightarrow> fc \<Rightarrow> rust_string list \<Rightarrow> data_attribute option" where
  "descend_attributes d fc path =
     (case path of
        [] \<Rightarrow> None
      | p # ps \<Rightarrow>
          Option.bind (find (\<lambda>a. da_name a = p \<and> da_fc a = fc) (do_attributes d)) (\<lambda>da. da_path da ps))"

definition resolve_read_err :: "logical_node \<Rightarrow> rust_string \<Rightarrow> data_access_error + mms_value" where
  "resolve_read_err ln item =
     (case split_item item of
        None \<Rightarrow> Inl ObjectNonExistent
      | Some (_, fc, path) \<Rightarrow>
          (case path of
             [] \<Rightarrow> Inr (StructureV (List.map_filter (\<lambda>d. do_value d fc) (ln_objects ln)))
           | p # ps \<Rightarrow>
               (case ln_object ln p of
                  None \<Rightarrow> Inl ObjectNonExistent
                | Some d0 \<Rightarrow>
                    (case descend_objects d0 ps of
                       (d, []) \<Rightarrow> (case do_value d fc of None \<Rightarrow> Inl ObjectNonExistent | Some v \<Rightarrow> Inr v)
                     | (d, q # qs) \<Rightarrow>
                         (case descend_attributes d fc (q # qs) of
                            None \<Rightarrow> Inl ObjectNonExistent
                          | Some da \<Rightarrow> (case da_value_opt da of None \<Rightarrow> Inl TypeInconsistent | Some v \<Rightarrow> Inr v))))))"

definition resolve_read :: "logical_node \<Rightarrow> rust_string \<Rightarrow> mms_value option" where
  "resolve_read ln item = (case resolve_read_err ln item of Inl _ \<Rightarrow> None | Inr v \<Rightarrow> Some v)"

section \<open>Writing\<close>

text \<open>Sub-objects are entered as long as a further component is left to name an attribute.\<close>

fun descend_write :: "data_object \<Rightarrow> rust_string list \<Rightarrow>
    ((data_object \<times> (data_object \<Rightarrow> data_object)) \<times> rust_string list) option" where
  "descend_write d (p # q # ps) =
     (if do_child d p = None then Some ((d, \<lambda>x. x), p # q # ps)
      else case do_child_mut d p of
        None \<Rightarrow> None
      | Some (s, put) \<Rightarrow>
          map_option (\<lambda>((x, put'), path). ((x, \<lambda>y. put (put' y)), path)) (descend_write s (q # ps)))"
| "descend_write d path = Some ((d, \<lambda>x. x), path)"

definition object_write ::
    "data_object \<Rightarrow> rust_string list \<Rightarrow> fc \<Rightarrow> (data_attribute \<times> (data_attribute \<Rightarrow> data_object)) option" where
  "object_write d path fc =
     (case descend_write d path of
        None \<Rightarrow> None
      | Some (m, []) \<Rightarrow> None
      | Some (m, q # qs) \<Rightarrow>
          (case mut_then
                  (mut_then (Some m) (mut_field do_attributes do_with_attributes (\<lambda>a. da_name a = q \<and> da_fc a = fc)))
                  (\<lambda>da. da_path_mut da qs) of
             None \<Rightarrow> None
           | Some (da, put) \<Rightarrow> if da_children da \<noteq> [] then None else Some (da, put)))"

definition resolve_write ::
    "logical_node \<Rightarrow> rust_string \<Rightarrow> (data_attribute \<times> (data_attribute \<Rightarrow> logical_node)) option" where
  "resolve_write ln item =
     (case split_on dollar item of
        _ # fc # d # p # ps \<Rightarrow> mut_then (ln_object_mut ln d) (\<lambda>dob. object_write dob (p # ps) (parse_fc_lenient fc))
      | _ \<Rightarrow> None)"

section \<open>Types\<close>

fun value_type_spec :: "mms_value option \<Rightarrow> type_spec" where
  "value_type_spec None = ts_scalar TyBoolean"
| "value_type_spec (Some (BitStringV bs)) = ts_sized TyBitString (- of_nat (bs_length bs))"
| "value_type_spec (Some (IntegerV _)) = ts_sized TyInteger 32"
| "value_type_spec (Some (UnsignedV _)) = ts_sized TyUnsigned 32"
| "value_type_spec (Some (VisibleStringV _)) = ts_sized TyVisibleString 129"
| "value_type_spec (Some (OctetStringV _)) = ts_sized TyOctetString 64"
| "value_type_spec (Some (ArrayV [])) = ts_array 0 (value_type_spec None)"
| "value_type_spec (Some (ArrayV (v # vs))) = ts_array (length (v # vs)) (value_type_spec (Some v))"
| "value_type_spec (Some v) = ts_scalar (type_of_value v)"

definition BTYPES :: "(rust_string \<times> value_type \<times> 32 word) list" where
  "BTYPES =
    [(ascii ''INT8'', TyInteger, 8), (ascii ''Enum'', TyInteger, 8), (ascii ''INT16'', TyInteger, 16),
     (ascii ''INT32'', TyInteger, 32), (ascii ''INT64'', TyInteger, 64), (ascii ''INT8U'', TyUnsigned, 8),
     (ascii ''INT16U'', TyUnsigned, 16), (ascii ''INT24U'', TyUnsigned, 24), (ascii ''INT32U'', TyUnsigned, 32),
     (ascii ''VisString32'', TyVisibleString, 32), (ascii ''VisString64'', TyVisibleString, 64),
     (ascii ''VisString65'', TyVisibleString, 65), (ascii ''VisString129'', TyVisibleString, 129),
     (ascii ''ObjRef'', TyVisibleString, 129), (ascii ''VisString255'', TyVisibleString, 255),
     (ascii ''Unicode255'', TyMmsString, 255)]"

definition btype_type_spec :: "rust_string \<Rightarrow> type_spec option" where
  "btype_type_spec btype = map_option (\<lambda>(kind, sz). ts_sized kind sz) (map_of BTYPES btype)"

fun da_type_spec :: "data_attribute \<Rightarrow> type_spec" where
  "da_type_spec (DataAttribute n f fn k b e c cs v t) =
     (if cs \<noteq> [] then
        let ts = ts_structure (map (\<lambda>x. Component (da_name x) (da_type_spec x)) cs)
        in if k = Some TyArray then ts_array c ts else ts
      else case btype_type_spec b of
        Some spec \<Rightarrow> if k = Some TyArray then ts_array c spec else spec
      | None \<Rightarrow> value_type_spec v)"

fun do_type_spec :: "data_object \<Rightarrow> fc \<Rightarrow> type_spec" where
  "do_type_spec (DataObject n c os as) fc =
     ts_structure
       (map (\<lambda>a. Component (da_name a) (da_type_spec a)) (filter (\<lambda>a. da_fc a = fc) as) @
        List.map_filter (\<lambda>s. if has_fc s fc then Some (Component (do_name s) (do_type_spec s fc)) else None) os)"

definition fc_type_spec :: "logical_node \<Rightarrow> fc \<Rightarrow> type_spec" where
  "fc_type_spec ln fc =
     ts_structure (map (\<lambda>d. Component (do_name d) (do_type_spec d fc)) (filter (\<lambda>d. has_fc d fc) (ln_objects ln)))"

definition ln_type_spec :: "logical_node \<Rightarrow> type_spec" where
  "ln_type_spec ln = ts_structure (map (\<lambda>fc. Component (fc_name_for ln fc) (fc_type_spec ln fc)) (node_fcs ln))"

definition type_spec_for :: "logical_node \<Rightarrow> rust_string \<Rightarrow> type_spec option" where
  "type_spec_for ln item =
     (case split_on dollar item of
        [] \<Rightarrow> None
      | [_] \<Rightarrow> Some (ln_type_spec ln)
      | [_, fc] \<Rightarrow> Some (fc_type_spec ln (parse_fc_lenient fc))
      | _ # fc_part # d # path \<Rightarrow>
          let fc = parse_fc_lenient fc_part in
          Option.bind (ln_object ln d) (\<lambda>d0.
            case descend_objects d0 path of
              (dob, []) \<Rightarrow> Some (do_type_spec dob fc)
            | (dob, q # qs) \<Rightarrow> map_option da_type_spec (descend_attributes dob fc (q # qs))))"

section \<open>A write is read back\<close>

text \<open>No object has a sub-object and an attribute of the same name.\<close>

fun names_apart :: "data_object \<Rightarrow> bool" where
  "names_apart (DataObject n c os as) \<longleftrightarrow>
     list_all (\<lambda>s. list_all (\<lambda>a. da_name a \<noteq> do_name s) as) os \<and> list_all names_apart os"

definition object_read :: "data_object \<Rightarrow> rust_string list \<Rightarrow> fc \<Rightarrow> data_attribute option" where
  "object_read d path fc = (case descend_objects d path of (d', ps) \<Rightarrow> descend_attributes d' fc ps)"

lemma object_read_Cons:
  "object_read d (p # ps) fc =
     (case do_child d p of
        Some s \<Rightarrow> object_read s ps fc
      | None \<Rightarrow> Option.bind (find (\<lambda>a. da_name a = p \<and> da_fc a = fc) (do_attributes d)) (\<lambda>da. da_path da ps))"
  by (simp add: object_read_def descend_attributes_def split: option.split)

definition leaf_only :: "(data_attribute \<times> 'p) option \<Rightarrow> (data_attribute \<times> 'p) option" where
  "leaf_only m = (case m of None \<Rightarrow> None | Some (da, put) \<Rightarrow> if da_children da \<noteq> [] then None else Some (da, put))"

lemma leaf_only_Some: "leaf_only m = Some (da, put) \<longleftrightarrow> m = Some (da, put) \<and> da_children da = []"
  by (auto simp: leaf_only_def split: option.splits)

lemma mut_then_unit: "mut_then (Some (d, \<lambda>x. x)) f = f d"
  by (simp add: mut_then_def option.map_id case_prod_eta)

lemma object_write_last:
  "ps = [] \<or> do_child d p = None \<Longrightarrow> object_write d (p # ps) fc =
     leaf_only (mut_then (mut_field do_attributes do_with_attributes (\<lambda>a. da_name a = p \<and> da_fc a = fc) d) (\<lambda>da. da_path_mut da ps))"
  by (cases ps) (simp_all add: object_write_def leaf_only_def mut_then_unit)

lemma object_write_sub:
  "do_child d p \<noteq> None \<Longrightarrow> object_write d (p # q # ps) fc = mut_then (do_child_mut d p) (\<lambda>s. object_write s (q # ps) fc)"
  by (auto simp: object_write_def mut_then_def option.map_comp o_def case_prod_beta
      split: option.splits list.splits prod.splits)

lemma names_apart_child: "names_apart d \<Longrightarrow> do_child d p = Some s \<Longrightarrow> names_apart s"
  by (cases d) (auto simp: do_child_def list_all_iff find_Some_iff)

lemma names_apart_attribute:
  "names_apart d \<Longrightarrow> a \<in> set (do_attributes d) \<Longrightarrow> do_child d (da_name a) = None"
  by (cases d) (fastforce simp: do_child_def list_all_iff find_None_iff)

lemma object_write_name: "object_write d path fc = Some (x, put) \<Longrightarrow> do_name (put y) = do_name d"
proof (cases path)
  case (Cons p ps)
  assume w: "object_write d path fc = Some (x, put)"
  show ?thesis
  proof (cases "ps = [] \<or> do_child d p = None")
    case True
    with w Cons show ?thesis by (auto simp: object_write_last leaf_only_Some mut_then_Some mut_field_Some)
  next
    case False
    then obtain q qs where "ps = q # qs" by (cases ps) auto
    with w Cons False show ?thesis
      by (auto simp: object_write_sub mut_then_Some dest: do_child_mut_header)
  qed
qed (simp add: object_write_def)

lemma object_read_put:
  "names_apart d \<Longrightarrow> object_write d path fc = Some (x, put) \<Longrightarrow> same_place x y \<Longrightarrow>
     object_read (put y) path fc = Some y \<and> da_children x = []"
proof (induction path arbitrary: d put)
  case Nil
  then show ?case by (simp add: object_write_def)
next
  case (Cons p ps)
  show ?case
  proof (cases "ps = [] \<or> do_child d p = None")
    case True
    let ?P = "\<lambda>a. da_name a = p \<and> da_fc a = fc"
    from True Cons.prems(2) obtain da put1 put2 where s: "find_mut ?P (do_attributes d) = Some (da, put1)"
      "da_path_mut da ps = Some (x, put2)" "put = (\<lambda>z. do_with_attributes (put1 (put2 z)) d)" "da_children x = []"
      by (auto simp: object_write_last leaf_only_Some mut_then_Some mut_field_Some)
    have da: "da \<in> set (do_attributes d)" "?P da"
      using find_mut_Some [OF s(1)] find_mut_holds [OF s(1)] by (auto simp: find_Some_iff)
    then have "do_child d p = None" using names_apart_attribute [OF Cons.prems(1)] by auto
    then have n: "do_child (put y) p = None" by (simp add: s(3) do_child_def)
    have "?P (put2 y)" using da_path_mut_header [OF s(2) Cons.prems(3)] da(2) by simp
    then have "find ?P (do_attributes (put y)) = Some (put2 y)"
      using find_mut_put [OF s(1)] by (simp add: s(3))
    then show ?thesis
      using n da_path_put [OF s(2) Cons.prems(3)] s(4) by (simp add: object_read_Cons)
  next
    case False
    then obtain q qs where ps: "ps = q # qs" by (cases ps) auto
    with False Cons.prems(2) obtain c put1 put2 where s: "do_child_mut d p = Some (c, put1)"
      "object_write c ps fc = Some (x, put2)" "put = (\<lambda>z. put1 (put2 z))"
      by (auto simp: object_write_sub mut_then_Some)
    have "names_apart c" using names_apart_child [OF Cons.prems(1) sub_objects.get_mut_get [OF s(1)]] .
    from Cons.IH [OF this s(2) Cons.prems(3)] show ?thesis
      using sub_objects.put_get [OF s(1), of "put2 y"] object_write_name [OF s(2), of y] sub_objects.get_mut_named [OF s(1)]
      by (simp add: s(3) object_read_Cons)
  qed
qed

lemma resolve_write_read:
  assumes "list_all names_apart (ln_objects ln)" "resolve_write ln item = Some (da, put)"
  shows "resolve_read_err (put (da_with_value (Some v) da)) item = Inr v"
proof -
  let ?y = "da_with_value (Some v) da"
  from assms(2) obtain l f d p ps where i: "split_on dollar item = l # f # d # p # ps"
    by (auto simp: resolve_write_def split: list.splits)
  with assms(2) obtain dob put1 put2 where s: "ln_object_mut ln d = Some (dob, put1)"
    "object_write dob (p # ps) (parse_fc_lenient f) = Some (da, put2)" "put = (\<lambda>z. put1 (put2 z))"
    by (auto simp: resolve_write_def mut_then_Some)
  have "names_apart dob"
    using assms(1) node_objects.get_mut_get [OF s(1)] by (auto simp: ln_object_def list_all_iff find_Some_iff)
  from object_read_put [OF this s(2), of ?y]
  have r: "object_read (put2 ?y) (p # ps) (parse_fc_lenient f) = Some ?y" "da_children da = []" by simp_all
  have o: "ln_object (put ?y) d = Some (put2 ?y)"
    using node_objects.put_get [OF s(1)] object_write_name [OF s(2)] node_objects.get_mut_named [OF s(1)] s(3) by simp
  have v: "da_value_opt ?y = Some v"
    using r(2) by (cases da) simp
  obtain d' rs where rs: "descend_objects (put2 ?y) (p # ps) = (d', rs)" by fastforce
  with r(1) have "descend_attributes d' (parse_fc_lenient f) rs = Some ?y" by (simp add: object_read_def)
  moreover from this have "rs \<noteq> []" by (auto simp: descend_attributes_def)
  ultimately show ?thesis
    using o v rs i by (auto simp: resolve_read_err_def split_item_def split: list.split)
qed

section \<open>Values fit their types\<close>

text \<open>A value fits a reported type: the same members, the same element count, the same kind.\<close>

fun conforms :: "type_spec \<Rightarrow> mms_value \<Rightarrow> bool" where
  "conforms (TypeSpec kind sz n e cs) v =
     (case kind of
        Some TyStructure \<Rightarrow>
          (case v of StructureV vs \<Rightarrow> list_all2 (\<lambda>c w. conforms (cp_spec c) w) cs vs | _ \<Rightarrow> False)
      | Some TyArray \<Rightarrow>
          (case v of
             ArrayV vs \<Rightarrow> length vs = n \<and> (case e of None \<Rightarrow> False | Some x \<Rightarrow> list_all (conforms x) vs)
           | _ \<Rightarrow> False)
      | Some k \<Rightarrow> type_of_value v = k
      | None \<Rightarrow> False)"

lemma conforms_structure:
  "conforms (ts_structure cs) v \<longleftrightarrow> (\<exists>vs. v = StructureV vs \<and> list_all2 (\<lambda>c w. conforms (cp_spec c) w) cs vs)"
  by (cases v) (simp_all add: ts_structure_def)

lemma conforms_array: "conforms (ts_array n e) v \<longleftrightarrow> (\<exists>vs. v = ArrayV vs \<and> length vs = n \<and> list_all (conforms e) vs)"
  by (cases v) (simp_all add: ts_array_def)

text \<open>
  Every leaf holds a value of the kind its basic type declares, or its kind is known and its
  basic type says nothing.
\<close>

definition leaf_typed :: "data_attribute \<Rightarrow> bool" where
  "leaf_typed da =
     (case da_value da of
        None \<Rightarrow> da_kind da \<noteq> None \<and> da_kind da \<noteq> Some TyNone \<and> btype_type_spec (da_btype da) = None
      | Some v \<Rightarrow>
          (case btype_type_spec (da_btype da) of
             Some spec \<Rightarrow> conforms (if da_kind da = Some TyArray then ts_array (da_count da) spec else spec) v
           | None \<Rightarrow> conforms (value_type_spec (Some v)) v))"

fun da_typed :: "data_attribute \<Rightarrow> bool" where
  "da_typed (DataAttribute n f fn k b e c cs v t) =
     (if cs = [] then leaf_typed (DataAttribute n f fn k b e c cs v t) else list_all da_typed cs)"

fun do_typed :: "data_object \<Rightarrow> bool" where
  "do_typed (DataObject n c os as) \<longleftrightarrow> list_all da_typed as \<and> list_all do_typed os"

lemma all_some_map:
  "\<forall>x\<in>set xs. \<exists>y. f x = Some y \<and> P x y \<Longrightarrow> \<exists>ys. all_some (map f xs) = Some ys \<and> list_all2 P xs ys"
proof (induction xs)
  case (Cons x xs)
  then obtain ys where "all_some (map f xs) = Some ys" "list_all2 P xs ys" by auto
  moreover obtain y where "f x = Some y" "P x y" using Cons.prems by auto
  ultimately show ?case by (intro exI [of _ "y # ys"]) simp
qed simp

lemma list_all2_components:
  "list_all2 (\<lambda>c w. conforms (cp_spec c) w) (map (\<lambda>x. Component (nm x) (ts x)) xs) ys = list_all2 (\<lambda>x w. conforms (ts x) w) xs ys"
  by (simp add: list_all2_map1)

lemma leaf_conforms:
  assumes "leaf_typed (DataAttribute n f fn k b e c [] v t)"
  shows "\<exists>w. da_value_opt (DataAttribute n f fn k b e c [] v t) = Some w \<and>
    conforms (da_type_spec (DataAttribute n f fn k b e c [] v t)) w"
proof (cases v)
  case None
  then show ?thesis using assms by (simp add: leaf_typed_def ts_scalar_def)
next
  case (Some w)
  then show ?thesis using assms by (cases "btype_type_spec b") (simp_all add: leaf_typed_def split: if_splits)
qed

lemma da_conforms: "da_typed da \<Longrightarrow> \<exists>v. da_value_opt da = Some v \<and> conforms (da_type_spec da) v"
proof (induction da rule: da_typed.induct)
  case (1 n f fn k b e c cs v t)
  show ?case
  proof (cases "cs = []")
    case True
    then show ?thesis using "1.prems" leaf_conforms by simp
  next
    case False
    then have "list_all da_typed cs" using "1.prems" by simp
    then have "\<forall>x\<in>set cs. \<exists>w. da_value_opt x = Some w \<and> conforms (da_type_spec x) w"
      using "1.IH" [OF False] by (simp add: list_all_iff)
    from all_some_map [OF this] obtain ws where
      ws: "all_some (map da_value_opt cs) = Some ws" "list_all2 (\<lambda>x w. conforms (da_type_spec x) w) cs ws" by auto
    have "conforms (ts_structure (map (\<lambda>x. Component (da_name x) (da_type_spec x)) cs)) (StructureV ws)"
      using ws(2) by (simp only: conforms_structure list_all2_components) blast
    then show ?thesis
      using False ws(1) by (simp add: Let_def conforms_array list_all_iff)
  qed
qed

section \<open>Constraints of an object\<close>

lemma set_add_fcs:
  "set (fold (\<lambda>a seen. if f a \<in> set seen then seen else seen @ [f a]) xs seen) = set seen \<union> f ` set xs"
  by (induction xs arbitrary: seen) auto

lemma set_fold_walk:
  assumes "\<And>s seen. s \<in> set ss \<Longrightarrow> set (walk s seen) = set seen \<union> W s"
  shows "set (fold walk ss seen) = set seen \<union> (\<Union>s\<in>set ss. W s)"
  using assms by (induction ss arbitrary: seen) auto

lemma set_fcs_walk: "set (fcs_walk d seen) = set seen \<union> set (fcs_walk d [])"
proof (induction d seen rule: fcs_walk.induct)
  case (1 n c os as seen)
  have "set (fold fcs_walk os seen') = set seen' \<union> (\<Union>s\<in>set os. set (fcs_walk s []))" for seen'
    by (rule set_fold_walk) (rule "1.IH")
  then show ?case by (simp add: set_add_fcs Un_assoc)
qed

lemma set_fold_fcs_walk: "set (fold fcs_walk ss seen) = set seen \<union> (\<Union>s\<in>set ss. set (fcs_walk s []))"
  by (rule set_fold_walk) (rule set_fcs_walk)

lemma has_fc_object:
  "has_fc (DataObject n c os as) fc \<longleftrightarrow> (\<exists>a\<in>set as. da_fc a = fc) \<or> (\<exists>s\<in>set os. has_fc s fc)"
  by (auto simp: has_fc_def do_fcs_def set_add_fcs set_fold_fcs_walk)

section \<open>Objects\<close>

abbreviation sub_values :: "fc \<Rightarrow> data_object list \<Rightarrow> mms_value list" where
  "sub_values fc os \<equiv> filter (\<lambda>v. value_len v \<noteq> 0) (List.map_filter (\<lambda>s. do_value s fc) os)"

abbreviation sub_components :: "fc \<Rightarrow> data_object list \<Rightarrow> component list" where
  "sub_components fc os \<equiv>
     List.map_filter (\<lambda>s. if has_fc s fc then Some (Component (do_name s) (do_type_spec s fc)) else None) os"

text \<open>What a typed object offers under a constraint.\<close>

definition do_fits :: "data_object \<Rightarrow> fc \<Rightarrow> bool" where
  "do_fits d fc =
     (if has_fc d fc then \<exists>vs. vs \<noteq> [] \<and> do_value d fc = Some (StructureV vs) \<and> conforms (do_type_spec d fc) (StructureV vs)
      else do_value d fc = None)"

lemma do_fitsI:
  "has_fc d fc = (vs \<noteq> []) \<Longrightarrow> do_value d fc = (if vs = [] then None else Some (StructureV vs)) \<Longrightarrow>
     conforms (do_type_spec d fc) (StructureV vs) \<Longrightarrow> do_fits d fc"
  by (simp add: do_fits_def)

lemma sub_fits:
  "\<forall>s\<in>set os. do_fits s fc \<Longrightarrow> list_all2 (\<lambda>c w. conforms (cp_spec c) w) (sub_components fc os) (sub_values fc os)"
proof (induction os)
  case (Cons s os)
  then show ?case
    by (cases "has_fc s fc") (auto simp: do_fits_def  value_len_def)
qed simp

lemma sub_components_Nil: "sub_components fc os = [] \<longleftrightarrow> \<not> (\<exists>s\<in>set os. has_fc s fc)"
  by (induction os) auto

lemma do_conforms: "do_typed d \<Longrightarrow> do_fits d fc"
proof (induction d rule: do_typed.induct)
  case (1 n c os as)
  let ?as = "filter (\<lambda>a. da_fc a = fc) as"
  have "\<forall>a\<in>set ?as. \<exists>w. da_value_opt a = Some w \<and> conforms (da_type_spec a) w"
    using "1.prems" by (auto simp: list_all_iff intro!: da_conforms)
  from all_some_map [OF this] obtain ws where
    ws: "all_some (map da_value_opt ?as) = Some ws" "list_all2 (\<lambda>a w. conforms (da_type_spec a) w) ?as ws" by auto
  have subs: "list_all2 (\<lambda>c w. conforms (cp_spec c) w) (sub_components fc os) (sub_values fc os)"
    using "1.prems" by (intro sub_fits ballI "1.IH") (simp_all add: list_all_iff)
  have "list_all2 (\<lambda>c w. conforms (cp_spec c) w)
      (map (\<lambda>a. Component (da_name a) (da_type_spec a)) ?as @ sub_components fc os) (ws @ sub_values fc os)"
    using ws(2) subs by (intro list_all2_appendI) (simp_all only: list_all2_components)
  then have c: "conforms (do_type_spec (DataObject n c os as) fc) (StructureV (ws @ sub_values fc os))"
    by (simp only: do_type_spec.simps conforms_structure) blast
  have "ws @ sub_values fc os = [] \<longleftrightarrow> ?as = [] \<and> sub_components fc os = []"
    by (simp only: length_0_conv [symmetric] length_append add_is_0 list_all2_lengthD [OF ws(2)] list_all2_lengthD [OF subs])
  also have "\<dots> \<longleftrightarrow> \<not> has_fc (DataObject n c os as) fc"
    by (simp add: has_fc_object sub_components_Nil filter_empty_conv)
  finally have "has_fc (DataObject n c os as) fc \<longleftrightarrow> ws @ sub_values fc os \<noteq> []" by simp
  moreover have "do_value (DataObject n c os as) fc =
      (if ws @ sub_values fc os = [] then None else Some (StructureV (ws @ sub_values fc os)))"
    using ws(1) by (simp only: do_value.simps Let_def option.case)
  ultimately show ?case using c by (rule do_fitsI)
qed

text \<open>An object has a value only under a constraint it exposes.\<close>

lemma all_some_length: "all_some xs = Some ys \<Longrightarrow> length ys = length xs"
  by (induction xs arbitrary: ys rule: all_some.induct) auto

lemma do_value_has_fc: "do_value d fc = Some v \<Longrightarrow> has_fc d fc"
proof (induction d fc arbitrary: v rule: do_value.induct)
  case (1 n c os as fc)
  then obtain ws where ws: "all_some (map da_value_opt (filter (\<lambda>a. da_fc a = fc) as)) = Some ws" "ws @ sub_values fc os \<noteq> []"
    by (auto simp: Let_def split: option.splits if_splits)
  show ?case
  proof (cases "ws = []")
    case True
    with ws(2) obtain s w where s: "s \<in> set os" "do_value s fc = Some w"
      by (auto simp: List.map_filter_def filter_empty_conv)
    from "1.IH" [OF ws(1) s] s(1) show ?thesis by (auto simp: has_fc_object)
  next
    case False
    then have "filter (\<lambda>a. da_fc a = fc) as \<noteq> []" using all_some_length [OF ws(1)] by auto
    then show ?thesis by (auto simp: has_fc_object filter_empty_conv)
  qed
qed

text \<open>A sub-object that has no value although it is exposed is dropped from the value, not from the type.\<close>

lemma sub_values_fewer:
  "length (sub_values fc os) \<le> length (sub_components fc os)"
  "s \<in> set os \<Longrightarrow> has_fc s fc \<Longrightarrow> do_value s fc = None \<Longrightarrow> length (sub_values fc os) < length (sub_components fc os)"
proof -
  show le: "length (sub_values fc os) \<le> length (sub_components fc os)" for os
    by (induction os) (auto simp: dest: do_value_has_fc split: option.splits)
  show "s \<in> set os \<Longrightarrow> has_fc s fc \<Longrightarrow> do_value s fc = None \<Longrightarrow> length (sub_values fc os) < length (sub_components fc os)"
  proof (induction os)
    case (Cons x os)
    show ?case
    proof (cases "x = s")
      case True
      then show ?thesis using Cons.prems le [of os] by simp
    next
      case False
      then show ?thesis
        using Cons do_value_has_fc [of x fc] by (auto simp: split: option.splits)
    qed
  qed simp
qed

lemma do_value_fewer:
  assumes "do_value d fc = Some v" "s \<in> set (do_objects d)" "has_fc s fc" "do_value s fc = None"
  shows "value_len v < length (ts_components (do_type_spec d fc))"
proof (cases d)
  case (DataObject n c os as)
  with assms(1) obtain ws where ws: "all_some (map da_value_opt (filter (\<lambda>a. da_fc a = fc) as)) = Some ws"
    "v = StructureV (ws @ sub_values fc os)"
    by (auto simp: Let_def split: option.splits if_splits)
  then show ?thesis
    using sub_values_fewer(2) [of s os fc] assms(2-4) all_some_length [OF ws(1)] DataObject
    by (simp add: value_len_def ts_structure_def)
qed

section \<open>Items\<close>

lemma typed_descend:
  "do_typed d \<Longrightarrow> descend_objects d ps = (d', rs) \<Longrightarrow> do_typed d'"
proof (induction d ps rule: descend_objects.induct)
  case (2 d p ps)
  have "do_typed s" if "do_child d p = Some s" for s
    using that "2.prems"(1) by (cases d) (auto simp: do_child_def list_all_iff find_Some_iff)
  with 2 show ?case by (auto split: option.splits)
qed simp

lemma typed_path: "da_typed da \<Longrightarrow> da_path da ps = Some x \<Longrightarrow> da_typed x"
proof (induction da ps rule: da_path.induct)
  case (2 da p ps)
  have "da_typed c" if "da_child da p = Some c" for c
    using that "2.prems"(1) by (cases da) (auto simp: da_child_def list_all_iff find_Some_iff split: if_splits)
  with 2 show ?case by (auto split: option.splits)
qed simp

lemma typed_attributes: "do_typed d \<Longrightarrow> descend_attributes d fc ps = Some da \<Longrightarrow> da_typed da"
  by (cases d) (auto simp: descend_attributes_def list_all_iff find_Some_iff bind_eq_Some_conv intro: typed_path split: list.splits)

definition ln_typed :: "logical_node \<Rightarrow> bool" where
  "ln_typed ln = list_all do_typed (ln_objects ln)"

lemma fc_conforms:
  assumes "list_all do_typed os"
  shows "list_all2 (\<lambda>c w. conforms (cp_spec c) w)
    (map (\<lambda>d. Component (do_name d) (do_type_spec d fc)) (filter (\<lambda>d. has_fc d fc) os)) (List.map_filter (\<lambda>d. do_value d fc) os)"
  using assms
proof (induction os)
  case (Cons d os)
  then show ?case
    using do_conforms [of d fc] by (cases "has_fc d fc") (auto simp: do_fits_def )
qed simp

lemma read_fits:
  assumes "ln_typed ln"
  shows "case resolve_read_err ln item of
      Inr v \<Rightarrow> \<exists>ts. type_spec_for ln item = Some ts \<and> conforms ts v
    | Inl e \<Rightarrow> e = ObjectNonExistent"
proof (cases "split_item item")
  case None
  then show ?thesis by (simp add: resolve_read_err_def)
next
  case (Some r)
  then obtain l f path where i: "split_on dollar item = l # f # path" "r = (l, parse_fc_lenient f, path)"
    by (auto simp: split_item_def split: list.splits)
  let ?fc = "parse_fc_lenient f"
  show ?thesis
  proof (cases path)
    case Nil
    then show ?thesis
      using i fc_conforms [of "ln_objects ln" ?fc] assms
      by (simp add: resolve_read_err_def type_spec_for_def split_item_def fc_type_spec_def ln_typed_def conforms_structure)
  next
    case (Cons p ps)
    show ?thesis
    proof (cases "ln_object ln p")
      case (Some d0)
      obtain d rs where d: "descend_objects d0 ps = (d, rs)" by fastforce
      have "do_typed d0" using assms Some by (auto simp: ln_typed_def ln_object_def list_all_iff find_Some_iff)
      then have t: "do_typed d" using typed_descend d by blast
      have "conforms (do_type_spec d ?fc) v" if "do_value d ?fc = Some v" for v
        using do_conforms [OF t, of ?fc] that by (auto simp: do_fits_def split: if_splits)
      moreover have "\<exists>v. da_value_opt da = Some v \<and> conforms (da_type_spec da) v" if "descend_attributes d ?fc rs = Some da" for da
        using da_conforms [OF typed_attributes [OF t that]] .
      ultimately show ?thesis
        using i Cons Some d
        by (cases rs) (auto simp: resolve_read_err_def type_spec_for_def split_item_def split: option.split)
    qed (use i Cons in \<open>simp add: resolve_read_err_def split_item_def\<close>)
  qed
qed

end
