(* ===== verification/Server_Control.thy ===== *)
theory Server_Control
  imports Server_Select Server_Tracking Server_Conn Server_Access
begin

text \<open>
  The control services of the server: the termination of an enhanced-security operate
  (\<open>Termination\<close> of \<open>src/server/control.rs\<close>), the handlers of a read request and of a control
  write (\<open>src/server/handler.rs\<close>), and the end of an association (\<open>src/server/server.rs\<close>).

  The application's handler of an object is code outside the program: it maps a command to its
  verdict and to what it did with the termination before it returned. A shared termination is an
  entry of a table under its number. The thread that tracks a deferred termination is a job that
  runs later; the reports that follow from changed data are not modelled, and \<open>sv_reported\<close> lists
  the change sets they are made from. \<open>sv_sent\<close> is a history of the terminations sent.
  An execution is a sequence of events, and the handling of one request is one event: requests
  of different associations follow one another in any order. The code locks the table of
  selections and the model for one operation at a time, so it also allows two requests to
  interleave inside their handlers; such executions are not modelled.
\<close>

section \<open>State\<close>

datatype term_use = NotDeferred | Deferred "add_cause list"

type_synonym control_handler = "control_ctx \<Rightarrow> add_cause \<times> term_use"

record term_state =
  tm_conn :: conn_id
  tm_domain :: rust_string
  tm_item :: rust_string
  tm_ctx :: control_ctx
  tm_oper :: mms_value
  tm_done :: bool
  tm_deferred :: bool
  tm_timer :: bool

record track_job =
  tj_ctx :: control_ctx
  tj_oper :: mms_value
  tj_cause :: add_cause

record server =
  sv_model :: model
  sv_tracker :: tracker
  sv_clock :: clock
  sv_selections :: selections
  sv_conns :: "conn_id \<rightharpoonup> server_conn"
  sv_controls :: "object_reference \<rightharpoonup> control_handler"
  sv_terms :: "term_state list"
  sv_jobs :: "track_job list"
  sv_reported :: "change_set list"
  sv_sent :: "(nat \<times> add_cause) list"

text \<open>A send through the connection an object still refers to; a failed send is only logged.\<close>

definition send_to :: "conn_id \<Rightarrow> (server_conn \<Rightarrow> (mms_error + unit) \<times> server_conn) \<Rightarrow> server \<Rightarrow> server" where
  "send_to conn snd_op s =
     (case sv_conns s conn of
        None \<Rightarrow> s
      | Some sc \<Rightarrow> s\<lparr>sv_conns := (sv_conns s)(conn \<mapsto> snd (snd_op sc))\<rparr>)"

section \<open>Terminations\<close>

definition term_report :: "term_state \<Rightarrow> add_cause \<Rightarrow> element" where
  "term_report t cause =
     (if cause = AC_NONE then command_termination_report (tm_domain t) (tm_item t) (tm_oper t)
      else command_termination_negative_report (tm_domain t) (tm_item t) (tm_oper t)
             (last_appl_error_value (tm_domain t) (tm_item t) (tm_ctx t) cause))"

definition term_new :: "conn_id \<Rightarrow> rust_string \<Rightarrow> rust_string \<Rightarrow> control_ctx \<Rightarrow> mms_value \<Rightarrow> term_state" where
  "term_new conn domain item ctx oper =
     \<lparr>tm_conn = conn, tm_domain = domain, tm_item = item, tm_ctx = ctx, tm_oper = oper,
      tm_done = False, tm_deferred = False, tm_timer = False\<rparr>"

definition term_finish :: "nat \<Rightarrow> add_cause \<Rightarrow> server \<Rightarrow> server" where
  "term_finish i cause s =
     (let t = sv_terms s ! i in
      if tm_done t then s
      else let s1 = s\<lparr>sv_terms := (sv_terms s)[i := t\<lparr>tm_done := True, tm_timer := False\<rparr>]\<rparr>;
               s2 = send_to (tm_conn t) (send_unconfirmed (term_report t cause)) (s1\<lparr>sv_sent := sv_sent s1 @ [(i, cause)]\<rparr>)
           in if tm_deferred t then
                s2\<lparr>sv_jobs := sv_jobs s2 @ [\<lparr>tj_ctx = tm_ctx t, tj_oper = tm_oper t, tj_cause = cause\<rparr>]\<rparr>
              else s2)"

definition term_discard :: "nat \<Rightarrow> server \<Rightarrow> server" where
  "term_discard i s = s\<lparr>sv_terms := (sv_terms s)[i := (sv_terms s ! i)\<lparr>tm_done := True\<rparr>]\<rparr>"

definition defer_termination :: "nat \<Rightarrow> server \<Rightarrow> server" where
  "defer_termination i s = s\<lparr>sv_terms := (sv_terms s)[i := (sv_terms s ! i)\<lparr>tm_deferred := True\<rparr>]\<rparr>"

definition term_supervise :: "nat \<Rightarrow> nat \<Rightarrow> server \<Rightarrow> server" where
  "term_supervise i limit s =
     (if limit = 0 then s
      else if tm_done (sv_terms s ! i) then s
      else s\<lparr>sv_terms := (sv_terms s)[i := (sv_terms s ! i)\<lparr>tm_timer := True\<rparr>]\<rparr>)"

text \<open>What the handler did with the termination while it ran.\<close>

definition use_termination :: "nat option \<Rightarrow> term_use \<Rightarrow> server \<Rightarrow> server" where
  "use_termination term u s =
     (case (term, u) of
        (Some i, Deferred causes) \<Rightarrow> fold (term_finish i) causes (defer_termination i s)
      | _ \<Rightarrow> s)"

section \<open>A control write\<close>

definition phase_name :: "phase \<Rightarrow> rust_string" where
  "phase_name ph =
     ascii (case ph of Oper \<Rightarrow> ''Oper'' | Sbow \<Rightarrow> ''SBOw'' | Cancel \<Rightarrow> ''Cancel'' | Sbo \<Rightarrow> ''SBO'')"

definition phase_service :: "phase \<Rightarrow> service_type" where
  "phase_service ph = (case ph of Sbow \<Rightarrow> ST_SELECT_WITH_VALUE | Cancel \<Rightarrow> ST_CANCEL | _ \<Rightarrow> ST_OPERATE)"

text \<open>The request that is being handled.\<close>

record ctl_request =
  rq_conn :: conn_id
  rq_domain :: rust_string
  rq_item :: rust_string
  rq_value :: mms_value
  rq_now :: nat
  rq_wall :: system_time

definition handler_track ::
    "ctl_request \<Rightarrow> object_reference \<Rightarrow> service_type \<Rightarrow> service_error_code \<Rightarrow> control_ctx \<Rightarrow> add_cause \<Rightarrow>
     server \<times> change_set \<Rightarrow> server \<times> change_set" where
  "handler_track rq r svc err ctx cause = (\<lambda>(s, ch).
     case track_control (sv_tracker s) r svc err (Some ctx) (Some (rq_value rq)) cause
            (clock_now (sv_clock s) (rq_wall rq)) (sv_model s, ch) of
       (m, ch') \<Rightarrow> (s\<lparr>sv_model := m\<rparr>, ch'))"

type_synonym handled = "(data_access_error + unit) \<times> server \<times> change_set"

definition refuse ::
    "ctl_request \<Rightarrow> rust_string \<Rightarrow> object_reference \<Rightarrow> service_type \<Rightarrow> control_ctx \<Rightarrow> add_cause \<Rightarrow>
     server \<times> change_set \<Rightarrow> handled" where
  "refuse rq ctl_item r svc ctx cause = (\<lambda>(s, ch).
     (Inl ObjectAccessDenied,
      handler_track rq r svc (service_error_of (Inl ObjectAccessDenied)) ctx cause
        (send_to (rq_conn rq) (send_unconfirmed_first (last_appl_error_report (rq_domain rq) ctl_item ctx cause)) s, ch)))"

definition admission :: "ctl_model option \<Rightarrow> phase \<Rightarrow> control_ctx \<Rightarrow> add_cause option" where
  "admission declared ph ctx =
     (if declared = Some StatusOnly then Some AC_NOT_SUPPORTED
      else if declared \<noteq> None \<and> ph = Sbow \<and> declared \<noteq> Some SboEnhanced then Some AC_NOT_SUPPORTED
      else if ct_test ctx \<and> (case declared of None \<Rightarrow> False | Some cm \<Rightarrow> is_enhanced cm) then Some AC_TEST_NOT_ALLOWED
      else if ct_or_ident_len ctx > MAX_OR_IDENT_LEN then Some AC_INCONSISTENT_PARAMETERS
      else None)"

definition cancel_command ::
    "ctl_request \<Rightarrow> rust_string \<Rightarrow> object_reference \<Rightarrow> control_ctx \<Rightarrow> server \<times> change_set \<Rightarrow> handled" where
  "cancel_command rq ctl_item r ctx = (\<lambda>(s, ch).
     let cause = check_cancel r (rq_conn rq) (ct_ctl_num ctx) (rq_now rq) (sv_selections s) in
     if cause \<noteq> AC_NONE then refuse rq ctl_item r ST_CANCEL ctx cause (s, ch)
     else (Inr (), handler_track rq r ST_CANCEL SE_NO_ERROR ctx AC_NONE
             (s\<lparr>sv_selections := sel_clear r (sv_selections s)\<rparr>, ch)))"

definition or_select_timeout :: "nat \<Rightarrow> nat" where
  "or_select_timeout t = (if t = 0 then SELECT_TIMEOUT else t)"

definition select_command ::
    "ctl_request \<Rightarrow> rust_string \<Rightarrow> object_reference \<Rightarrow> nat \<Rightarrow> control_ctx \<Rightarrow> server \<times> change_set \<Rightarrow> handled" where
  "select_command rq ctl_item r sbo_timeout ctx = (\<lambda>(s, ch).
     case reserve r (rq_conn rq) (Some (ct_ctl_num ctx)) (or_select_timeout sbo_timeout) (rq_now rq) (sv_selections s) of
       (taken, sel) \<Rightarrow>
         let s' = s\<lparr>sv_selections := sel\<rparr> in
         if \<not> taken then refuse rq ctl_item r ST_SELECT_WITH_VALUE ctx AC_OBJECT_ALREADY_SELECTED (s', ch)
         else (Inr (), handler_track rq r ST_SELECT_WITH_VALUE SE_NO_ERROR ctx AC_NONE (s', ch)))"

definition conclude ::
    "ctl_request \<Rightarrow> object_reference \<Rightarrow> nat \<Rightarrow> control_ctx \<Rightarrow> server \<times> change_set \<Rightarrow> server \<times> change_set" where
  "conclude rq r oper_timeout ctx = (\<lambda>(s, ch).
     case ct_term ctx of
       None \<Rightarrow> (s, ch)
     | Some i \<Rightarrow>
         if tm_deferred (sv_terms s ! i) then (term_supervise i oper_timeout s, ch)
         else handler_track rq r ST_COMMAND_TERMINATION SE_NO_ERROR ctx AC_NONE (term_finish i AC_NONE s, ch))"

definition operate_command ::
    "ctl_request \<Rightarrow> object_reference \<Rightarrow> nat \<Rightarrow> control_ctx \<Rightarrow> server \<times> change_set \<Rightarrow> handled" where
  "operate_command rq r oper_timeout ctx = (\<lambda>(s, ch).
     case apply_control r (ct_value ctx) (sv_model s, ch) of
       (m, ch1) \<Rightarrow>
         (Inr (),
          conclude rq r oper_timeout ctx
            (handler_track rq r ST_OPERATE SE_NO_ERROR ctx AC_NONE
              (s\<lparr>sv_model := m, sv_selections := sel_clear r (sv_selections s)\<rparr>, ch1))))"

definition with_termination ::
    "ctl_request \<Rightarrow> rust_string \<Rightarrow> phase \<Rightarrow> ctl_model option \<Rightarrow> control_ctx \<Rightarrow> server \<Rightarrow> control_ctx \<times> server" where
  "with_termination rq ctl_item ph declared ctx s =
     (if ph = Oper \<and> (case declared of None \<Rightarrow> False | Some cm \<Rightarrow> is_enhanced cm) \<and> sv_conns s (rq_conn rq) \<noteq> None then
        (ctx\<lparr>ct_term := Some (length (sv_terms s))\<rparr>,
         s\<lparr>sv_terms := sv_terms s @ [term_new (rq_conn rq) (rq_domain rq) ctl_item ctx (rq_value rq)]\<rparr>)
      else (ctx, s))"

definition call_handler :: "object_reference \<Rightarrow> control_ctx \<Rightarrow> server \<Rightarrow> add_cause \<times> server" where
  "call_handler r ctx s =
     (case sv_controls s r of
        None \<Rightarrow> (AC_NONE, s)
      | Some h \<Rightarrow> (case h ctx of (cause, u) \<Rightarrow> (cause, use_termination (ct_term ctx) u s)))"

definition execute_command ::
    "ctl_request \<Rightarrow> rust_string \<Rightarrow> object_reference \<Rightarrow> phase \<Rightarrow> ctl_model option \<Rightarrow> control_ctx \<Rightarrow>
     server \<times> change_set \<Rightarrow> handled" where
  "execute_command rq ctl_item r ph declared ctx0 = (\<lambda>(s0, ch).
     case with_termination rq ctl_item ph declared ctx0 s0 of
       (ctx, s1) \<Rightarrow>
         (case call_handler r ctx s1 of
            (cause, s2) \<Rightarrow>
              if cause \<noteq> AC_NONE then
                refuse rq ctl_item r (phase_service ph) ctx cause
                  (case ct_term ctx of Some i \<Rightarrow> term_discard i s2 | None \<Rightarrow> s2, ch)
              else if ct_select ctx then
                select_command rq ctl_item r (cf_millis (sv_model s0) r (ascii ''sboTimeout'')) ctx (s2, ch)
              else operate_command rq r (cf_millis (sv_model s0) r (ascii ''operTimeout'')) ctx (s2, ch)))"

definition control_command ::
    "ctl_request \<Rightarrow> rust_string \<Rightarrow> object_reference \<Rightarrow> phase \<Rightarrow> control_ctx \<Rightarrow> server \<times> change_set \<Rightarrow> handled" where
  "control_command rq ctl_item r ph ctx = (\<lambda>(s, ch).
     let declared = declared_ctl_model (sv_model s) r;
         ctl_model = (case declared of None \<Rightarrow> DirectNormal | Some cm \<Rightarrow> cm)
     in case admission declared ph ctx of
          Some cause \<Rightarrow> refuse rq ctl_item r (phase_service ph) ctx cause (s, ch)
        | None \<Rightarrow>
            if ph = Cancel then cancel_command rq ctl_item r ctx (s, ch)
            else let cause = check_operate r (rq_conn rq) (ct_ctl_num ctx) (rq_now rq) (sv_selections s)
                 in if ph = Oper \<and> has_select ctl_model \<and> cause \<noteq> AC_NONE
                    then refuse rq ctl_item r (phase_service ph) ctx cause (s, ch)
                    else execute_command rq ctl_item r ph declared ctx (s, ch))"

definition peer_of :: "conn_id \<Rightarrow> server \<Rightarrow> socket_addr option" where
  "peer_of conn s = (case sv_conns s conn of None \<Rightarrow> None | Some sc \<Rightarrow> sc_peer sc)"

definition control_write :: "ctl_request \<Rightarrow> server \<times> change_set \<Rightarrow> handled option" where
  "control_write rq = (\<lambda>(s, ch).
     case split_control (rq_item rq) of
       None \<Rightarrow> Some (Inl ObjectAccessUnsupported, s, ch)
     | Some (base, ph) \<Rightarrow>
         if ph = Sbo then Some (Inl ObjectAccessDenied, s, ch)
         else if \<not> ends_with (rq_item rq) ([dollar] @ phase_name ph) \<or> type_of_value (rq_value rq) \<noteq> TyStructure
         then Some (Inl TypeInconsistent, s, ch)
         else let r = control_ref (rq_domain rq) base in
              if attribute (sv_model s) (ref_child r (phase_name ph)) FcCo = None
              then Some (Inl ObjectNonExistent, s, ch)
              else map_option
                (\<lambda>ctx. control_command rq (base @ [dollar] @ phase_name ph) r ph (ctx\<lparr>ct_select := ph = Sbow\<rparr>) (s, ch))
                (decode_oper r (rq_value rq) (rq_conn rq) (peer_of (rq_conn rq) s)))"

section \<open>Select by reading\<close>

text \<open>\<open>Iterator::next\<close> on the parts of a split.\<close>

fun first_of :: "'a list \<Rightarrow> 'a option" where
  "first_of [] = None"
| "first_of (x # xs) = Some x"

record pending_select =
  ps_reference :: object_reference
  ps_err :: service_error_code

definition sbo_select :: "conn_id \<Rightarrow> object_reference \<Rightarrow> nat \<Rightarrow> server \<Rightarrow> rust_string \<times> pending_select \<times> server" where
  "sbo_select conn r now s =
     (let declared = declared_ctl_model (sv_model s) r;
          other = (declared \<noteq> None \<and> declared \<noteq> Some SboNormal);
          timeout = or_select_timeout (cf_millis (sv_model s) r (ascii ''sboTimeout''));
          taken = reserve r conn None timeout now (sv_selections s);
          name = (if other then [] else if fst taken then r else []);
          err = (if name \<noteq> [] then SE_NO_ERROR else if other then SE_ACCESS_VIOLATION else SE_INSTANCE_IN_USE)
      in (name, \<lparr>ps_reference = r, ps_err = err\<rparr>, if other then s else s\<lparr>sv_selections := snd taken\<rparr>))"

definition access_failure :: "data_access_error \<Rightarrow> element" where
  "access_failure code = uint_elem (context_primitive 0) (ucast (dae_code code))"

section \<open>Reading\<close>

definition read_data :: "model \<Rightarrow> rust_string \<Rightarrow> rust_string \<Rightarrow> element" where
  "read_data m domain item =
     (case device m domain of
        None \<Rightarrow> access_failure ObjectNonExistent
      | Some ld \<Rightarrow>
          (case Option.bind (first_of (split_on dollar item)) (ld_node ld) of
             None \<Rightarrow> access_failure ObjectNonExistent
           | Some ln \<Rightarrow>
               (case resolve_read_err ln item of
                  Inr v \<Rightarrow> (case data_element v of Some e \<Rightarrow> e | None \<Rightarrow> access_failure TypeInconsistent)
                | Inl code \<Rightarrow> access_failure code)))"

text \<open>The value of one variable, and the select to track if it was an \<open>SBO\<close> attribute.\<close>

definition read_one ::
    "conn_id \<Rightarrow> rust_string \<Rightarrow> rust_string \<Rightarrow> nat \<Rightarrow> server \<Rightarrow> element \<times> pending_select list \<times> server" where
  "read_one conn domain item now s =
     (case split_control item of
        Some (base, Sbo) \<Rightarrow>
          (case sbo_select conn (control_ref domain base) now s of
             (name, p, s') \<Rightarrow>
               (case data_element (VisibleStringV name) of Some e \<Rightarrow> e | None \<Rightarrow> access_failure ObjectNonExistent, [p], s'))
      | _ \<Rightarrow> (read_data (sv_model s) domain item, [], s))"

text \<open>The variables of a request in turn, each with the instant it is read at.\<close>

fun read_list ::
    "conn_id \<Rightarrow> ((rust_string \<times> rust_string) option \<times> nat) list \<Rightarrow> server \<Rightarrow> element list \<times> pending_select list \<times> server" where
  "read_list conn [] s = ([], [], s)"
| "read_list conn ((None, now) # ts) s =
     (case read_list conn ts s of (es, ps, s') \<Rightarrow> (access_failure ObjectNonExistent # es, ps, s'))"
| "read_list conn ((Some (domain, item), now) # ts) s =
     (case read_one conn domain item now s of
        (e, ps, s1) \<Rightarrow> (case read_list conn ts s1 of (es, ps', s') \<Rightarrow> (e # es, ps @ ps', s')))"

text \<open>The clock is read for each select that is tracked; \<open>wall k\<close> is the \<open>k\<close>-th reading.\<close>

fun track_selects ::
    "tracker \<Rightarrow> clock \<Rightarrow> (nat \<Rightarrow> system_time) \<Rightarrow> nat \<Rightarrow> pending_select list \<Rightarrow> model \<times> change_set \<Rightarrow> model \<times> change_set" where
  "track_selects tk clk wall k [] st = st"
| "track_selects tk clk wall k (p # ps) st =
     track_selects tk clk wall (k + 1) ps
       (track_control tk (ps_reference p) ST_SELECT (ps_err p) None None AC_NONE (clock_now clk (wall k)) st)"

definition flush_read_tracking :: "pending_select list \<Rightarrow> (nat \<Rightarrow> system_time) \<Rightarrow> server \<Rightarrow> server" where
  "flush_read_tracking ps wall s =
     (if ps = [] then s
      else case track_selects (sv_tracker s) (sv_clock s) wall 0 ps (sv_model s, Map.empty) of
        (m, cs) \<Rightarrow> s\<lparr>sv_model := m, sv_reported := sv_reported s @ [cs]\<rparr>)"

section \<open>Requests and events\<close>

definition SVC_READ :: u32 where "SVC_READ = 4"
definition SVC_WRITE :: u32 where "SVC_WRITE = 5"

definition write_failure :: "data_access_error \<Rightarrow> element" where
  "write_failure code = uint_elem (context_primitive 0) (ucast (dae_code code))"

definition write_result :: "data_access_error + unit \<Rightarrow> element" where
  "write_result res = (case res of Inr _ \<Rightarrow> prim (context_primitive 1) [] | Inl code \<Rightarrow> write_failure code)"

text \<open>
  A confirmed write request for one control variable, from the association it arrives on to the
  PDUs that answer it. The change set of the request is handed to reporting.
\<close>

definition control_request :: "u32 \<Rightarrow> ctl_request \<Rightarrow> server \<Rightarrow> (bytes list \<times> server) option" where
  "control_request invoke_id rq s =
     (case sv_conns s (rq_conn rq) of
        None \<Rightarrow> Some ([], s)
      | Some sc \<Rightarrow>
          (case control_write rq (s\<lparr>sv_conns := (sv_conns s)(rq_conn rq \<mapsto> begin_request sc)\<rparr>, Map.empty) of
             None \<Rightarrow> None
           | Some (res, s', ch) \<Rightarrow>
               let s'' = (if ch = Map.empty then s' else s'\<lparr>sv_reported := sv_reported s' @ [ch]\<rparr>);
                   resp = cons (context_constructed SVC_WRITE) [write_result res]
               in (case sv_conns s'' (rq_conn rq) of
                     None \<Rightarrow> Some ([], s'')
                   | Some sc' \<Rightarrow>
                       (case finish_request invoke_id (Inr resp) sc' of
                          (out, sc'') \<Rightarrow> Some (out, s''\<lparr>sv_conns := (sv_conns s'')(rq_conn rq \<mapsto> sc'')\<rparr>)))))"

text \<open>A confirmed read request with a list of variables; a name that did not parse is \<open>None\<close>.\<close>

definition read_request ::
    "u32 \<Rightarrow> conn_id \<Rightarrow> ((rust_string \<times> rust_string) option \<times> nat) list \<Rightarrow> (nat \<Rightarrow> system_time) \<Rightarrow> server \<Rightarrow> bytes list \<times> server" where
  "read_request invoke_id conn targets wall s =
     (case sv_conns s conn of
        None \<Rightarrow> ([], s)
      | Some sc \<Rightarrow>
          (case read_list conn targets (s\<lparr>sv_conns := (sv_conns s)(conn \<mapsto> begin_request sc)\<rparr>) of
             (es, ps, s1) \<Rightarrow>
               let s2 = flush_read_tracking ps wall s1;
                   resp = cons (context_constructed SVC_READ) [cons (context_constructed 1) es]
               in (case sv_conns s2 conn of
                     None \<Rightarrow> ([], s2)
                   | Some sc' \<Rightarrow>
                       (case finish_request invoke_id (Inr resp) sc' of
                          (out, sc'') \<Rightarrow> (out, s2\<lparr>sv_conns := (sv_conns s2)(conn \<mapsto> sc'')\<rparr>)))))"

definition end_association :: "conn_id \<Rightarrow> server \<Rightarrow> server" where
  "end_association conn s =
     s\<lparr>sv_conns := (sv_conns s)(conn := None), sv_selections := release_conn conn (sv_selections s)\<rparr>"

definition run_job :: "system_time \<Rightarrow> server \<Rightarrow> server" where
  "run_job wall s =
     (case sv_jobs s of
        [] \<Rightarrow> s
      | j # js \<Rightarrow>
          (case track_control (sv_tracker s) (ct_reference (tj_ctx j)) ST_COMMAND_TERMINATION
                  (termination_error (tj_cause j)) (Some (tj_ctx j)) (Some (tj_oper j)) (tj_cause j)
                  (clock_now (sv_clock s) wall) (sv_model s, Map.empty) of
             (m, cs) \<Rightarrow> s\<lparr>sv_model := m, sv_jobs := js, sv_reported := sv_reported s @ [cs]\<rparr>))"

datatype ctl_event =
    EvWrite u32 ctl_request
  | EvRead u32 conn_id "((rust_string \<times> rust_string) option \<times> nat) list" "nat \<Rightarrow> system_time"
  | EvFinish nat add_cause
  | EvTimer nat
  | EvJob system_time
  | EvPump conn_id
  | EvEnd conn_id

definition pump_conn :: "conn_id \<Rightarrow> server \<Rightarrow> server" where
  "pump_conn conn s =
     (case sv_conns s conn of
        None \<Rightarrow> s
      | Some sc \<Rightarrow>
          (case pump_unconfirmed sc of
             None \<Rightarrow> s
           | Some (_, sc') \<Rightarrow> s\<lparr>sv_conns := (sv_conns s)(conn \<mapsto> sc')\<rparr>))"

text \<open>An application can finish a termination it deferred; the timer fires while it is set.\<close>

fun ctl_step :: "ctl_event \<Rightarrow> server \<Rightarrow> server option" where
  "ctl_step (EvWrite invoke_id rq) s = map_option snd (control_request invoke_id rq s)"
| "ctl_step (EvRead invoke_id conn targets wall) s = Some (snd (read_request invoke_id conn targets wall s))"
| "ctl_step (EvFinish i cause) s =
     (if i < length (sv_terms s) \<and> tm_deferred (sv_terms s ! i) then Some (term_finish i cause s) else Some s)"
| "ctl_step (EvTimer i) s =
     (if i < length (sv_terms s) \<and> tm_timer (sv_terms s ! i) then Some (term_finish i AC_TIME_LIMIT_OVER s) else Some s)"
| "ctl_step (EvJob wall) s = Some (run_job wall s)"
| "ctl_step (EvPump conn) s = Some (pump_conn conn s)"
| "ctl_step (EvEnd conn) s = Some (end_association conn s)"

fun ctl_run :: "ctl_event list \<Rightarrow> server \<Rightarrow> server option" where
  "ctl_run [] s = Some s"
| "ctl_run (e # es) s = (case ctl_step e s of None \<Rightarrow> None | Some s' \<Rightarrow> ctl_run es s')"

end
