(* ===== verification/Server_Exclusion.thy ===== *)
theory Server_Exclusion
  imports Server_Control
begin

text \<open>
  Facts about the control services that the correctness theorems rest on: which part of the
  state each operation touches, that nothing a client does by control services changes what an
  object declares, and that the events of other connections keep a reservation and the status
  of the reserved object.
\<close>

section \<open>What the operations touch\<close>

named_theorems touch \<open>fields that an operation leaves alone\<close>

lemma send_to_touch [touch, simp]:
  "sv_model (send_to c f s) = sv_model s" "sv_selections (send_to c f s) = sv_selections s"
  "sv_terms (send_to c f s) = sv_terms s" "sv_controls (send_to c f s) = sv_controls s"
  "sv_sent (send_to c f s) = sv_sent s" "sv_tracker (send_to c f s) = sv_tracker s"
  by (simp_all add: send_to_def split: option.split)

lemma handler_track_touch [touch, simp]:
  "sv_selections (fst (handler_track rq r svc err ctx cause st)) = sv_selections (fst st)"
  "sv_terms (fst (handler_track rq r svc err ctx cause st)) = sv_terms (fst st)"
  "sv_controls (fst (handler_track rq r svc err ctx cause st)) = sv_controls (fst st)"
  "sv_conns (fst (handler_track rq r svc err ctx cause st)) = sv_conns (fst st)"
  "sv_sent (fst (handler_track rq r svc err ctx cause st)) = sv_sent (fst st)"
  by (simp_all add: handler_track_def split: prod.split)

lemma term_finish_touch [touch, simp]:
  "sv_model (term_finish i cause s) = sv_model s" "sv_selections (term_finish i cause s) = sv_selections s"
  "length (sv_terms (term_finish i cause s)) = length (sv_terms s)"
  "sv_controls (term_finish i cause s) = sv_controls s"
  by (simp_all add: term_finish_def Let_def)

lemma term_ops_touch [touch, simp]:
  "sv_model (term_discard i s) = sv_model s" "sv_selections (term_discard i s) = sv_selections s"
  "sv_model (defer_termination i s) = sv_model s" "sv_selections (defer_termination i s) = sv_selections s"
  "sv_model (term_supervise i limit s) = sv_model s" "sv_selections (term_supervise i limit s) = sv_selections s"
  "sv_sent (term_discard i s) = sv_sent s" "sv_sent (defer_termination i s) = sv_sent s"
  "sv_sent (term_supervise i limit s) = sv_sent s"
  "sv_conns (term_discard i s) = sv_conns s" "sv_conns (term_supervise i limit s) = sv_conns s"
  by (simp_all add: term_discard_def defer_termination_def term_supervise_def)

lemma fold_term_finish_touch [touch, simp]:
  "sv_model (fold (term_finish i) causes s) = sv_model s"
  "sv_selections (fold (term_finish i) causes s) = sv_selections s"
  by (induction causes arbitrary: s) simp_all

lemma use_termination_touch [touch, simp]:
  "sv_model (use_termination tm u s) = sv_model s" "sv_selections (use_termination tm u s) = sv_selections s"
  by (simp_all add: use_termination_def split: option.split term_use.split)

lemma call_handler_touch [touch, simp]:
  "sv_model (snd (call_handler r ctx s)) = sv_model s" "sv_selections (snd (call_handler r ctx s)) = sv_selections s"
  by (simp_all add: call_handler_def split: option.split prod.split)

lemma with_termination_touch [touch, simp]:
  "sv_model (snd (with_termination rq item ph d ctx s)) = sv_model s"
  "sv_selections (snd (with_termination rq item ph d ctx s)) = sv_selections s"
  "sv_conns (snd (with_termination rq item ph d ctx s)) = sv_conns s"
  "ct_select (fst (with_termination rq item ph d ctx s)) = ct_select ctx"
  "ct_ctl_num (fst (with_termination rq item ph d ctx s)) = ct_ctl_num ctx"
  "ct_value (fst (with_termination rq item ph d ctx s)) = ct_value ctx"
  by (simp_all add: with_termination_def)

section \<open>The process image\<close>

text \<open>Attributes that no control service but an operate of their own object writes.\<close>

definition settled :: "rust_string \<Rightarrow> bool" where
  "settled name \<longleftrightarrow> dot \<notin> set name \<and> slash \<notin> set name \<and> \<not> tracked_name name"

definition attr_at :: "model \<Rightarrow> object_reference \<Rightarrow> rust_string \<Rightarrow> fc \<Rightarrow> mms_value option option" where
  "attr_at m r name fc = attribute_value m (ref_child r name) fc"

lemma settled_names [simp]:
  "settled (ascii ''ctlModel'')" "settled (ascii ''sboTimeout'')" "settled (ascii ''operTimeout'')" "settled (ascii ''stVal'')"
  by (simp_all add: settled_def tracked_name_def eq_ignore_ascii_case_def)
     (simp_all add: ascii_def to_ascii_uppercase_def ascii_upper_def)

lemma ref_path_settled:
  assumes "settled name"
  shows "ref_path (ref_child r name) = (if ref_path r = [] then [] else ref_path r @ [name])"
proof (cases "ref_path r = []")
  case True
  then have "slash \<notin> set r"
    by (cases "split_once slash r") (auto simp: ref_path_def split_once_None)
  with assms have "split_once slash (ref_child r name) = None"
    by (simp add: ref_child_def settled_def)
  with True show ?thesis by (simp add: ref_path_def)
qed (use assms in \<open>simp add: ref_path_child settled_def\<close>)

lemma attr_at_no_path: "ref_path r = [] \<Longrightarrow> settled name \<Longrightarrow> attr_at m r name fc = None"
  by (simp add: attr_at_def attribute_value_view ref_path_settled)

lemma cf_value_attr_at: "cf_value m r name = Option.bind (attr_at m r name FcCf) (\<lambda>v. v)"
  by (simp add: cf_value_def attr_at_def attribute_value_def split: option.split)

lemma attr_at_track [simp]:
  assumes "settled name"
  shows "attr_at (fst (track_control tk obj svc err ctx oper cause now st)) r name fc = attr_at (fst st) r name fc"
proof (cases "ref_path r = []")
  case False
  then have "untracked (ref_path (ref_child r name))"
    using assms by (simp add: ref_path_settled) (simp add: settled_def)
  then show ?thesis by (simp add: attr_at_def track_control_frame)
qed (simp add: attr_at_no_path assms)

lemma attr_at_handler_track [simp]:
  "settled name \<Longrightarrow>
    attr_at (sv_model (fst (handler_track rq obj svc err ctx cause st))) r name fc = attr_at (sv_model (fst st)) r name fc"
  by (simp add: handler_track_def case_prod_beta)

text \<open>A reference with a path is determined by its parts.\<close>

lemma ref_parts_inject:
  assumes "ref_path r \<noteq> []" "ref_ld r' = ref_ld r" "ref_path r' = ref_path r"
  shows "r' = r"
proof -
  obtain p t where r: "split_once slash r = Some (p, t)"
    using assms(1) by (cases "split_once slash r") (auto simp: ref_path_def)
  obtain p' t' where r': "split_once slash r' = Some (p', t')"
    using assms(1,3) by (cases "split_once slash r'") (auto simp: ref_path_def)
  have "p' = p" "split_on dot t' = split_on dot t"
    using assms(2,3) r r' by (simp_all add: ref_ld_def ref_path_def)
  then show ?thesis
    using split_once_Some [OF r] split_once_Some [OF r'] by (simp add: split_on_inject)
qed

lemma attr_at_apply_control:
  assumes "settled name" "r' \<noteq> r \<or> name \<noteq> ascii ''stVal''"
  shows "attr_at (fst (apply_control r' v (m, ch))) r name fc = attr_at m r name fc"
proof (cases "ref_path r = []")
  case False
  have "attribute_value (put (da_with_value (Some w) da)) (ref_child r name) fc = attribute_value m (ref_child r name) fc"
    if a: "attribute_mut m (ref_child r' (ascii ''stVal'')) FcSt = Some (da, put)" for w da put
  proof (rule attribute_value_frame [OF a same_place_with_value])
    show "(ref_ld (ref_child r name), ref_path (ref_child r name)) \<noteq>
        (ref_ld (ref_child r' (ascii ''stVal'')), ref_path (ref_child r' (ascii ''stVal'')))"
      using False assms ref_parts_inject [OF False, of r']
      by (auto simp: ref_path_settled ref_path_child)
  qed
  then show ?thesis
    by (simp add: apply_control_def attr_at_def Let_def split: option.split)
qed (simp add: attr_at_no_path assms)

section \<open>Commands of other connections\<close>

text \<open>The reservation of an object and everything it declares and shows are as before.\<close>

definition keeps :: "object_reference \<Rightarrow> server \<Rightarrow> server \<Rightarrow> bool" where
  "keeps r s s' \<longleftrightarrow> sv_selections s' r = sv_selections s r \<and>
     (\<forall>name fc. settled name \<longrightarrow> attr_at (sv_model s') r name fc = attr_at (sv_model s) r name fc)"

definition sbo_object :: "model \<Rightarrow> object_reference \<Rightarrow> bool" where
  "sbo_object m r = (case declared_ctl_model m r of None \<Rightarrow> False | Some cm \<Rightarrow> has_select cm)"

lemma keeps_refl [simp]: "keeps r s s"
  by (simp add: keeps_def)

lemma keeps_trans [trans]: "keeps r a b \<Longrightarrow> keeps r b c \<Longrightarrow> keeps r a c"
  by (simp add: keeps_def)

lemma keeps_same: "sv_selections s' = sv_selections s \<Longrightarrow> sv_model s' = sv_model s \<Longrightarrow> keeps r s s'"
  by (simp add: keeps_def)

lemma keeps_declared: "keeps r s s' \<Longrightarrow> declared_ctl_model (sv_model s') r = declared_ctl_model (sv_model s) r"
  by (simp add: declared_ctl_model_def cf_value_attr_at keeps_def)

lemma keeps_sbo_object: "keeps r s s' \<Longrightarrow> sbo_object (sv_model s') r = sbo_object (sv_model s) r"
  by (simp add: sbo_object_def keeps_declared)

lemma keeps_handler_track: "keeps r s (fst st) \<Longrightarrow> keeps r s (fst (handler_track rq obj svc err ctx cause st))"
  by (simp add: keeps_def)

lemma keeps_send_to: "keeps r s s' \<Longrightarrow> keeps r s (send_to c f s')"
  by (simp add: keeps_def)

lemma keeps_refuse: "keeps r s s' \<Longrightarrow> keeps r s (fst (snd (refuse rq item obj svc ctx cause (s', ch))))"
  by (simp add: refuse_def keeps_handler_track keeps_send_to)

lemma keeps_select:
  assumes "obj \<noteq> r \<or> (\<exists>c n. holder (sv_selections s) r (rq_now rq) = Some (c, n) \<and> rq_conn rq \<noteq> c)"
    and "sv_selections s' = sv_selections s" "keeps r s s'"
  shows "keeps r s (fst (snd (select_command rq item obj timeout ctx (s', ch))))"
proof -
  let ?res = "reserve obj (rq_conn rq) (Some (ct_ctl_num ctx)) (or_select_timeout timeout) (rq_now rq) (sv_selections s')"
  have "snd ?res r = sv_selections s' r"
  proof (cases "obj = r")
    case True
    then obtain c n where "holder (sv_selections s') r (rq_now rq) = Some (c, n)" "rq_conn rq \<noteq> c"
      using assms(1,2) by auto
    from sbo.acquire_keeps(2) [OF this] True show ?thesis by simp
  qed (simp add: reserve_def)
  then have "keeps r s (s'\<lparr>sv_selections := snd ?res\<rparr>)"
    using assms(3) by (simp add: keeps_def)
  then show ?thesis
    by (simp add: select_command_def case_prod_beta keeps_refuse keeps_handler_track Let_def)
qed

lemma keeps_cancel:
  assumes "obj \<noteq> r \<or> (\<exists>c n. holder (sv_selections s) r (rq_now rq) = Some (c, n) \<and> rq_conn rq \<noteq> c)"
  shows "keeps r s (fst (snd (cancel_command rq item obj ctx (s, ch))))"
proof -
  have "keeps r s (s\<lparr>sv_selections := sel_clear obj (sv_selections s)\<rparr>)" if "obj \<noteq> r"
    using that by (simp add: keeps_def sel_clear_def)
  then show ?thesis
    using assms sbo.acquire_keeps(4)
    by (cases "obj = r") (auto simp: cancel_command_def Let_def keeps_refuse intro: keeps_handler_track)
qed

lemma keeps_conclude: "keeps r s (fst st) \<Longrightarrow> keeps r s (fst (conclude rq obj timeout ctx st))"
proof (cases st)
  case (Pair s' ch)
  assume "keeps r s (fst st)"
  then have "keeps r s (term_finish i cause s')" "keeps r s (term_supervise i limit s')" for i cause limit
    using Pair by (simp_all add: keeps_def)
  with Pair \<open>keeps r s (fst st)\<close> show ?thesis
    by (simp add: conclude_def keeps_handler_track split: option.split)
qed

lemma keeps_operate:
  assumes "obj \<noteq> r" "sv_selections s' = sv_selections s" "sv_model s' = sv_model s"
  shows "keeps r s (fst (snd (operate_command rq obj timeout ctx (s', ch))))"
proof -
  have "keeps r s (s'\<lparr>sv_model := fst (apply_control obj v (sv_model s', ch)),
      sv_selections := sel_clear obj (sv_selections s')\<rparr>)" for v
    using assms by (simp add: keeps_def sel_clear_def attr_at_apply_control)
  then show ?thesis
    by (simp add: operate_command_def case_prod_beta keeps_conclude keeps_handler_track)
qed

lemma keeps_execute:
  assumes "obj \<noteq> r \<or> ct_select ctx \<and> (\<exists>c n. holder (sv_selections s) r (rq_now rq) = Some (c, n) \<and> rq_conn rq \<noteq> c)"
  shows "keeps r s (fst (snd (execute_command rq item obj ph declared ctx (s, ch))))"
proof -
  define w where "w = with_termination rq item ph declared ctx s"
  define k where "k = call_handler obj (fst w) (snd w)"
  have k: "sv_selections (snd k) = sv_selections s" "sv_model (snd k) = sv_model s"
    by (simp_all add: k_def w_def)
  then have kk: "keeps r s (snd k)" by (simp add: keeps_same)
  have sel: "ct_select (fst w) = ct_select ctx" by (simp add: w_def)
  have r: "keeps r s (fst (snd (refuse rq item obj svc c cause
      (case ct_term c of Some i \<Rightarrow> term_discard i (snd k) | None \<Rightarrow> snd k, ch))))" for svc c cause
  proof (rule keeps_refuse)
    show "keeps r s (case ct_term c of Some i \<Rightarrow> term_discard i (snd k) | None \<Rightarrow> snd k)"
      using kk by (simp add: keeps_def split: option.split)
  qed
  have s: "keeps r s (fst (snd (select_command rq item obj t c (snd k, ch))))" if "ct_select ctx" for t c
    using assms k kk that by (intro keeps_select) auto
  have oo: "keeps r s (fst (snd (operate_command rq obj t c (snd k, ch))))" if "\<not> ct_select ctx" for t c
    using assms k that by (intro keeps_operate) auto
  have "execute_command rq item obj ph declared ctx (s, ch) =
      (if fst k \<noteq> AC_NONE then refuse rq item obj (phase_service ph) (fst w) (fst k)
         (case ct_term (fst w) of Some i \<Rightarrow> term_discard i (snd k) | None \<Rightarrow> snd k, ch)
       else if ct_select (fst w) then select_command rq item obj (cf_millis (sv_model s) obj (ascii ''sboTimeout'')) (fst w) (snd k, ch)
       else operate_command rq obj (cf_millis (sv_model s) obj (ascii ''operTimeout'')) (fst w) (snd k, ch))"
    by (simp add: execute_command_def case_prod_beta k_def w_def split: option.split)
  then show ?thesis
    using r s oo sel by simp
qed

lemma keeps_command:
  assumes "holder (sv_selections s) r (rq_now rq) = Some (c, n)" "rq_conn rq \<noteq> c" "sbo_object (sv_model s) r"
    and "ph \<noteq> Sbo" "ct_select ctx = (ph = Sbow)"
  shows "keeps r s (fst (snd (control_command rq item obj ph ctx (s, ch))))"
proof -
  have "keeps r s (fst (snd (execute_command rq item obj ph d ctx (s, ch))))" if "obj \<noteq> r \<or> ph = Sbow" for d
    using that assms by (intro keeps_execute) auto
  moreover have "keeps r s (fst (snd (cancel_command rq item obj ctx (s, ch))))"
    using assms by (intro keeps_cancel) auto
  moreover have "check_operate r (rq_conn rq) m (rq_now rq) (sv_selections s) \<noteq> AC_NONE" for m
    by (rule sbo.acquire_keeps(3) [OF assms(1,2)])
  ultimately show ?thesis
    using assms(3,4) by (cases ph; cases "obj = r")
      (auto simp: control_command_def Let_def keeps_refuse sbo_object_def split: option.splits)
qed

section \<open>Events\<close>

lemma split_control_phase: "split_control item = Some (base, ph) \<Longrightarrow> ph \<noteq> Sbo \<Longrightarrow> ph = Sbow \<or> ph = Oper \<or> ph = Cancel"
  by (cases ph) simp_all

lemma decode_origin_select [simp]: "ct_select (decode_origin v ctx) = ct_select ctx"
  by (simp add: decode_origin_def Let_def split: option.split)

lemma keeps_control_write:
  assumes "holder (sv_selections s) r (rq_now rq) = Some (c, n)" "rq_conn rq \<noteq> c" "sbo_object (sv_model s) r"
    and "control_write rq (s, ch) = Some (res, s', ch')"
  shows "keeps r s s'"
proof -
  have "keeps r s (fst (snd (control_command rq item obj ph (ctx\<lparr>ct_select := ph = Sbow\<rparr>) (s, ch))))" if "ph \<noteq> Sbo" for item obj ph ctx
    using assms that by (intro keeps_command) auto
  then show ?thesis
    using assms(4) by (auto simp: control_write_def Let_def split: option.splits if_splits) (metis fst_conv snd_conv)
qed

lemma keeps_control_request:
  assumes "holder (sv_selections s) r (rq_now rq) = Some (c, n)" "rq_conn rq \<noteq> c" "sbo_object (sv_model s) r"
    and "control_request invoke_id rq s = Some (out, s')"
  shows "keeps r s s'"
proof (cases "sv_conns s (rq_conn rq)")
  case (Some sc)
  define s1 where "s1 = s\<lparr>sv_conns := (sv_conns s)(rq_conn rq \<mapsto> begin_request sc)\<rparr>"
  obtain res s2 ch where w: "control_write rq (s1, Map.empty) = Some (res, s2, ch)"
    using assms(4) Some by (auto simp: control_request_def s1_def split: option.splits)
  have "keeps r s1 s2"
    using assms by (intro keeps_control_write [OF _ assms(2) _ w]) (simp_all add: s1_def)
  moreover have "keeps r s s1" by (simp add: s1_def keeps_same)
  moreover have "sv_selections s' = sv_selections s2" "sv_model s' = sv_model s2"
    using assms(4) Some w
    by (auto simp: control_request_def Let_def split: option.splits prod.splits if_splits simp flip: s1_def)
  ultimately show ?thesis
    by (metis keeps_trans keeps_same)
qed (use assms(4) in \<open>simp add: control_request_def\<close>)

lemma attr_at_track_selects [simp]:
  "settled name \<Longrightarrow> attr_at (fst (track_selects tk clk w k ps st)) r name fc = attr_at (fst st) r name fc"
  by (induction ps arbitrary: k st) simp_all

lemma keeps_flush: "keeps r s s' \<Longrightarrow> keeps r s (flush_read_tracking ps w s')"
  by (simp add: keeps_def flush_read_tracking_def case_prod_beta)

lemma keeps_read_one:
  assumes "holder (sv_selections s) r now = Some (c, n)" "conn \<noteq> c"
  shows "keeps r s (snd (snd (read_one conn domain item now s)))"
proof -
  have "snd (reserve obj conn None t now (sv_selections s)) r = sv_selections s r" for obj t
    using sbo.acquire_keeps(2) [OF assms] by (cases "obj = r") (auto simp: reserve_def)
  then have "keeps r s (snd (snd (sbo_select conn obj now s)))" for obj
    by (simp add: keeps_def sbo_select_def Let_def)
  then show ?thesis
    by (simp add: read_one_def case_prod_beta split: option.split prod.split phase.split)
qed

lemma keeps_read_list:
  assumes "sv_selections s r = Some sel" "conn \<noteq> sel_conn sel" "\<forall>t\<in>set targets. snd t < sel_expiry sel"
  shows "keeps r s (snd (snd (read_list conn targets s)))"
  using assms
proof (induction conn targets s rule: read_list.induct)
  case (3 conn domain item now ts s)
  define s1 where "s1 = snd (snd (read_one conn domain item now s))"
  have "holder (sv_selections s) r now = Some (sel_conn sel, sel_ctl_num sel)"
    using "3.prems" by (simp add: holder_def)
  then have k: "keeps r s s1"
    unfolding s1_def by (rule keeps_read_one) (rule "3.prems"(2))
  then have "sv_selections s1 r = Some sel" using "3.prems"(1) by (simp add: keeps_def)
  moreover obtain e ps where "read_one conn domain item now s = (e, ps, s1)" by (metis prod.collapse s1_def)
  ultimately show ?case
    using "3.IH" [of e "(ps, s1)" ps s1] "3.prems" keeps_trans [OF k] by (simp add: case_prod_beta)
qed (simp_all add: case_prod_beta)

lemma keeps_read_request:
  assumes "sv_selections s r = Some sel" "conn \<noteq> sel_conn sel" "\<forall>t\<in>set targets. snd t < sel_expiry sel"
  shows "keeps r s (snd (read_request invoke_id conn targets w s))"
proof (cases "sv_conns s conn")
  case (Some sc)
  let ?s0 = "s\<lparr>sv_conns := (sv_conns s)(conn \<mapsto> begin_request sc)\<rparr>"
  have "keeps r s ?s0" by (simp add: keeps_same)
  also have "keeps r ?s0 (snd (snd (read_list conn targets ?s0)))"
    using assms by (intro keeps_read_list) simp_all
  finally have k: "keeps r s (flush_read_tracking ps w (snd (snd (read_list conn targets ?s0))))" for ps
    by (rule keeps_flush)
  moreover have "keeps r s (x\<lparr>sv_conns := cn\<rparr>)" if "keeps r s x" for x cn
    using that by (simp add: keeps_def)
  ultimately show ?thesis
    using Some by (simp add: read_request_def case_prod_beta Let_def split: option.split)
qed (simp add: read_request_def)

lemma keeps_run_job: "keeps r s (run_job wall s)"
  by (simp add: keeps_def run_job_def case_prod_beta split: list.split)

lemma keeps_pump: "keeps r s (pump_conn c s)"
  by (auto simp: pump_conn_def intro: keeps_same split: option.split prod.split)

lemma keeps_end: "sv_selections s r = Some sel \<Longrightarrow> sel_conn sel \<noteq> c \<Longrightarrow> keeps r s (end_association c s)"
  by (simp add: keeps_def end_association_def release_conn_def)

text \<open>An event of another connection than \<open>c\<close>, before the reservation of \<open>c\<close> runs out.\<close>

fun foreign :: "conn_id \<Rightarrow> nat \<Rightarrow> ctl_event \<Rightarrow> bool" where
  "foreign c expiry (EvWrite i rq) \<longleftrightarrow> rq_conn rq \<noteq> c \<and> rq_now rq < expiry"
| "foreign c expiry (EvRead i conn targets w) \<longleftrightarrow> conn \<noteq> c \<and> (\<forall>t\<in>set targets. snd t < expiry)"
| "foreign c expiry (EvEnd c') \<longleftrightarrow> c' \<noteq> c"
| "foreign c expiry e \<longleftrightarrow> True"

lemma keeps_step:
  assumes "sv_selections s r = Some sel" "sbo_object (sv_model s) r" "foreign (sel_conn sel) (sel_expiry sel) e"
    and "ctl_step e s = Some s'"
  shows "keeps r s s'"
proof -
  have h: "holder (sv_selections s) r t = Some (sel_conn sel, sel_ctl_num sel)" if "t < sel_expiry sel" for t
    using assms(1) that by (simp add: holder_def)
  show ?thesis
  proof (cases e)
    case (EvWrite i rq)
    then show ?thesis using assms h [of "rq_now rq"] by (auto intro: keeps_control_request)
  next
    case (EvRead i conn targets w)
    then show ?thesis using assms by (auto intro: keeps_read_request)
  next
    case (EvEnd c)
    then show ?thesis using assms by (auto intro: keeps_end)
  qed (use assms in \<open>auto simp: keeps_run_job keeps_pump keeps_same split: if_splits\<close>)
qed

lemma keeps_run:
  assumes "sv_selections s r = Some sel" "sbo_object (sv_model s) r"
    and "\<forall>e\<in>set es. foreign (sel_conn sel) (sel_expiry sel) e" "ctl_run es s = Some s'"
  shows "keeps r s s'"
  using assms
proof (induction es arbitrary: s)
  case (Cons e es)
  then obtain s1 where s1: "ctl_step e s = Some s1" "ctl_run es s1 = Some s'"
    by (auto split: option.splits)
  have k: "keeps r s s1"
    using Cons.prems s1(1) by (intro keeps_step) auto
  then have "sv_selections s1 r = Some sel" "sbo_object (sv_model s1) r"
    using Cons.prems by (simp_all add: keeps_sbo_object) (simp add: keeps_def)
  then show ?case
    using Cons.IH [of s1] Cons.prems(3) s1(2) k by (auto intro: keeps_trans)
qed simp

end
