(* ===== verification/Server_Termination.thy ===== *)
theory Server_Termination
  imports Server_Exclusion
begin

text \<open>
  Terminations of enhanced-security operates: the invariant that a termination is sent at most
  once and that one still owed was taken over by the application, kept by every event; and that
  no request with a decoded value makes the server panic.
\<close>

section \<open>The invariant\<close>

text \<open>Terminations outside \<open>J\<close> are settled or deferred; a sent one is settled.\<close>

definition term_inv :: "nat set \<Rightarrow> server \<Rightarrow> bool" where
  "term_inv J s \<longleftrightarrow> distinct (map fst (sv_sent s)) \<and>
     (\<forall>i\<in>fst ` set (sv_sent s). i < length (sv_terms s) \<and> tm_done (sv_terms s ! i)) \<and>
     (\<forall>i<length (sv_terms s). i \<notin> J \<longrightarrow> \<not> tm_done (sv_terms s ! i) \<longrightarrow> tm_deferred (sv_terms s ! i))"

lemma term_inv_same:
  "sv_terms s' = sv_terms s \<Longrightarrow> sv_sent s' = sv_sent s \<Longrightarrow> term_inv J s' = term_inv J s"
  by (simp add: term_inv_def)

lemma term_inv_track [simp]: "term_inv J (fst (handler_track rq r svc err ctx cause st)) = term_inv J (fst st)"
  by (rule term_inv_same) simp_all

lemma term_inv_send [simp]: "term_inv J (send_to c f s) = term_inv J s"
  by (rule term_inv_same) simp_all

lemma term_inv_updates [simp]:
  "term_inv J (s\<lparr>sv_model := m\<rparr>) = term_inv J s" "term_inv J (s\<lparr>sv_selections := sel\<rparr>) = term_inv J s"
  "term_inv J (s\<lparr>sv_conns := cn\<rparr>) = term_inv J s" "term_inv J (s\<lparr>sv_reported := rp\<rparr>) = term_inv J s"
  "term_inv J (s\<lparr>sv_jobs := jb\<rparr>) = term_inv J s"
  by (rule term_inv_same; simp)+

text \<open>Settling one termination.\<close>

lemma term_inv_update:
  assumes "term_inv J s" "i < length (sv_terms s)"
    and "sv_terms s' = (sv_terms s)[i := t]" "tm_done t \<or> tm_deferred t \<or> i \<in> J"
    and "sv_sent s' = sv_sent s \<and> (tm_done (sv_terms s ! i) \<longrightarrow> tm_done t) \<or>
      sv_sent s' = sv_sent s @ [(i, cause)] \<and> \<not> tm_done (sv_terms s ! i) \<and> tm_done t"
  shows "term_inv J s'"
proof -
  define S where "S = fst ` set (sv_sent s)"
  have sent: "\<And>k. k \<in> S \<Longrightarrow> k < length (sv_terms s) \<and> tm_done (sv_terms s ! k)"
    and dist: "distinct (map fst (sv_sent s))"
    and rest: "\<And>k. k < length (sv_terms s) \<Longrightarrow> k \<notin> J \<Longrightarrow> \<not> tm_done (sv_terms s ! k) \<Longrightarrow> tm_deferred (sv_terms s ! k)"
    using assms(1) unfolding term_inv_def S_def [symmetric] by blast+
  have S': "fst ` set (sv_sent s') = S \<and> (tm_done (sv_terms s ! i) \<longrightarrow> tm_done t) \<or>
      fst ` set (sv_sent s') = insert i S \<and> tm_done t"
    using assms(5) by (elim disjE) (simp_all add: S_def)
  have "k < length (sv_terms s') \<and> tm_done (sv_terms s' ! k)" if "k \<in> fst ` set (sv_sent s')" for k
    using that S' sent [of k] sent [of i] assms(2,3) by (cases "k = i") auto
  moreover have "distinct (map fst (sv_sent s'))"
    using assms(5) dist sent [of i] by (elim disjE) (auto simp: S_def [symmetric])
  moreover have "tm_deferred (sv_terms s' ! k)"
    if "k < length (sv_terms s')" "k \<notin> J" "\<not> tm_done (sv_terms s' ! k)" for k
    using that assms(2,3,4) rest [of k] by (cases "k = i") simp_all
  ultimately show ?thesis by (simp add: term_inv_def)
qed

lemma term_inv_weaken: "term_inv J s \<Longrightarrow> J \<subseteq> K \<Longrightarrow> term_inv K s"
  by (auto simp: term_inv_def)

lemma term_inv_settled:
  "term_inv (insert i J) s \<Longrightarrow> i < length (sv_terms s) \<Longrightarrow> tm_done (sv_terms s ! i) \<or> tm_deferred (sv_terms s ! i) \<Longrightarrow> term_inv J s"
  by (auto simp: term_inv_def)

lemma term_finish_open:
  assumes "\<not> tm_done (sv_terms s ! i)"
  shows "sv_sent (term_finish i cause s) = sv_sent s @ [(i, cause)]"
    "sv_terms (term_finish i cause s) = (sv_terms s)[i := (sv_terms s ! i)\<lparr>tm_done := True, tm_timer := False\<rparr>]"
  using assms by (simp_all add: term_finish_def Let_def)

lemma term_finish_done: "tm_done (sv_terms s ! i) \<Longrightarrow> term_finish i cause s = s"
  by (simp add: term_finish_def)

lemma term_inv_finish:
  assumes "term_inv J s" "i < length (sv_terms s)"
  shows "term_inv J (term_finish i cause s)"
proof (cases "tm_done (sv_terms s ! i)")
  case False
  then show ?thesis
    using term_inv_update [OF assms, of "term_finish i cause s"] term_finish_open [OF False] by simp
qed (simp add: term_finish_done assms)

lemma term_finish_settles: "i < length (sv_terms s) \<Longrightarrow> tm_done (sv_terms (term_finish i cause s) ! i)"
  by (cases "tm_done (sv_terms s ! i)") (simp_all add: term_finish_done term_finish_open)

lemma term_inv_fold_finish:
  "term_inv J s \<Longrightarrow> i < length (sv_terms s) \<Longrightarrow>
    term_inv J (fold (term_finish i) causes s) \<and> length (sv_terms (fold (term_finish i) causes s)) = length (sv_terms s)"
  by (induction causes arbitrary: s) (simp_all add: term_inv_finish)

lemma term_inv_discard:
  assumes "term_inv (insert i J) s" "i < length (sv_terms s)"
  shows "term_inv J (term_discard i s)"
proof (rule term_inv_settled [of i])
  show "term_inv (insert i J) (term_discard i s)"
    using term_inv_update [OF assms] by (simp add: term_discard_def)
qed (simp_all add: term_discard_def assms)

lemma term_inv_defer:
  "term_inv J s \<Longrightarrow> i < length (sv_terms s) \<Longrightarrow> term_inv J (defer_termination i s)"
  using term_inv_update [of J s i "defer_termination i s"] by (simp add: defer_termination_def)

lemma term_inv_supervise:
  "term_inv J s \<Longrightarrow> i < length (sv_terms s) \<Longrightarrow> tm_deferred (sv_terms s ! i) \<Longrightarrow> term_inv J (term_supervise i limit s)"
  using term_inv_update [of J s i "s\<lparr>sv_terms := (sv_terms s)[i := (sv_terms s ! i)\<lparr>tm_timer := True\<rparr>]\<rparr>"
    "(sv_terms s ! i)\<lparr>tm_timer := True\<rparr>"] by (simp add: term_supervise_def)

lemma term_inv_use:
  assumes "term_inv J s" "\<forall>i. tm = Some i \<longrightarrow> i < length (sv_terms s)"
  shows "term_inv J (use_termination tm u s) \<and> length (sv_terms (use_termination tm u s)) = length (sv_terms s)"
proof -
  have "length (sv_terms (defer_termination i s)) = length (sv_terms s)" for i
    by (simp add: defer_termination_def)
  then show ?thesis
    using assms term_inv_fold_finish [OF term_inv_defer [OF assms(1)]]
    by (auto simp: use_termination_def split: option.split term_use.split)
qed

section \<open>Commands\<close>

lemma term_inv_refuse: "term_inv J s \<Longrightarrow> term_inv J (fst (snd (refuse rq item r svc ctx cause (s, ch))))"
  by (simp add: refuse_def)

lemma term_inv_cancel: "term_inv J s \<Longrightarrow> term_inv J (fst (snd (cancel_command rq item r ctx (s, ch))))"
  by (simp add: cancel_command_def Let_def term_inv_refuse)

lemma term_inv_select: "term_inv J s \<Longrightarrow> term_inv J (fst (snd (select_command rq item r t ctx (s, ch))))"
  by (simp add: select_command_def Let_def case_prod_beta term_inv_refuse)

lemma term_inv_conclude:
  assumes "term_inv (set_option (ct_term ctx)) s" "\<forall>i. ct_term ctx = Some i \<longrightarrow> i < length (sv_terms s)"
  shows "term_inv {} (fst (conclude rq r t ctx (s, ch)))"
proof (cases "ct_term ctx")
  case (Some i)
  then have i: "term_inv {i} s" "i < length (sv_terms s)" using assms by simp_all
  show ?thesis
  proof (cases "tm_deferred (sv_terms s ! i)")
    case True
    then have "term_inv {} s" using term_inv_settled [of i "{}" s] i by simp
    with True i show ?thesis by (simp add: conclude_def Some term_inv_supervise)
  next
    case False
    have "term_inv {} (term_finish i AC_NONE s)"
      using term_inv_settled [of i "{}" "term_finish i AC_NONE s"] term_inv_finish [OF i] term_finish_settles [OF i(2)] i(2)
      by simp
    with False Some show ?thesis by (simp add: conclude_def)
  qed
qed (use assms in \<open>simp add: conclude_def\<close>)

lemma term_inv_operate:
  "term_inv (set_option (ct_term ctx)) s \<Longrightarrow> \<forall>i. ct_term ctx = Some i \<longrightarrow> i < length (sv_terms s) \<Longrightarrow>
    term_inv {} (fst (snd (operate_command rq r t ctx (s, ch))))"
proof -
  assume a: "term_inv (set_option (ct_term ctx)) s" "\<forall>i. ct_term ctx = Some i \<longrightarrow> i < length (sv_terms s)"
  define st where "st = handler_track rq r ST_OPERATE SE_NO_ERROR ctx AC_NONE
      (s\<lparr>sv_model := fst (apply_control r (ct_value ctx) (sv_model s, ch)),
         sv_selections := sel_clear r (sv_selections s)\<rparr>, snd (apply_control r (ct_value ctx) (sv_model s, ch)))"
  have "term_inv (set_option (ct_term ctx)) (fst st)" "sv_terms (fst st) = sv_terms s"
    using a(1) by (simp_all add: st_def)
  then have "term_inv {} (fst (conclude rq r t ctx (fst st, snd st)))"
    using a(2) by (intro term_inv_conclude) simp_all
  then show ?thesis
    by (simp add: operate_command_def case_prod_beta st_def)
qed

lemma term_inv_execute:
  assumes "term_inv {} s" "ct_term ctx = None" "ct_select ctx \<longrightarrow> ph \<noteq> Oper"
  shows "term_inv {} (fst (snd (execute_command rq item r ph declared ctx (s, ch))))"
proof -
  define w where "w = with_termination rq item ph declared ctx s"
  define k where "k = call_handler r (fst w) (snd w)"
  have w: "term_inv (set_option (ct_term (fst w))) (snd w)" "\<forall>i. ct_term (fst w) = Some i \<longrightarrow> i < length (sv_terms (snd w))"
    using assms(1,2) by (auto simp: w_def with_termination_def term_inv_def nth_append)
  have k: "term_inv (set_option (ct_term (fst w))) (snd k)" "\<forall>i. ct_term (fst w) = Some i \<longrightarrow> i < length (sv_terms (snd k))"
    using term_inv_use [OF w] w by (auto simp: k_def call_handler_def case_prod_beta split: option.split)
  have d: "term_inv {} (case ct_term (fst w) of Some i \<Rightarrow> term_discard i (snd k) | None \<Rightarrow> snd k)"
    using k by (auto split: option.split intro: term_inv_discard)
  have n: "ct_term (fst w) = None" if "ct_select (fst w)"
    using that assms(2,3) by (auto simp: w_def with_termination_def split: if_splits)
  have "execute_command rq item r ph declared ctx (s, ch) =
      (if fst k \<noteq> AC_NONE then refuse rq item r (phase_service ph) (fst w) (fst k)
         (case ct_term (fst w) of Some i \<Rightarrow> term_discard i (snd k) | None \<Rightarrow> snd k, ch)
       else if ct_select (fst w) then select_command rq item r (cf_millis (sv_model s) r (ascii ''sboTimeout'')) (fst w) (snd k, ch)
       else operate_command rq r (cf_millis (sv_model s) r (ascii ''operTimeout'')) (fst w) (snd k, ch))"
    by (simp add: execute_command_def case_prod_beta k_def w_def split: option.split)
  then show ?thesis
    using k d n by (auto intro: term_inv_refuse term_inv_select term_inv_operate)
qed

lemma term_inv_command:
  assumes "term_inv {} s" "ct_term ctx = None" "ct_select ctx = (ph = Sbow)"
  shows "term_inv {} (fst (snd (control_command rq item r ph ctx (s, ch))))"
  using assms term_inv_execute [OF assms(1,2)]
  by (simp add: control_command_def Let_def term_inv_refuse term_inv_cancel split: option.split)

section \<open>Events\<close>

lemma decode_oper_fresh:
  "decode_oper r v conn peer = Some ctx \<Longrightarrow> ct_term ctx = None"
proof -
  have "ct_term (decode_origin w c) = ct_term c" for w c
    by (simp add: decode_origin_def Let_def split: option.split)
  then show "decode_oper r v conn peer = Some ctx \<Longrightarrow> ct_term ctx = None"
    by (auto simp: decode_oper_def decode_check_def Let_def empty_ctx_def split: option.splits if_splits)
qed

lemma term_inv_control_write:
  assumes "term_inv {} s" "control_write rq (s, ch) = Some (res, s', ch')"
  shows "term_inv {} s'"
proof -
  have "term_inv {} (fst (snd (control_command rq item r ph (ctx\<lparr>ct_select := ph = Sbow\<rparr>) (s, ch))))"
    if "ct_term ctx = None" for item r ph ctx
    using assms(1) that by (intro term_inv_command) simp_all
  then show ?thesis
    using assms by (auto simp: control_write_def Let_def split: option.splits if_splits)
      (metis decode_oper_fresh fst_conv snd_conv)
qed

lemma term_inv_control_request:
  assumes "term_inv {} s" "control_request invoke_id rq s = Some (out, s')"
  shows "term_inv {} s'"
proof (cases "sv_conns s (rq_conn rq)")
  case (Some sc)
  define s1 where "s1 = s\<lparr>sv_conns := (sv_conns s)(rq_conn rq \<mapsto> begin_request sc)\<rparr>"
  obtain res s2 ch where w: "control_write rq (s1, Map.empty) = Some (res, s2, ch)"
    using assms(2) Some by (auto simp: control_request_def s1_def split: option.splits)
  have "term_inv {} s2"
    using assms(1) by (intro term_inv_control_write [OF _ w]) (simp add: s1_def)
  moreover have "sv_terms s' = sv_terms s2" "sv_sent s' = sv_sent s2"
    using assms(2) Some w
    by (auto simp: control_request_def Let_def split: option.splits prod.splits if_splits simp flip: s1_def)
  ultimately show ?thesis using term_inv_same by blast
qed (use assms in \<open>simp add: control_request_def\<close>)

lemma read_list_touch [touch, simp]:
  "sv_terms (snd (snd (read_list conn ts s))) = sv_terms s" "sv_sent (snd (snd (read_list conn ts s))) = sv_sent s"
proof -
  have "sv_terms (snd (snd (read_one conn d i now s))) = sv_terms s" "sv_sent (snd (snd (read_one conn d i now s))) = sv_sent s"
    for d i now s
    by (auto simp: read_one_def sbo_select_def Let_def split: option.split phase.split)
  then have "sv_terms (snd (snd (read_list conn ts s))) = sv_terms s \<and> sv_sent (snd (snd (read_list conn ts s))) = sv_sent s"
  proof (induction ts arbitrary: s)
    case (Cons t ts)
    then show ?case by (cases t; cases "fst t") (auto simp: case_prod_beta)
  qed simp
  then show "sv_terms (snd (snd (read_list conn ts s))) = sv_terms s" "sv_sent (snd (snd (read_list conn ts s))) = sv_sent s"
    by simp_all
qed

lemma term_inv_read_request: "term_inv J (snd (read_request invoke_id conn ts w s)) = term_inv J s"
  by (rule term_inv_same) (simp_all add: read_request_def flush_read_tracking_def case_prod_beta Let_def split: option.split)

lemma term_inv_step:
  assumes "term_inv {} s" "ctl_step e s = Some s'"
  shows "term_inv {} s'"
  using assms
  by (cases e) (auto simp: term_inv_read_request run_job_def pump_conn_def end_association_def case_prod_beta
      intro: term_inv_control_request term_inv_finish split: if_splits option.splits list.splits)

lemma term_inv_run: "term_inv {} s \<Longrightarrow> ctl_run es s = Some s' \<Longrightarrow> term_inv {} s'"
  by (induction es arbitrary: s) (auto intro: term_inv_step split: option.splits)

section \<open>Every request is answered\<close>

text \<open>A written value as the decoder yields them.\<close>

fun event_ok :: "ctl_event \<Rightarrow> bool" where
  "event_ok (EvWrite i rq) = data_ok (rq_value rq)"
| "event_ok _ = True"

lemma value_bit_total: "data_ok v \<Longrightarrow> \<exists>b. value_bit v i = Some b"
  by (cases v; cases "i < value_bit_len v") (auto simp: bs_bit_wf)

lemma decode_oper_total:
  assumes "data_ok v"
  shows "\<exists>ctx. decode_oper r v conn peer = Some ctx"
proof -
  have "data_ok c" if "value_index v i = Some c" for c i
    using assms that by (cases v) (auto simp: value_index_def list_all_iff split: if_splits)
  then have "\<exists>ctx. decode_check c ctx0 = Some ctx" if "value_index v 5 = Some c" for c ctx0
    using that value_bit_total [of c 0] value_bit_total [of c 1] by (auto simp: decode_check_def)
  then show ?thesis
    by (auto simp: decode_oper_def Let_def split: option.split)
qed

lemma control_write_total:
  assumes "data_ok (rq_value rq)"
  shows "\<exists>res s' ch'. control_write rq (s, ch) = Some (res, s', ch')"
proof -
  have "control_write rq (s, ch) \<noteq> None"
    using decode_oper_total [OF assms]
    by (auto simp: control_write_def Let_def simp del: not_None_eq split: option.split)
  then show ?thesis by (metis not_None_eq prod.exhaust)
qed

lemma control_request_total:
  assumes "data_ok (rq_value rq)"
  shows "\<exists>out s'. control_request i rq s = Some (out, s')"
proof (cases "sv_conns s (rq_conn rq)")
  case (Some sc)
  obtain res s' ch' where "control_write rq (s\<lparr>sv_conns := (sv_conns s)(rq_conn rq \<mapsto> begin_request sc)\<rparr>, Map.empty) = Some (res, s', ch')"
    using control_write_total [OF assms] by blast
  with Some show ?thesis by (simp add: control_request_def Let_def case_prod_beta split: option.split)
qed (simp add: control_request_def)

lemma ctl_step_total: "event_ok e \<Longrightarrow> \<exists>s'. ctl_step e s = Some s'"
proof (cases e)
  case (EvWrite i rq)
  assume "event_ok e"
  then obtain out s' where "control_request i rq s = Some (out, s')"
    using control_request_total EvWrite by fastforce
  then show ?thesis using EvWrite by simp
qed simp_all

lemma ctl_run_total: "list_all event_ok es \<Longrightarrow> \<exists>s'. ctl_run es s = Some s'"
proof (induction es arbitrary: s)
  case (Cons e es)
  obtain s1 where "ctl_step e s = Some s1" using Cons.prems ctl_step_total by fastforce
  with Cons show ?case by simp
qed simp

end
