(* ===== verification/Server_Exchange.thy ===== *)
theory Server_Exchange
  imports Server_Termination
begin

text \<open>
  Whole exchanges of the control services: the command a write request carries, the PDUs that
  answer a refused operate and an accepted one, and what an accepted operate leaves behind.
\<close>

section \<open>The command of a request\<close>

definition command_of :: "ctl_request \<Rightarrow> server \<Rightarrow> (rust_string \<times> phase \<times> control_ctx) option" where
  "command_of rq s =
     (case split_control (rq_item rq) of
        None \<Rightarrow> None
      | Some (base, ph) \<Rightarrow>
          let r = control_ref (rq_domain rq) base in
          if ph = Sbo \<or> \<not> ends_with (rq_item rq) ([dollar] @ phase_name ph) \<or> type_of_value (rq_value rq) \<noteq> TyStructure \<or>
             attribute (sv_model s) (ref_child r (phase_name ph)) FcCo = None
          then None
          else map_option (\<lambda>ctx. (base, ph, ctx\<lparr>ct_select := ph = Sbow\<rparr>))
                 (decode_oper r (rq_value rq) (rq_conn rq) (peer_of (rq_conn rq) s)))"

abbreviation command_item :: "rust_string \<Rightarrow> phase \<Rightarrow> rust_string" where
  "command_item base ph \<equiv> base @ [dollar] @ phase_name ph"

lemma command_of_write:
  assumes "command_of rq s = Some (base, ph, ctx)"
  shows "control_write rq (s, ch) =
    Some (control_command rq (command_item base ph) (control_ref (rq_domain rq) base) ph ctx (s, ch))"
  using assms by (auto simp: command_of_def control_write_def Let_def split: option.splits if_splits)

lemma command_of_fields:
  "command_of rq s = Some (base, ph, ctx) \<Longrightarrow> ct_term ctx = None \<and> ct_select ctx = (ph = Sbow) \<and> ph \<noteq> Sbo"
  by (auto simp: command_of_def Let_def split: option.splits if_splits) (metis decode_oper_fresh)

lemma command_of_begin [simp]:
  "sv_conns s (rq_conn rq) = Some sc \<Longrightarrow>
     command_of rq (s\<lparr>sv_conns := (sv_conns s)(rq_conn rq \<mapsto> begin_request sc)\<rparr>) = command_of rq s"
  by (simp add: command_of_def peer_of_def begin_request_def Let_def split: option.split)

text \<open>An association with no request in progress.\<close>

definition idle :: "server_conn \<Rightarrow> bool" where
  "idle sc \<longleftrightarrow> sc_held sc = \<lparr>in_request = False, before = [], after = []\<rparr>"

text \<open>What the response to a request is made of once the command is carried out.\<close>

lemma control_request_command:
  assumes "sv_conns s (rq_conn rq) = Some sc" "command_of rq s = Some (base, ph, ctx)"
    and "control_command rq (command_item base ph) (control_ref (rq_domain rq) base) ph ctx
      (s\<lparr>sv_conns := (sv_conns s)(rq_conn rq \<mapsto> begin_request sc)\<rparr>, Map.empty) = (res, s', ch)"
    and "sv_conns s' (rq_conn rq) = Some sc'"
    and "finish_request invoke_id (Inr (cons (context_constructed SVC_WRITE) [write_result res])) sc' = (out, sc'')"
  shows "\<exists>rep. control_request invoke_id rq s =
    Some (out, s'\<lparr>sv_reported := rep, sv_conns := (sv_conns s')(rq_conn rq \<mapsto> sc'')\<rparr>)"
proof -
  have "control_write rq (s\<lparr>sv_conns := (sv_conns s)(rq_conn rq \<mapsto> begin_request sc)\<rparr>, Map.empty) = Some (res, s', ch)"
    using command_of_write [of rq _ base ph ctx] assms(1-3) by simp
  then have "control_request invoke_id rq s =
      Some (out, (if ch = Map.empty then s' else s'\<lparr>sv_reported := sv_reported s' @ [ch]\<rparr>)
        \<lparr>sv_conns := (sv_conns s')(rq_conn rq \<mapsto> sc'')\<rparr>)"
    using assms(1,4,5) by (simp add: control_request_def Let_def)
  then show ?thesis
    by (intro exI [of _ "if ch = Map.empty then sv_reported s' else sv_reported s' @ [ch]"]) simp
qed

section \<open>A refused operate\<close>

lemma refuse_conns:
  assumes "sv_conns s (rq_conn rq) = Some sc" "in_request (sc_held sc)"
  shows "sv_conns (fst (snd (refuse rq item r svc ctx cause (s, ch)))) = (sv_conns s)(rq_conn rq \<mapsto>
    sc\<lparr>sc_held := (sc_held sc)\<lparr>before := before (sc_held sc) @ [unconfirmed_pdu (last_appl_error_report (rq_domain rq) item ctx cause)]\<rparr>\<rparr>)"
  using assms by (simp add: refuse_def send_to_def send_unconfirmed_first_def send_held_in_request)

lemma refused_request:
  assumes sc: "sv_conns s (rq_conn rq) = Some sc" "idle sc"
    and cmd: "command_of rq s = Some (base, ph, ctx)"
    and ref: "\<And>st. sv_model (fst st) = sv_model s \<Longrightarrow> sv_selections (fst st) = sv_selections s \<Longrightarrow>
      control_command rq (command_item base ph) (control_ref (rq_domain rq) base) ph ctx st =
        refuse rq (command_item base ph) (control_ref (rq_domain rq) base) svc ctx cause st"
  shows "\<exists>s'. control_request invoke_id rq s =
      Some ([unconfirmed_pdu (last_appl_error_report (rq_domain rq) (command_item base ph) ctx cause),
             answer_pdu sc invoke_id (Inr (cons (context_constructed SVC_WRITE) [write_failure ObjectAccessDenied]))], s') \<and>
    (\<forall>r. keeps r s s') \<and> sv_sent s' = sv_sent s \<and> sv_terms s' = sv_terms s"
proof -
  let ?pdu = "unconfirmed_pdu (last_appl_error_report (rq_domain rq) (command_item base ph) ctx cause)"
  define s0 where "s0 = s\<lparr>sv_conns := (sv_conns s)(rq_conn rq \<mapsto> begin_request sc)\<rparr>"
  define sc1 where "sc1 = (begin_request sc)\<lparr>sc_held := \<lparr>in_request = True, before = [?pdu], after = []\<rparr>\<rparr>"
  obtain s1 ch where r: "refuse rq (command_item base ph) (control_ref (rq_domain rq) base) svc ctx cause (s0, Map.empty) =
      (Inl ObjectAccessDenied, s1, ch)"
    by (simp add: refuse_def) (metis prod.exhaust)
  have c: "sv_conns s0 (rq_conn rq) = Some (begin_request sc)" "in_request (sc_held (begin_request sc))"
    by (simp_all add: s0_def begin_request_def)
  have s1: "sv_conns s1 (rq_conn rq) = Some sc1"
    using refuse_conns [OF c, of _ _ svc ctx cause Map.empty] r sc(2)
    by (simp add: sc1_def begin_request_def idle_def) (metis fst_conv fun_upd_same snd_conv)
  have fin: "finish_request invoke_id (Inr (cons (context_constructed SVC_WRITE) [write_result (Inl ObjectAccessDenied)])) sc1 =
      ([?pdu, answer_pdu sc invoke_id (Inr (cons (context_constructed SVC_WRITE) [write_failure ObjectAccessDenied]))],
       sc1\<lparr>sc_held := \<lparr>in_request = False, before = [], after = []\<rparr>\<rparr>)"
    by (simp add: finish_request_def sc1_def write_result_def answer_pdu_def response_pdu_def begin_request_def)
  have "control_command rq (command_item base ph) (control_ref (rq_domain rq) base) ph ctx (s0, Map.empty) =
      (Inl ObjectAccessDenied, s1, ch)"
    using ref [of "(s0, Map.empty)"] r by (simp add: s0_def)
  from control_request_command [OF sc(1) cmd this [unfolded s0_def] s1 fin]
  obtain rep cn where "control_request invoke_id rq s = Some ([?pdu,
      answer_pdu sc invoke_id (Inr (cons (context_constructed SVC_WRITE) [write_failure ObjectAccessDenied]))],
      s1\<lparr>sv_reported := rep, sv_conns := cn\<rparr>)" by blast
  moreover have "keeps r s s1" for r
    using keeps_refuse [of r s s0 rq "command_item base ph" "control_ref (rq_domain rq) base" svc ctx cause Map.empty] r
    by (simp add: s0_def keeps_same)
  then have "keeps r s (s1\<lparr>sv_reported := rep, sv_conns := cn\<rparr>)" for r rep cn
    by (simp add: keeps_def)
  moreover have "sv_sent s1 = sv_sent s" "sv_terms s1 = sv_terms s"
    using arg_cong [OF r, of "sv_sent \<circ> fst \<circ> snd"] arg_cong [OF r, of "sv_terms \<circ> fst \<circ> snd"]
    by (simp_all add: refuse_def s0_def)
  ultimately show ?thesis by fastforce
qed

section \<open>An accepted operate\<close>

text \<open>The status an operate leaves behind.\<close>

lemma attr_at_operated:
  assumes "attribute m (ref_child r (ascii ''stVal'')) FcSt = Some da" "da_children da = []" "status_value da v = Some w"
  shows "attr_at (fst (apply_control r v (m, ch))) r (ascii ''stVal'') FcSt = Some (Some w)"
proof -
  obtain put where put: "attribute_mut m (ref_child r (ascii ''stVal'')) FcSt = Some (da, put)"
    using assms(1) attribute_mut_None [of m "ref_child r (ascii ''stVal'')" FcSt] attribute_mut_Some [of m "ref_child r (ascii ''stVal'')" FcSt]
    by (cases "attribute_mut m (ref_child r (ascii ''stVal'')) FcSt") auto
  then show ?thesis
    using assms(2,3) attribute_put [OF put, of "da_with_value (Some w) da"]
    by (simp add: apply_control_def attr_at_def attribute_value_def Let_def)
qed

lemma term_finish_conns:
  assumes "\<not> tm_done (sv_terms s ! i)"
  shows "sv_conns (term_finish i cause s) =
    sv_conns (send_to (tm_conn (sv_terms s ! i)) (send_unconfirmed (term_report (sv_terms s ! i) cause)) s)"
  using assms by (simp add: term_finish_def send_to_def Let_def split: option.split)

text \<open>Carrying out an operate whose termination the application did not take over.\<close>

lemma operate_effect:
  assumes "ct_term ctx = Some i" "i < length (sv_terms s)" "\<not> tm_done (sv_terms s ! i)" "\<not> tm_deferred (sv_terms s ! i)"
    and st: "attribute (sv_model s) (ref_child r (ascii ''stVal'')) FcSt = Some da" "da_children da = []"
      "status_value da (ct_value ctx) = Some w"
    and o: "operate_command rq r t ctx (s, ch) = (res, s', ch')"
  shows "res = Inr ()" "sv_selections s' = sel_clear r (sv_selections s)" "sv_sent s' = sv_sent s @ [(i, AC_NONE)]"
    "attr_at (sv_model s') r (ascii ''stVal'') FcSt = Some (Some w)"
    "sv_conns s' = sv_conns (send_to (tm_conn (sv_terms s ! i)) (send_unconfirmed (term_report (sv_terms s ! i) AC_NONE)) s)"
proof -
  define m where "m = apply_control r (ct_value ctx) (sv_model s, ch)"
  define s1 where "s1 = handler_track rq r ST_OPERATE SE_NO_ERROR ctx AC_NONE
    (s\<lparr>sv_model := fst m, sv_selections := sel_clear r (sv_selections s)\<rparr>, snd m)"
  have s1: "sv_terms (fst s1) = sv_terms s" "sv_sent (fst s1) = sv_sent s" "sv_conns (fst s1) = sv_conns s"
    "sv_selections (fst s1) = sel_clear r (sv_selections s)"
    by (simp_all add: s1_def)
  have a: "attr_at (sv_model (fst s1)) r (ascii ''stVal'') FcSt = Some (Some w)"
    using attr_at_operated [OF st] by (simp add: s1_def m_def)
  have e: "res = Inr ()" "(s', ch') = handler_track rq r ST_COMMAND_TERMINATION SE_NO_ERROR ctx AC_NONE
      (term_finish i AC_NONE (fst s1), snd s1)"
    using o assms(1,4) s1(1) by (auto simp: operate_command_def conclude_def case_prod_beta m_def s1_def)
  note s' = arg_cong [OF e(2), of fst, simplified]
  show "res = Inr ()" by (rule e(1))
  show "sv_selections s' = sel_clear r (sv_selections s)" "attr_at (sv_model s') r (ascii ''stVal'') FcSt = Some (Some w)"
    using s1(4) a by (simp_all add: s')
  show "sv_sent s' = sv_sent s @ [(i, AC_NONE)]"
    using term_finish_open(1) [of "fst s1" i AC_NONE] assms(3) s1 by (simp add: s')
  show "sv_conns s' = sv_conns (send_to (tm_conn (sv_terms s ! i)) (send_unconfirmed (term_report (sv_terms s ! i) AC_NONE)) s)"
    using term_finish_conns [of "fst s1" i AC_NONE] assms(3) s1 by (simp add: s' send_to_def split: option.split)
qed

lemma accepted_request:
  assumes sc: "sv_conns s (rq_conn rq) = Some sc" "idle sc" "length (sc_queue sc) < UNCONFIRMED_QUEUE_DEPTH"
    and cmd: "command_of rq s = Some (base, Oper, ctx)" and r: "r = control_ref (rq_domain rq) base"
    and adm: "declared_ctl_model (sv_model s) r = Some SboEnhanced" "admission (Some SboEnhanced) Oper ctx = None"
      "check_operate r (rq_conn rq) (ct_ctl_num ctx) (rq_now rq) (sv_selections s) = AC_NONE" "sv_controls s r = None"
    and st: "attribute (sv_model s) (ref_child r (ascii ''stVal'')) FcSt = Some da" "da_children da = []"
      "status_value da (ct_value ctx) = Some w"
  shows "\<exists>s'. control_request invoke_id rq s =
      Some ([answer_pdu sc invoke_id (Inr (cons (context_constructed SVC_WRITE) [prim (context_primitive 1) []]))], s') \<and>
    attr_at (sv_model s') r (ascii ''stVal'') FcSt = Some (Some w) \<and> sv_selections s' r = None \<and>
    map_option sc_queue (sv_conns s' (rq_conn rq)) =
      Some (sc_queue sc @ [unconfirmed_pdu (command_termination_report (rq_domain rq) (command_item base Oper) (rq_value rq))])"
proof -
  let ?pdu = "unconfirmed_pdu (command_termination_report (rq_domain rq) (command_item base Oper) (rq_value rq))"
  define t where "t = term_new (rq_conn rq) (rq_domain rq) (command_item base Oper) ctx (rq_value rq)"
  define s0 where "s0 = s\<lparr>sv_conns := (sv_conns s)(rq_conn rq \<mapsto> begin_request sc)\<rparr>"
  define s1 where "s1 = s0\<lparr>sv_terms := sv_terms s0 @ [t]\<rparr>"
  define ctx1 where "ctx1 = ctx\<lparr>ct_term := Some (length (sv_terms s0))\<rparr>"
  define sc1 where "sc1 = (begin_request sc)\<lparr>sc_held := \<lparr>in_request = True, before = [], after = [?pdu]\<rparr>\<rparr>"
  obtain res s2 ch where o: "operate_command rq r (cf_millis (sv_model s0) r (ascii ''operTimeout'')) ctx1 (s1, Map.empty) = (res, s2, ch)"
    by (metis prod.exhaust)
  have cc: "control_command rq (command_item base Oper) r Oper ctx (s0, Map.empty) = (res, s2, ch)"
    using adm o command_of_fields [OF cmd]
    by (simp add: control_command_def Let_def execute_command_def with_termination_def call_handler_def s0_def s1_def ctx1_def t_def is_enhanced_def)
  have ti: "sv_terms s1 ! length (sv_terms s0) = t" by (simp add: s1_def)
  have pre: "ct_term ctx1 = Some (length (sv_terms s0))" "length (sv_terms s0) < length (sv_terms s1)"
    "\<not> tm_done (sv_terms s1 ! length (sv_terms s0))" "\<not> tm_deferred (sv_terms s1 ! length (sv_terms s0))"
    by (simp_all add: ctx1_def s1_def t_def term_new_def)
  have st1: "attribute (sv_model s1) (ref_child r (ascii ''stVal'')) FcSt = Some da" "status_value da (ct_value ctx1) = Some w"
    using st by (simp_all add: s1_def s0_def ctx1_def)
  note eff = operate_effect [OF pre st1(1) st(2) st1(2) o, unfolded ti]
  have s2: "sv_conns s2 (rq_conn rq) = Some sc1"
    using sc(2) by (simp add: eff(5) s1_def s0_def send_to_def send_unconfirmed_def send_held_in_request begin_request_def sc1_def
        idle_def term_report_def t_def term_new_def)
  have fin: "finish_request invoke_id (Inr (cons (context_constructed SVC_WRITE) [write_result res])) sc1 =
      ([answer_pdu sc invoke_id (Inr (cons (context_constructed SVC_WRITE) [prim (context_primitive 1) []]))],
       sc1\<lparr>sc_held := \<lparr>in_request = False, before = [], after = []\<rparr>, sc_queue := sc_queue sc @ [?pdu]\<rparr>)"
    using sc(3) by (simp add: finish_request_def sc1_def write_result_def answer_pdu_def response_pdu_def begin_request_def try_send_def eff(1))
  from control_request_command [OF sc(1) cmd cc [unfolded s0_def r] s2 fin]
  obtain rep where out: "control_request invoke_id rq s =
      Some ([answer_pdu sc invoke_id (Inr (cons (context_constructed SVC_WRITE) [prim (context_primitive 1) []]))],
        s2\<lparr>sv_reported := rep, sv_conns := (sv_conns s2)(rq_conn rq \<mapsto>
          sc1\<lparr>sc_held := \<lparr>in_request = False, before = [], after = []\<rparr>, sc_queue := sc_queue sc @ [?pdu]\<rparr>)\<rparr>)" by blast
  show ?thesis
    by (rule exI, rule conjI, rule out) (simp add: eff(2,4) sel_clear_def)
qed

section \<open>Associations stay\<close>

text \<open>What a request never changes of the associations: which are there, their peer and PDU size.\<close>

definition conn_params :: "server \<Rightarrow> conn_id \<rightharpoonup> (ip_addr \<times> u16) option \<times> nat" where
  "conn_params s = (\<lambda>c. map_option (\<lambda>sc. (sc_peer sc, sc_max_pdu sc)) (sv_conns s c))"

lemma conn_params_same: "sv_conns s' = sv_conns s \<Longrightarrow> conn_params s' = conn_params s"
  by (simp add: conn_params_def)

lemma send_held_params: "sc_peer (snd (send_held b e sc)) = sc_peer sc" "sc_max_pdu (snd (send_held b e sc)) = sc_max_pdu sc"
  by (simp_all add: send_held_def hold_def try_send_def Let_def)

lemma conn_params_send [simp]:
  "conn_params (send_to c (send_unconfirmed e) s) = conn_params s"
  "conn_params (send_to c (send_unconfirmed_first e) s) = conn_params s"
  by (auto simp: conn_params_def send_to_def send_unconfirmed_def send_unconfirmed_first_def send_held_params split: option.split)

lemma conn_params_finish [simp]: "conn_params (term_finish i cause s) = conn_params s"
proof (cases "tm_done (sv_terms s ! i)")
  case False
  then have "conn_params (term_finish i cause s) =
      conn_params (send_to (tm_conn (sv_terms s ! i)) (send_unconfirmed (term_report (sv_terms s ! i) cause)) s)"
    by (intro conn_params_same term_finish_conns)
  then show ?thesis by simp
qed (simp add: term_finish_done)

lemma conn_params_ops [simp]:
  "conn_params (s\<lparr>sv_model := m\<rparr>) = conn_params s" "conn_params (s\<lparr>sv_selections := sel\<rparr>) = conn_params s"
  "conn_params (s\<lparr>sv_terms := ts\<rparr>) = conn_params s"
  "conn_params (term_discard i s) = conn_params s" "conn_params (defer_termination i s) = conn_params s"
  "conn_params (term_supervise i limit s) = conn_params s"
  by (simp_all add: conn_params_def defer_termination_def)

lemma conn_params_track [simp]: "conn_params (fst (handler_track rq r svc err ctx cause st)) = conn_params (fst st)"
  by (rule conn_params_same) simp

lemma conn_params_use [simp]: "conn_params (use_termination tm u s) = conn_params s"
proof -
  have "conn_params (fold (term_finish i) causes t) = conn_params t" for i causes t
    by (induction causes arbitrary: t) simp_all
  then show ?thesis by (simp add: use_termination_def split: option.split term_use.split)
qed

lemma conn_params_parts [simp]:
  "conn_params (fst (snd (refuse rq item r svc ctx cause (s, ch)))) = conn_params s"
  "conn_params (fst (snd (cancel_command rq item r ctx (s, ch)))) = conn_params s"
  "conn_params (fst (snd (select_command rq item r t ctx (s, ch)))) = conn_params s"
  "conn_params (snd (with_termination rq item ph d ctx s)) = conn_params s"
  "conn_params (snd (call_handler r ctx s)) = conn_params s"
  by (simp_all add: refuse_def cancel_command_def select_command_def with_termination_def call_handler_def case_prod_beta
      Let_def split: option.split)

lemma conn_params_conclude [simp]: "conn_params (fst (conclude rq r t ctx (s, ch))) = conn_params s"
  by (simp add: conclude_def split: option.split)

lemma conn_params_operate [simp]: "conn_params (fst (snd (operate_command rq r t ctx (s, ch)))) = conn_params s"
proof -
  have "conn_params (fst (conclude rq r t ctx st)) = conn_params (fst st)" for st
    by (cases st) simp
  then show ?thesis by (simp add: operate_command_def case_prod_beta)
qed

lemma conn_params_execute [simp]: "conn_params (fst (snd (execute_command rq item r ph d ctx (s, ch)))) = conn_params s"
  by (auto simp: execute_command_def case_prod_beta split: option.split)

lemma conn_params_write:
  assumes "control_write rq (s, ch) = Some (res, s', ch')"
  shows "conn_params s' = conn_params s"
proof -
  have "conn_params (fst (snd (control_command rq item r ph ctx (s, ch)))) = conn_params s" for item r ph ctx
    by (simp add: control_command_def Let_def split: option.split)
  then show ?thesis
    using assms by (auto simp: control_write_def Let_def split: option.splits if_splits) (metis fst_conv snd_conv)+
qed

lemma request_answered:
  assumes "data_ok (rq_value rq)" "sv_conns s (rq_conn rq) = Some sc"
  shows "\<exists>pdus res s'. control_request invoke_id rq s =
    Some (pdus @ [answer_pdu sc invoke_id (Inr (cons (context_constructed SVC_WRITE) [write_result res]))], s')"
proof -
  define s0 where "s0 = s\<lparr>sv_conns := (sv_conns s)(rq_conn rq \<mapsto> begin_request sc)\<rparr>"
  obtain res s1 ch where w: "control_write rq (s0, Map.empty) = Some (res, s1, ch)"
    using control_write_total [OF assms(1)] by blast
  have "conn_params s1 (rq_conn rq) = Some (sc_peer sc, sc_max_pdu sc)"
    using conn_params_write [OF w] by (simp add: conn_params_def s0_def begin_request_def)
  then obtain sc1 where sc1: "sv_conns s1 (rq_conn rq) = Some sc1" "sc_max_pdu sc1 = sc_max_pdu sc"
    by (auto simp: conn_params_def)
  then have "answer_pdu sc1 invoke_id (Inr e) = answer_pdu sc invoke_id (Inr e)" for e
    by (simp add: answer_pdu_def response_pdu_def)
  then show ?thesis
    using assms(2) w sc1(1)
    by (simp add: control_request_def s0_def finish_request_def Let_def) blast
qed

end
