(* ===== verification/Server_Correct.thy ===== *)
theory Server_Correct
  imports Server_Exchange
begin

text \<open>
  The correctness of the server: reservations of select-before-operate under any interleaving
  of requests, the answer to a refused and to an accepted operate, terminations, and the
  mapping between item names and the data model.
\<close>

section \<open>An example\<close>

definition leaf :: "string \<Rightarrow> fc \<Rightarrow> mms_value \<Rightarrow> data_attribute" where
  "leaf name fc v = DataAttribute (ascii name) fc [] (Some (type_of_value v)) [] [] 0 [] (Some v) 0"

definition sample_switch :: data_object where
  "sample_switch = DataObject (ascii ''Pos'') (ascii ''SPC'') []
     [leaf ''stVal'' FcSt (BooleanV False), leaf ''ctlModel'' FcCf (IntegerV 4),
      DataAttribute (ascii ''Oper'') FcCo [] None [] [] 0 [leaf ''ctlVal'' FcCo (BooleanV False)] None 0]"

definition sample_node :: logical_node where
  "sample_node = \<lparr>ln_name = ascii ''XC'', ln_class = ascii ''XCBR'', ln_objects = [sample_switch], ln_data_sets = [],
     ln_report_controls = [], ln_gse_controls = [], ln_sv_controls = [], ln_log_controls = [],
     ln_setting_control = None, ln_logs = []\<rparr>"

definition sample_model :: model where
  "sample_model = \<lparr>md_name = ascii ''IED'', md_devices = [\<lparr>ld_name = ascii ''LD'', ld_inst = ascii ''LD'', ld_nodes = [sample_node]\<rparr>],
     md_diagnostics = [], md_setting_groups = []\<rparr>"

definition sample_ref :: object_reference where "sample_ref = ascii ''LD/XC.Pos''"

definition sample_conn :: server_conn where
  "sample_conn = \<lparr>sc_peer = None, sc_max_pdu = 65000, sc_held = \<lparr>in_request = False, before = [], after = []\<rparr>, sc_queue = []\<rparr>"

definition sample_server :: "selections \<Rightarrow> server" where
  "sample_server sel = \<lparr>sv_model = sample_model, sv_tracker = tracker_build sample_model, sv_clock = 0, sv_selections = sel,
     sv_conns = [1 \<mapsto> sample_conn, 2 \<mapsto> sample_conn], sv_controls = Map.empty, sv_terms = [], sv_jobs = [],
     sv_reported = [], sv_sent = []\<rparr>"

definition sample_selection :: selection where
  "sample_selection = \<lparr>sel_conn = 1, sel_expiry = 1000, sel_ctl_num = Some 7\<rparr>"

definition sample_oper :: mms_value where
  "sample_oper = StructureV [BooleanV True, StructureV [IntegerV 2, OctetStringV []], UnsignedV 7,
     UtcTimeV (replicate 8 0), BooleanV False, BitStringV \<lparr>bs_bits = [0], bs_length = 2\<rparr>]"

definition sample_operate :: "conn_id \<Rightarrow> ctl_request" where
  "sample_operate c = \<lparr>rq_conn = c, rq_domain = ascii ''LD'', rq_item = ascii ''XC$CO$Pos$Oper'', rq_value = sample_oper,
     rq_now = 500, rq_wall = 0\<rparr>"

lemma sample_declared: "declared_ctl_model sample_model sample_ref = Some SboEnhanced"
  by code_simp

definition sample_ctx :: "conn_id \<Rightarrow> control_ctx" where
  "sample_ctx c = (case decode_oper sample_ref sample_oper c None of Some ctx \<Rightarrow> ctx | None \<Rightarrow> empty_ctx sample_ref c None)"

lemma sample_ok: "data_ok sample_oper"
  by (simp add: sample_oper_def bs_wf_def)

lemma sample_ctx_fields:
  "ct_ctl_num (sample_ctx c) = 7" "ct_value (sample_ctx c) = BooleanV True" "\<not> ct_test (sample_ctx c)"
  "ct_or_ident_len (sample_ctx c) = 0" "\<not> ct_select (sample_ctx c)"
  by (simp_all add: sample_ctx_def sample_oper_def decode_oper_def decode_origin_def decode_check_def value_index_def
      empty_ctx_def bs_bit_def Let_def)

lemma sample_command:
  "c \<in> {1, 2} \<Longrightarrow> command_of (sample_operate c) (sample_server sel) = Some (ascii ''XC$CO$Pos'', Oper, sample_ctx c)"
proof -
  assume c: "c \<in> {1, 2}"
  obtain ctx where d: "decode_oper sample_ref sample_oper c None = Some ctx"
    using decode_oper_total [OF sample_ok] by blast
  have "split_control (ascii ''XC$CO$Pos$Oper'') = Some (ascii ''XC$CO$Pos'', Oper)"
    "ends_with (ascii ''XC$CO$Pos$Oper'') ([dollar] @ phase_name Oper)"
    "control_ref (ascii ''LD'') (ascii ''XC$CO$Pos'') = sample_ref"
    "attribute sample_model (ref_child sample_ref (phase_name Oper)) FcCo \<noteq> None"
    by code_simp+
  moreover have "peer_of c (sample_server sel) = None"
    using c by (auto simp: peer_of_def sample_server_def sample_conn_def)
  moreover have "type_of_value sample_oper = TyStructure" by (simp add: sample_oper_def)
  ultimately show ?thesis
    using d sample_ctx_fields(5) [of c]
    by (simp add: command_of_def sample_operate_def sample_server_def sample_ctx_def)
qed

lemma sample_server_sel [simp]:
  "sv_model (sample_server sel) = sample_model" "sv_selections (sample_server sel) = sel" "sv_terms (sample_server sel) = []"
  "sv_sent (sample_server sel) = []" "sv_controls (sample_server sel) = Map.empty"
  "sv_conns (sample_server sel) = [1 \<mapsto> sample_conn, 2 \<mapsto> sample_conn]"
  by (simp_all add: sample_server_def)

lemma sample_operate_sel [simp]:
  "rq_conn (sample_operate c) = c" "rq_domain (sample_operate c) = ascii ''LD''" "rq_now (sample_operate c) = 500"
  "rq_value (sample_operate c) = sample_oper"
  by (simp_all add: sample_operate_def)

lemma sample_idle: "idle sample_conn" "length (sc_queue sample_conn) < UNCONFIRMED_QUEUE_DEPTH"
  by (simp_all add: idle_def sample_conn_def UNCONFIRMED_QUEUE_DEPTH_def)

lemma sample_control_ref: "control_ref (ascii ''LD'') (ascii ''XC$CO$Pos'') = sample_ref"
  by code_simp

lemma sample_admission: "admission (Some SboEnhanced) Oper (sample_ctx c) = None"
  by (simp add: admission_def sample_ctx_fields MAX_OR_IDENT_LEN_def)

section \<open>Reservations\<close>



text \<open>
  C10. An operate of an object that needs a select is refused when the association does not hold
  the selection with that control number: the client gets a LastApplError report with the
  cause and, behind it, the negative response, and nothing the object declares or shows, no
  reservation and no termination changes.
\<close>

theorem refused_operate:
  assumes "sv_conns s (rq_conn rq) = Some sc" "idle sc" "command_of rq s = Some (base, Oper, ctx)"
    and "declared_ctl_model (sv_model s) (control_ref (rq_domain rq) base) = Some cm" "has_select cm"
    and "admission (Some cm) Oper ctx = None"
    and "check_operate (control_ref (rq_domain rq) base) (rq_conn rq) (ct_ctl_num ctx) (rq_now rq) (sv_selections s) = cause"
      "cause \<noteq> AC_NONE"
  shows "\<exists>s'. control_request invoke_id rq s =
      Some ([unconfirmed_pdu (last_appl_error_report (rq_domain rq) (command_item base Oper) ctx cause),
             answer_pdu sc invoke_id (Inr (cons (context_constructed SVC_WRITE) [write_failure ObjectAccessDenied]))], s') \<and>
    (\<forall>r. keeps r s s') \<and> sv_sent s' = sv_sent s \<and> sv_terms s' = sv_terms s"
proof (rule refused_request [OF assms(1-3)])
  fix st :: "server \<times> change_set"
  assume "sv_model (fst st) = sv_model s" "sv_selections (fst st) = sv_selections s"
  then show "control_command rq (command_item base Oper) (control_ref (rq_domain rq) base) Oper ctx st =
      refuse rq (command_item base Oper) (control_ref (rq_domain rq) base) (phase_service Oper) ctx cause st"
    using assms(4-8) by (cases st) (simp add: control_command_def)
qed

theorem refused_operate_witness:
  "\<exists>s'. control_request 3 (sample_operate 2) (sample_server [sample_ref \<mapsto> sample_selection]) =
      Some ([unconfirmed_pdu (last_appl_error_report (ascii ''LD'') (command_item (ascii ''XC$CO$Pos'') Oper) (sample_ctx 2)
               AC_OBJECT_NOT_SELECTED),
             answer_pdu sample_conn 3 (Inr (cons (context_constructed SVC_WRITE) [write_failure ObjectAccessDenied]))], s') \<and>
    (\<forall>r. keeps r (sample_server [sample_ref \<mapsto> sample_selection]) s') \<and> sv_sent s' = [] \<and> sv_terms s' = []"
  using refused_operate [of "sample_server [sample_ref \<mapsto> sample_selection]" "sample_operate 2" sample_conn
      "ascii ''XC$CO$Pos''" "sample_ctx 2" SboEnhanced AC_OBJECT_NOT_SELECTED 3]
  by (simp add: sample_idle sample_command sample_control_ref sample_declared has_select_def sample_admission check_operate_def
      sample_selection_def)

text \<open>
  C8. An operate of a selected object with enhanced security, by the association that selected it
  and with its control number, is carried out: the client gets the positive response, the
  positive CommandTermination is queued behind it, the status takes the control value and the
  selection is used up. The application has no handler of its own for the object here.
\<close>

theorem accepted_operate:
  assumes "sv_conns s (rq_conn rq) = Some sc" "idle sc" "length (sc_queue sc) < UNCONFIRMED_QUEUE_DEPTH"
    and "command_of rq s = Some (base, Oper, ctx)" "r = control_ref (rq_domain rq) base"
    and "declared_ctl_model (sv_model s) r = Some SboEnhanced" "admission (Some SboEnhanced) Oper ctx = None"
    and "holder (sv_selections s) r (rq_now rq) = Some (rq_conn rq, n)" "n = None \<or> n = Some (ct_ctl_num ctx)"
    and "sv_controls s r = None"
    and "attribute (sv_model s) (ref_child r (ascii ''stVal'')) FcSt = Some da" "da_children da = []"
      "status_value da (ct_value ctx) = Some w"
  shows "\<exists>s'. control_request invoke_id rq s =
      Some ([answer_pdu sc invoke_id (Inr (cons (context_constructed SVC_WRITE) [prim (context_primitive 1) []]))], s') \<and>
    attr_at (sv_model s') r (ascii ''stVal'') FcSt = Some (Some w) \<and> sv_selections s' r = None \<and>
    map_option sc_queue (sv_conns s' (rq_conn rq)) =
      Some (sc_queue sc @ [unconfirmed_pdu (command_termination_report (rq_domain rq) (command_item base Oper) (rq_value rq))])"
proof -
  have "check_operate r (rq_conn rq) (ct_ctl_num ctx) (rq_now rq) (sv_selections s) = AC_NONE"
    using assms(8,9) by (auto simp: sbo.may_operate_iff)
  from accepted_request [OF assms(1-7) this assms(10-13)] show ?thesis .
qed

theorem accepted_operate_witness:
  "\<exists>s'. control_request 3 (sample_operate 1) (sample_server [sample_ref \<mapsto> sample_selection]) =
      Some ([answer_pdu sample_conn 3 (Inr (cons (context_constructed SVC_WRITE) [prim (context_primitive 1) []]))], s') \<and>
    attr_at (sv_model s') sample_ref (ascii ''stVal'') FcSt = Some (Some (BooleanV True)) \<and> sv_selections s' sample_ref = None \<and>
    map_option sc_queue (sv_conns s' 1) =
      Some [unconfirmed_pdu (command_termination_report (ascii ''LD'') (command_item (ascii ''XC$CO$Pos'') Oper) sample_oper)]"
proof -
  have "attribute sample_model (ref_child sample_ref (ascii ''stVal'')) FcSt = Some (leaf ''stVal'' FcSt (BooleanV False))"
    by code_simp
  moreover have "status_value (leaf ''stVal'' FcSt (BooleanV False)) (BooleanV True) = Some (BooleanV True)"
    by code_simp
  moreover have "sc_queue sample_conn = []" by (simp add: sample_conn_def)
  ultimately show ?thesis
    using accepted_operate [of "sample_server [sample_ref \<mapsto> sample_selection]" "sample_operate 1" sample_conn
        "ascii ''XC$CO$Pos''" "sample_ctx 1" sample_ref "Some 7" "leaf ''stVal'' FcSt (BooleanV False)" "BooleanV True" 3]
    by (simp add: sample_idle sample_command sample_control_ref sample_declared sample_admission holder_def
        sample_selection_def sample_ctx_fields leaf_def UNCONFIRMED_QUEUE_DEPTH_def)
qed

text \<open>
  C2. In every execution that starts with no operate pending, each operate with enhanced security
  is concluded at most once: no termination is sent twice, whatever the application, the timers
  and further requests do. One that has not been sent and not been dropped was deferred by the
  application, and finishing it then sends it, with the cause given.
\<close>

theorem termination_once:
  assumes "list_all event_ok es" "sv_terms s = []" "sv_sent s = []"
  shows "\<exists>s'. ctl_run es s = Some s' \<and> distinct (map fst (sv_sent s')) \<and>
    (\<forall>i<length (sv_terms s'). \<not> tm_done (sv_terms s' ! i) \<longrightarrow>
       tm_deferred (sv_terms s' ! i) \<and> i \<notin> fst ` set (sv_sent s') \<and>
       (\<forall>cause. \<exists>s''. ctl_step (EvFinish i cause) s' = Some s'' \<and> sv_sent s'' = sv_sent s' @ [(i, cause)]))"
proof -
  obtain s' where s': "ctl_run es s = Some s'"
    using assms(1) ctl_run_total by blast
  have "term_inv {} s" using assms(2,3) by (simp add: term_inv_def)
  from term_inv_run [OF this s'] have inv: "term_inv {} s'" .
  have "tm_deferred (sv_terms s' ! i)" "i \<notin> fst ` set (sv_sent s')" if "i < length (sv_terms s')" "\<not> tm_done (sv_terms s' ! i)" for i
    using inv that unfolding term_inv_def by blast+
  then have "\<forall>i<length (sv_terms s'). \<not> tm_done (sv_terms s' ! i) \<longrightarrow>
       tm_deferred (sv_terms s' ! i) \<and> i \<notin> fst ` set (sv_sent s') \<and>
       (\<forall>cause. \<exists>s''. ctl_step (EvFinish i cause) s' = Some s'' \<and> sv_sent s'' = sv_sent s' @ [(i, cause)])"
    by (simp add: term_finish_open(1))
  with s' inv show ?thesis unfolding term_inv_def by blast
qed

theorem termination_once_witness:
  "\<exists>s'. ctl_run [EvWrite 3 (sample_operate 1), EvFinish 0 AC_NONE] (sample_server [sample_ref \<mapsto> sample_selection]) = Some s' \<and>
    distinct (map fst (sv_sent s'))"
  using termination_once [of "[EvWrite 3 (sample_operate 1), EvFinish 0 AC_NONE]" "sample_server [sample_ref \<mapsto> sample_selection]"]
  by (simp add: sample_ok del: ctl_run.simps) blast



text \<open>
  C38. Reading \<open>SBO\<close> selects without looking the object up: for a logical device the server does
  not have, the client is told that the select succeeded, and the made-up name is entered into
  the table of reservations.
\<close>

theorem sbo_read_unchecked:
  assumes "split_control item = Some (base, Sbo)" "slash \<notin> set domain" "device (sv_model s) domain = None"
    and "r = control_ref domain base" "sv_selections s r = None"
  shows "case read_one conn domain item now s of (e, ps, s') \<Rightarrow>
    Some e = data_element (VisibleStringV r) \<and>
    sv_selections s' = (sv_selections s)(r \<mapsto> \<lparr>sel_conn = conn, sel_expiry = now + SELECT_TIMEOUT, sel_ctl_num = None\<rparr>)"
proof -
  have ld: "ref_ld (ref_child r name) = domain" for name
    using assms(2,4) by (simp add: control_ref_def ref_child_def ref_ld_def split_once_append Let_def)
  have "attribute (sv_model s) (ref_child r name) fc = None" for name fc
    by (simp add: attribute_def lookup_def ld assms(3))
  then have "declared_ctl_model (sv_model s) r = None" "cf_millis (sv_model s) r name = 0" for name
    by (simp_all add: declared_ctl_model_def cf_millis_def cf_value_def)
  moreover have "r \<noteq> []" using assms(4) by (simp add: control_ref_def Let_def)
  ultimately show ?thesis
    using assms(1,4,5) by (simp add: read_one_def sbo_select_def reserve_def or_select_timeout_def Let_def)
qed

theorem sbo_read_unchecked_witness:
  "case read_one 2 (ascii ''NOWHERE'') (ascii ''X$CO$Y$SBO'') 5 (sample_server Map.empty) of (e, ps, s') \<Rightarrow>
    Some e = data_element (VisibleStringV (ascii ''NOWHERE/X.Y'')) \<and>
    sv_selections s' = [ascii ''NOWHERE/X.Y'' \<mapsto> \<lparr>sel_conn = 2, sel_expiry = 5 + SELECT_TIMEOUT, sel_ctl_num = None\<rparr>]"
proof -
  have "split_control (ascii ''X$CO$Y$SBO'') = Some (ascii ''X$CO$Y'', Sbo)" "slash \<notin> set (ascii ''NOWHERE'')"
    "device sample_model (ascii ''NOWHERE'') = None" "control_ref (ascii ''NOWHERE'') (ascii ''X$CO$Y'') = ascii ''NOWHERE/X.Y''"
    by code_simp+
  then show ?thesis
    using sbo_read_unchecked [of "ascii ''X$CO$Y$SBO''" "ascii ''X$CO$Y''" "ascii ''NOWHERE''" "sample_server Map.empty"
        "ascii ''NOWHERE/X.Y''" 2 5] by simp
qed

section \<open>Items\<close>

text \<open>
  C18. Values and types agree: in a node whose leaves hold values of the kinds they declare, what
  a read of any item returns has the shape and the kinds of the type that is reported for the
  item, and an item that cannot be read does not exist.
\<close>

theorem read_fits_type:
  assumes "ln_typed ln"
  shows "case resolve_read_err ln item of
      Inr v \<Rightarrow> \<exists>ts. type_spec_for ln item = Some ts \<and> conforms ts v
    | Inl e \<Rightarrow> e = ObjectNonExistent"
  by (rule read_fits [OF assms])

lemma sample_node_typed: "ln_typed sample_node"
  by code_simp

theorem read_fits_type_witness:
  "\<exists>ts. type_spec_for sample_node (ascii ''XC$ST$Pos'') = Some ts \<and> conforms ts (StructureV [BooleanV False])"
proof -
  have "resolve_read_err sample_node (ascii ''XC$ST$Pos'') = Inr (StructureV [BooleanV False])"
    by code_simp
  with read_fits_type [OF sample_node_typed, of "ascii ''XC$ST$Pos''"] show ?thesis by simp
qed

text \<open>
  C19. A write is read back: the value stored through the attribute that a write addresses is what
  a read of the same item returns, at any depth of sub-objects and members, unless an object has
  a sub-object and an attribute of one name.
\<close>

theorem write_read_back:
  assumes "list_all names_apart (ln_objects ln)" "resolve_write ln item = Some (da, put)"
  shows "resolve_read_err (put (da_with_value (Some v) da)) item = Inr v"
  by (rule resolve_write_read [OF assms])

theorem write_read_back_witness:
  "\<exists>da put. resolve_write sample_node (ascii ''XC$CF$Pos$ctlModel'') = Some (da, put) \<and>
    resolve_read_err (put (da_with_value (Some (IntegerV 1)) da)) (ascii ''XC$CF$Pos$ctlModel'') = Inr (IntegerV 1)"
proof -
  have n: "list_all names_apart (ln_objects sample_node)"
    by code_simp
  have "\<not> Option.is_none (resolve_write sample_node (ascii ''XC$CF$Pos$ctlModel''))"
    by code_simp
  then obtain da put where "resolve_write sample_node (ascii ''XC$CF$Pos$ctlModel'') = Some (da, put)"
    by (cases "resolve_write sample_node (ascii ''XC$CF$Pos$ctlModel'')") auto
  with write_read_back [OF n this] show ?thesis by blast
qed

text \<open>
  C39. A sub-object one of whose members has no value is left out of the value of its object but
  not of its type: the client gets a structure with fewer members than it was told to expect,
  the mismatch that \<open>do_value\<close> is meant to rule out.
\<close>

theorem value_short_of_type:
  assumes "do_value d fc = Some v" "s \<in> set (do_objects d)" "has_fc s fc" "do_value s fc = None"
  shows "value_len v < length (ts_components (do_type_spec d fc)) \<and> \<not> conforms (do_type_spec d fc) v"
proof -
  have lt: "value_len v < length (ts_components (do_type_spec d fc))"
    by (rule do_value_fewer [OF assms])
  moreover have "\<not> conforms (do_type_spec d fc) v"
  proof
    assume c: "conforms (do_type_spec d fc) v"
    obtain cs where cs: "do_type_spec d fc = ts_structure cs" by (cases d) simp
    with c have "value_len v = length cs"
      by (auto simp: conforms_structure value_len_def dest: list_all2_lengthD)
    with lt cs show False by (simp add: ts_structure_def)
  qed
  ultimately show ?thesis ..
qed

definition sample_unknown :: data_object where
  "sample_unknown = DataObject (ascii ''phsA'') [] [] [DataAttribute (ascii ''x'') FcMx [] None (ascii ''Odd'') [] 0 [] None 0]"

definition sample_parent :: data_object where
  "sample_parent = DataObject (ascii ''A'') [] [sample_unknown] [leaf ''q'' FcMx (IntegerV 1)]"

theorem value_short_of_type_witness:
  "do_value sample_parent FcMx = Some (StructureV [IntegerV 1]) \<and>
   \<not> conforms (do_type_spec sample_parent FcMx) (StructureV [IntegerV 1])"
proof -
  have v: "do_value sample_parent FcMx = Some (StructureV [IntegerV 1])" "has_fc sample_unknown FcMx"
    "do_value sample_unknown FcMx = None"
    by code_simp+
  have "sample_unknown \<in> set (do_objects sample_parent)" by (simp add: sample_parent_def)
  from value_short_of_type [OF v(1) this v(2,3)] v(1) show ?thesis by simp
qed

end
