(* ===== verification/Server_Rcb.thy ===== *)
theory Server_Rcb
  imports Server_Conn Server_Access Server_Command "HOL-Library.AList"
begin

text \<open>
  Report control blocks and their runtime state: \<open>src/server/rcb.rs\<close>. A report entry has as many
  values and reasons as members, in ascending order of the members; every operation keeps this
  (\<open>entry_wf\<close>), so the insertions and slices of the code stay within bounds. An abort handle is
  whether one is stored, and a generation counter a number. The registry is an association list
  in the order in which the hash map iterates.

  The bit strings of flags are built by the code itself or come from the decoder, so converting
  them never panics (the locale \<open>flag_string\<close>); where the conversion is partial in the model the
  other case is left at no flags.

  Two fields of the runtime state are histories that the code does not have: \<open>rt_log\<close> lists the
  entries of a buffered block since its buffer was last purged or resynchronised, \<open>rt_past\<close> what
  became of each entry that is no longer waiting: \<open>Some\<close> with the BufOvfl of the report that was
  handed to the association completely, \<open>None\<close> for one that was not.
\<close>

section \<open>Entries\<close>

definition DEFAULT_BUFFERED_REPORTS :: nat where "DEFAULT_BUFFERED_REPORTS = 256"

record report_entry =
  re_id :: bytes
  re_time :: system_time
  re_members :: "nat list"
  re_values :: "mms_value list"
  re_reasons :: "reason_code list"

definition entry_new :: "system_time \<Rightarrow> report_entry" where
  "entry_new now = \<lparr>re_id = [], re_time = now, re_members = [], re_values = [], re_reasons = []\<rparr>"

definition insert_at :: "nat \<Rightarrow> 'a \<Rightarrow> 'a list \<Rightarrow> 'a list" where
  "insert_at i x xs = take i xs @ x # drop i xs"

text \<open>\<open>partition_point\<close> on members that are in order.\<close>

definition partition_point :: "('a \<Rightarrow> bool) \<Rightarrow> 'a list \<Rightarrow> nat" where
  "partition_point P xs = length (takeWhile P xs)"

definition entry_insert :: "nat \<Rightarrow> mms_value \<Rightarrow> reason_code \<Rightarrow> report_entry \<Rightarrow> report_entry" where
  "entry_insert idx v r e =
     (let at = partition_point (\<lambda>m. m < idx) (re_members e)
      in e\<lparr>re_members := insert_at at idx (re_members e), re_values := insert_at at v (re_values e),
           re_reasons := insert_at at r (re_reasons e)\<rparr>)"

definition entry_merge :: "report_entry \<Rightarrow> report_entry \<Rightarrow> report_entry" where
  "entry_merge e other =
     fold (\<lambda>((idx, v), r). entry_insert idx v r) (zip (zip (re_members other) (re_values other)) (re_reasons other)) e"

definition overlaps :: "report_entry \<Rightarrow> report_entry \<Rightarrow> bool" where
  "overlaps e other \<longleftrightarrow> list_ex (\<lambda>m. m \<in> set (re_members e)) (re_members other)"

section \<open>Runtime state\<close>

record rcb_runtime =
  rt_enabled :: bool
  rt_conn :: "conn_id option"
  rt_owner :: "conn_id option"
  rt_owner_ip :: "ip_addr option"
  rt_resv_ip :: "ip_addr option"
  rt_resv_cfg :: bool
  rt_resv_timer :: bool
  rt_resv_gen :: nat
  rt_sq_num :: u32
  rt_integrity :: bool
  rt_integrity_gen :: nat
  rt_pending :: "report_entry option"
  rt_pending_timer :: bool
  rt_pending_gen :: nat
  rt_buffer :: "report_entry list"
  rt_next :: nat
  rt_resync_id :: "bytes option"
  rt_buf_overflow :: bool
  rt_log :: "report_entry list"
  rt_past :: "(report_entry \<times> bool option) list"

definition runtime_default :: rcb_runtime where
  "runtime_default =
     \<lparr>rt_enabled = False, rt_conn = None, rt_owner = None, rt_owner_ip = None, rt_resv_ip = None, rt_resv_cfg = False,
      rt_resv_timer = False, rt_resv_gen = 0, rt_sq_num = 0, rt_integrity = False, rt_integrity_gen = 0,
      rt_pending = None, rt_pending_timer = False, rt_pending_gen = 0, rt_buffer = [], rt_next = 0,
      rt_resync_id = None, rt_buf_overflow = False, rt_log = [], rt_past = []\<rparr>"

fun position :: "('a \<Rightarrow> bool) \<Rightarrow> 'a list \<Rightarrow> nat option" where
  "position P [] = None"
| "position P (x # xs) = (if P x then Some 0 else map_option Suc (position P xs))"

definition buffer_index :: "bytes \<Rightarrow> rcb_runtime \<Rightarrow> nat option" where
  "buffer_index i st = position (\<lambda>e. re_id e = i) (rt_buffer st)"

definition purge :: "rcb_runtime \<Rightarrow> rcb_runtime" where
  "purge st = st\<lparr>rt_buffer := [], rt_next := 0, rt_buf_overflow := False, rt_resync_id := None,
     rt_log := [], rt_past := []\<rparr>"

definition stop_resv_timer :: "rcb_runtime \<Rightarrow> rcb_runtime" where
  "stop_resv_timer st = st\<lparr>rt_resv_timer := False, rt_resv_gen := rt_resv_gen st + 1\<rparr>"

definition allowed :: "conn_id \<Rightarrow> ip_addr option \<Rightarrow> rcb_runtime \<Rightarrow> bool" where
  "allowed conn ip st =
     (case (rt_owner st, rt_resv_ip st) of
        (Some o', _) \<Rightarrow> o' = conn
      | (None, Some r) \<Rightarrow> ip = Some r
      | (None, None) \<Rightarrow> True)"

definition stop_integrity :: "rcb_runtime \<Rightarrow> rcb_runtime" where
  "stop_integrity st = st\<lparr>rt_integrity := False, rt_integrity_gen := rt_integrity_gen st + 1\<rparr>"

record rcb_state =
  rs_domain :: rust_string
  rs_item :: rust_string
  rs_ln_name :: rust_string
  rs_object_name :: rust_string
  rs_buffered :: bool
  rs_max_buffer :: nat
  rs_state :: rcb_runtime

definition registry_key :: "rust_string \<Rightarrow> rust_string \<Rightarrow> rust_string" where
  "registry_key domain item = domain @ [0] @ item"

definition buffer_depth :: "report_control \<Rightarrow> nat \<Rightarrow> nat" where
  "buffer_depth rc server_default =
     (if rc_max_queue_size rc > 0 then rc_max_queue_size rc
      else if server_default > 0 then server_default
      else DEFAULT_BUFFERED_REPORTS)"

type_synonym rcb_registry = "(rust_string \<times> rcb_state) list"

section \<open>Values\<close>

definition or_no_value :: "mms_value option \<Rightarrow> mms_value" where
  "or_no_value v = (case v of None \<Rightarrow> NoneV | Some w \<Rightarrow> w)"

definition make_entry_id :: "u64 \<Rightarrow> bytes" where
  "make_entry_id n = to_be_bytes n"

text \<open>\<open>to_ipv4_mapped\<close>: an address of the form \<open>::ffff:a.b.c.d\<close>.\<close>

definition ip_octets :: "ip_addr option \<Rightarrow> bytes" where
  "ip_octets ip =
     (case ip of
        None \<Rightarrow> []
      | Some (IpV4 a) \<Rightarrow> a
      | Some (IpV6 a) \<Rightarrow> if take 12 a = replicate 10 0 @ [0xff, 0xff] then drop 12 a else a)"

definition rpt_id_of :: "rust_string \<Rightarrow> rust_string \<Rightarrow> rust_string \<Rightarrow> rust_string" where
  "rpt_id_of attr domain item = (if attr = [] then domain @ [slash] @ item else attr)"

definition rcb_key :: "rust_string \<Rightarrow> rust_string \<Rightarrow> (rust_string \<times> rust_string) option" where
  "rcb_key domain item =
     (case split_on dollar item of
        ln # fc # name # attrs \<Rightarrow>
          if fc \<noteq> ascii ''RP'' \<and> fc \<noteq> ascii ''BR'' then None
          else Some (registry_key domain (ln @ [dollar] @ fc @ [dollar] @ name),
                     case attrs of [] \<Rightarrow> [] | attr # _ \<Rightarrow> attr)
      | _ \<Rightarrow> None)"

section \<open>Materialising the control blocks of a model\<close>

text \<open>\<open>{:02}\<close> of a number.\<close>

definition two_digits :: "nat \<Rightarrow> rust_string" where
  "two_digits n = (let d = ascii (decimal n) in if length d < 2 then ascii ''0'' @ d else d)"

definition rcb_instance_names :: "report_control \<Rightarrow> rust_string list" where
  "rcb_instance_names rc =
     (if rc_not_indexed rc then [rc_name rc]
      else map (\<lambda>i. rc_name rc @ two_digits i) [1..<max (rc_rpt_enabled rc) 1 + 1])"

definition binary_time_epoch :: system_time where
  "binary_time_epoch = from_unix (BINARY_TIME_EPOCH_DAYS * 86400) 0"

definition rcb_attr :: "fc \<Rightarrow> string \<times> mms_value \<Rightarrow> data_attribute" where
  "rcb_attr fc = (\<lambda>(name, v). DataAttribute (ascii name) fc [] (Some (type_of_value v)) [] [] 0 [] (Some v) 0)"

definition build_rcb_object ::
    "rust_string \<Rightarrow> rust_string \<Rightarrow> report_control \<Rightarrow> fc \<Rightarrow> rust_string \<Rightarrow> data_object" where
  "build_rcb_object ld_name' ln_name' rc fc inst_name =
     (let ds_ref = (if rc_data_set rc = [] then [] else ld_name' @ [slash] @ ln_name' @ [dollar] @ rc_data_set rc);
          opt0 = (if rc_opt_flds rc = 0 then OPT_DEFAULT else rc_opt_flds rc);
          trg = (if rc_trg_ops rc = 0 then TRG_DATA_CHANGE OR TRG_QUALITY_CHANGE OR TRG_GI else rc_trg_ops rc);
          opt = (if rc_buffered rc then opt0 OR (OPT_ENTRY_ID OR OPT_TIME_OF_ENTRY OR OPT_BUF_OVFL) else opt0)
      in DataObject inst_name [] []
           (map (rcb_attr fc)
             (if rc_buffered rc then
                [(''RptID'', VisibleStringV (rc_rpt_id rc)), (''RptEna'', BooleanV False), (''DatSet'', VisibleStringV ds_ref),
                 (''ConfRev'', UnsignedV (ucast (rc_conf_rev rc))), (''OptFlds'', or_no_value (opt_value opt)),
                 (''BufTm'', UnsignedV (ucast (rc_buf_time rc))), (''SqNum'', UnsignedV 0),
                 (''TrgOps'', or_no_value (trg_value trg)), (''IntgPd'', UnsignedV (ucast (rc_intg_pd rc))),
                 (''GI'', BooleanV False), (''PurgeBuf'', BooleanV False), (''Owner'', OctetStringV []),
                 (''EntryID'', OctetStringV (replicate 8 0)), (''TimeofEntry'', binary_time binary_time_epoch),
                 (''ResvTms'', IntegerV 0)]
              else
                [(''RptID'', VisibleStringV (rc_rpt_id rc)), (''RptEna'', BooleanV False), (''Resv'', BooleanV False),
                 (''DatSet'', VisibleStringV ds_ref), (''ConfRev'', UnsignedV (ucast (rc_conf_rev rc))),
                 (''OptFlds'', or_no_value (opt_value opt)), (''BufTm'', UnsignedV (ucast (rc_buf_time rc))),
                 (''SqNum'', UnsignedV 0), (''TrgOps'', or_no_value (trg_value trg)),
                 (''IntgPd'', UnsignedV (ucast (rc_intg_pd rc))), (''GI'', BooleanV False)])))"

definition reserved_attr :: "ip_addr \<Rightarrow> data_attribute \<Rightarrow> data_attribute" where
  "reserved_attr ip a =
     (if da_name a = ascii ''ResvTms'' then da_with_value (Some (IntegerV (- 1))) a
      else if da_name a = ascii ''Owner'' then da_with_value (Some (OctetStringV (ip_octets (Some ip)))) a
      else if da_name a = ascii ''Resv'' then da_with_value (Some (BooleanV True)) a
      else a)"

definition reservation_ip :: "report_control \<Rightarrow> nat \<Rightarrow> ip_addr option" where
  "reservation_ip rc i =
     (if i < length (rc_reservations rc) then (case rc_reservations rc ! i of None \<Rightarrow> None | Some r \<Rightarrow> cr_ip r) else None)"

definition materialise_instance ::
    "nat \<Rightarrow> rust_string \<Rightarrow> report_control \<Rightarrow> nat \<times> rust_string \<Rightarrow> logical_node \<times> rcb_registry \<Rightarrow> logical_node \<times> rcb_registry" where
  "materialise_instance buf_default ld_name' rc = (\<lambda>(i, inst_name) (ln, reg).
     let fc = (if rc_buffered rc then FcBr else FcRp);
         obj = build_rcb_object ld_name' (ln_name ln) rc fc inst_name;
         item = ln_name ln @ [dollar] @ fc_as_str fc @ [dollar] @ inst_name;
         (obj', rt) = (case reservation_ip rc i of
             None \<Rightarrow> (obj, runtime_default)
           | Some ip \<Rightarrow> (do_with_attributes (map (reserved_attr ip) (do_attributes obj)) obj,
               runtime_default\<lparr>rt_resv_ip := Some ip, rt_resv_cfg := True\<rparr>))
     in (ln\<lparr>ln_objects := ln_objects ln @ [obj']\<rparr>,
         AList.update (registry_key ld_name' item)
           \<lparr>rs_domain = ld_name', rs_item = item, rs_ln_name = ln_name ln, rs_object_name = inst_name,
            rs_buffered = rc_buffered rc, rs_max_buffer = buffer_depth rc buf_default, rs_state = rt\<rparr> reg))"

definition materialise_control ::
    "nat \<Rightarrow> rust_string \<Rightarrow> report_control \<Rightarrow> logical_node \<times> rcb_registry \<Rightarrow> logical_node \<times> rcb_registry" where
  "materialise_control buf_default ld_name' rc =
     fold (materialise_instance buf_default ld_name' rc) (List.enumerate 0 (rcb_instance_names rc))"

definition materialise_node :: "nat \<Rightarrow> rust_string \<Rightarrow> logical_node \<Rightarrow> rcb_registry \<Rightarrow> logical_node \<times> rcb_registry" where
  "materialise_node buf_default ld_name' ln reg =
     fold (materialise_control buf_default ld_name') (ln_report_controls ln) (ln, reg)"

fun materialise_each :: "('a \<Rightarrow> rcb_registry \<Rightarrow> 'a \<times> rcb_registry) \<Rightarrow> 'a list \<Rightarrow> rcb_registry \<Rightarrow> 'a list \<times> rcb_registry" where
  "materialise_each f [] reg = ([], reg)"
| "materialise_each f (x # xs) reg =
     (case f x reg of (x', reg1) \<Rightarrow> (case materialise_each f xs reg1 of (xs', reg2) \<Rightarrow> (x' # xs', reg2)))"

definition materialise_rcbs :: "nat \<Rightarrow> model \<Rightarrow> model \<times> rcb_registry" where
  "materialise_rcbs buf_default m =
     (case materialise_each (\<lambda>ld reg.
         case materialise_each (materialise_node buf_default (ld_name ld)) (ld_nodes ld) reg of
           (lns, reg') \<Rightarrow> (ld\<lparr>ld_nodes := lns\<rparr>, reg')) (md_devices m) [] of
        (lds, reg) \<Rightarrow> (m\<lparr>md_devices := lds\<rparr>, reg))"

end
