(* ===== verification/Server_Reporting.thy ===== *)
theory Server_Reporting
  imports Server_Rcb
begin

text \<open>
  The report engine: \<open>src/server/reporting.rs\<close>. The operations work on the engine, which has the
  model, the connection table and the EntryID source, and on the runtime state of one block; the
  locks are held for the whole of each operation, so it is one step. A timer task is the key of
  its block and the generation it was started with, and its turn is an operation of its own that
  may come at any time: what keeps an outdated task from acting is the generation, and aborting
  it only saves the turn.

  \<open>en_clock\<close> lists the readings of the system clock. \<open>en_owner\<close> and \<open>en_runtime\<close> say whether the
  engine is tied to a server and has a runtime to start tasks on. \<open>en_show\<close> is the \<open>Display\<close> text of
  a value that is not a string, which \<open>Value::text\<close> falls back to; it is not modelled.
\<close>

section \<open>The engine\<close>

record ds_member =
  dm_domain :: rust_string
  dm_item :: rust_string

record report_engine =
  en_model :: model
  en_conns :: "conn_id \<rightharpoonup> server_conn"
  en_counter :: u64
  en_seed :: u64
  en_clock :: "nat \<Rightarrow> system_time"
  en_reads :: nat
  en_owner :: bool
  en_runtime :: bool
  en_show :: "mms_value \<Rightarrow> rust_string"

type_synonym block = "report_engine \<times> rcb_runtime"

definition value_text :: "(mms_value \<Rightarrow> rust_string) \<Rightarrow> mms_value \<Rightarrow> rust_string" where
  "value_text show' v =
     (case v of VisibleStringV b \<Rightarrow> utf8_lossy b | MmsStringV b \<Rightarrow> utf8_lossy b | GeneralizedTimeV b \<Rightarrow> utf8_lossy b
      | _ \<Rightarrow> show' v)"

definition system_now :: "report_engine \<Rightarrow> system_time \<times> report_engine" where
  "system_now E = (en_clock E (en_reads E), E\<lparr>en_reads := en_reads E + 1\<rparr>)"

definition SUPPORTED_OPT_FLDS :: opt_flds where
  "SUPPORTED_OPT_FLDS = OPT_SEQ_NUM OR OPT_TIME_OF_ENTRY OR OPT_REASON_CODE OR OPT_DATA_SET_NAME OR
     OPT_DATA_REF OR OPT_BUF_OVFL OR OPT_ENTRY_ID OR OPT_CONF_REV"

definition RCB_SETTINGS :: "rust_string list" where
  "RCB_SETTINGS = map ascii [''RptID'', ''DatSet'', ''OptFlds'', ''BufTm'', ''TrgOps'', ''IntgPd'', ''PurgeBuf'', ''EntryID'',
     ''ResvTms'']"

definition RCB_READ_ONLY :: "rust_string list" where
  "RCB_READ_ONLY = map ascii [''ConfRev'', ''SqNum'', ''TimeofEntry'', ''Owner'']"

definition CHANGE_TRIGGERS :: trg_ops where
  "CHANGE_TRIGGERS = TRG_DATA_CHANGE OR TRG_QUALITY_CHANGE OR TRG_DATA_UPDATE"

definition effective_opt_flds :: "opt_flds \<Rightarrow> bool \<Rightarrow> opt_flds" where
  "effective_opt_flds opt buffered =
     (let o' = opt AND SUPPORTED_OPT_FLDS
      in if \<not> buffered then o' AND NOT (OPT_BUF_OVFL OR OPT_ENTRY_ID) else o')"

text \<open>The entries of a change set in the order in which the hash map iterates.\<close>

type_synonym changes = "((object_reference \<times> fc) \<times> trg_ops) list"

definition touches :: "object_reference \<Rightarrow> object_reference \<Rightarrow> bool" where
  "touches reference changed \<longleftrightarrow>
     changed = reference \<or> starts_with changed (reference @ [dot]) \<or> starts_with reference (changed @ [dot])"

definition member_reason :: "changes \<Rightarrow> ds_member \<Rightarrow> trg_ops" where
  "member_reason cs member =
     (case from_mms (dm_domain member) (dm_item member) of
        (reference, fc) \<Rightarrow>
          fold (\<lambda>((changed, cfc), t) r. if cfc \<noteq> fc then r else if touches reference changed then r OR t else r) cs 0)"

definition next_entry_id :: "report_engine \<Rightarrow> bytes \<times> report_engine" where
  "next_entry_id E =
     (let n = en_counter E + 1
      in (make_entry_id (push_bit 32 (en_seed E) OR (n AND 0xffffffff)), E\<lparr>en_counter := n\<rparr>))"

section \<open>The attributes of a block\<close>

definition attr_value :: "model \<Rightarrow> rcb_state \<Rightarrow> string \<Rightarrow> mms_value option" where
  "attr_value m rs name =
     (case device m (rs_domain rs) of
        None \<Rightarrow> None
      | Some ld \<Rightarrow>
          (case ld_node ld (rs_ln_name rs) of
             None \<Rightarrow> None
           | Some ln \<Rightarrow>
               (case ln_object ln (rs_object_name rs) of
                  None \<Rightarrow> None
                | Some d \<Rightarrow> (case do_attribute d (ascii name) of None \<Rightarrow> None | Some a \<Rightarrow> da_value a))))"

definition attr_text :: "report_engine \<Rightarrow> rcb_state \<Rightarrow> string \<Rightarrow> rust_string" where
  "attr_text E rs name = (case attr_value (en_model E) rs name of None \<Rightarrow> [] | Some v \<Rightarrow> value_text (en_show E) v)"

definition rcb_attribute_mut :: "model \<Rightarrow> rcb_state \<Rightarrow> string \<Rightarrow> (data_attribute \<times> (data_attribute \<Rightarrow> model)) option" where
  "rcb_attribute_mut m rs name =
     mut_then (mut_then (mut_then (device_mut m (rs_domain rs)) (\<lambda>ld. ld_node_mut ld (rs_ln_name rs)))
         (\<lambda>ln. ln_object_mut ln (rs_object_name rs)))
       (\<lambda>d. do_attribute_mut d (ascii name))"

definition set_rcb_attr :: "rcb_state \<Rightarrow> string \<Rightarrow> mms_value \<Rightarrow> report_engine \<Rightarrow> report_engine" where
  "set_rcb_attr rs name v E =
     (case rcb_attribute_mut (en_model E) rs name of
        None \<Rightarrow> E
      | Some (a, put) \<Rightarrow> E\<lparr>en_model := put (da_with_value (Some v) a)\<rparr>)"

definition rcb_trg_ops :: "model \<Rightarrow> rcb_state \<Rightarrow> trg_ops" where
  "rcb_trg_ops m rs =
     (case attr_value m rs ''TrgOps'' of None \<Rightarrow> 0 | Some v \<Rightarrow> (case trg_from_value v of None \<Rightarrow> 0 | Some t \<Rightarrow> t))"

definition rcb_opt_flds :: "model \<Rightarrow> rcb_state \<Rightarrow> opt_flds" where
  "rcb_opt_flds m rs =
     (case attr_value m rs ''OptFlds'' of None \<Rightarrow> 0 | Some v \<Rightarrow> (case opt_from_value v of None \<Rightarrow> 0 | Some t \<Rightarrow> t))"

definition attr_u64 :: "model \<Rightarrow> rcb_state \<Rightarrow> string \<Rightarrow> u64" where
  "attr_u64 m rs name = (case attr_value m rs name of None \<Rightarrow> 0 | Some v \<Rightarrow> as_u64 v)"

definition dataset_members :: "model \<Rightarrow> rust_string \<Rightarrow> rust_string \<Rightarrow> ds_member list" where
  "dataset_members m domain list' =
     (case device m domain of
        None \<Rightarrow> []
      | Some ld \<Rightarrow>
          (case split_once dollar list' of
             None \<Rightarrow> []
           | Some (ln_name', ds_name') \<Rightarrow>
               (case ld_node ld ln_name' of
                  None \<Rightarrow> []
                | Some ln \<Rightarrow>
                    (case ln_data_set ln ds_name' of
                       None \<Rightarrow> []
                     | Some ds \<Rightarrow>
                         map (\<lambda>e. case to_mms (fcda_reference e) (fcda_fc e) of (d, i) \<Rightarrow> \<lparr>dm_domain = d, dm_item = i\<rparr>)
                           (ds_entries ds)))))"

definition resolve_data_set :: "model \<Rightarrow> rust_string \<Rightarrow> ds_member list option" where
  "resolve_data_set m reference =
     (case split_once slash reference of
        None \<Rightarrow> None
      | Some (domain, list') \<Rightarrow>
          (case split_once dollar list' of
             None \<Rightarrow> None
           | Some (ln_name', ds_name') \<Rightarrow>
               (case device m domain of
                  None \<Rightarrow> None
                | Some ld \<Rightarrow>
                    (case ld_node ld ln_name' of
                       None \<Rightarrow> None
                     | Some ln \<Rightarrow>
                         (case ln_data_set ln ds_name' of
                            None \<Rightarrow> None
                          | Some ds \<Rightarrow> Some (dataset_members m domain list'))))))"

definition block_members :: "report_engine \<Rightarrow> rcb_state \<Rightarrow> ds_member list option" where
  "block_members E rs = resolve_data_set (en_model E) (attr_text E rs ''DatSet'')"

definition item_value :: "model \<Rightarrow> rust_string \<Rightarrow> rust_string \<Rightarrow> mms_value option" where
  "item_value m domain item =
     (case device m domain of
        None \<Rightarrow> None
      | Some ld \<Rightarrow>
          (case ld_node ld (hd (split_on dollar item)) of
             None \<Rightarrow> None
           | Some ln \<Rightarrow> resolve_read ln item))"

definition is_zero_entry_id :: "bytes \<Rightarrow> bool" where
  "is_zero_entry_id i \<longleftrightarrow> length i = 8 \<and> list_all (\<lambda>b. b = 0) i"

section \<open>The PDUs of a report\<close>

record report_fields =
  rf_rpt_id :: rust_string
  rf_dat_set :: rust_string
  rf_conf_rev :: u32
  rf_opt :: opt_flds
  rf_seq :: u32
  rf_buf_ovfl :: bool
  rf_buffered :: bool

text \<open>The inclusion bit string; setting a bit outside it has no effect.\<close>

definition set_inclusion :: "nat \<Rightarrow> mms_value \<Rightarrow> mms_value" where
  "set_inclusion idx v = (case value_set_bit v idx True of None \<Rightarrow> v | Some w \<Rightarrow> w)"

definition inclusion_bits :: "nat \<Rightarrow> nat list \<Rightarrow> mms_value" where
  "inclusion_bits n ms = fold set_inclusion ms (BitStringV (bit_string_new n))"

definition opt_field :: "bool \<Rightarrow> mms_value \<Rightarrow> mms_value list" where
  "opt_field b v = (if b then [v] else [])"

definition data_ref :: "ds_member list \<Rightarrow> nat \<Rightarrow> mms_value option" where
  "data_ref members idx =
     (if idx < length members
      then Some (VisibleStringV (dm_domain (members ! idx) @ [slash] @ dm_item (members ! idx))) else None)"

definition report_values ::
    "report_fields \<Rightarrow> report_entry \<Rightarrow> ds_member list \<Rightarrow> nat \<Rightarrow> nat \<Rightarrow> (u16 \<times> bool) option \<Rightarrow> mms_value list" where
  "report_values f e members from to segment =
     (let opt = (if segment = None then rf_opt f else rf_opt f OR OPT_SEGMENTATION);
          ms = subslice from to (re_members e)
      in [VisibleStringV (rf_rpt_id f), or_no_value (opt_value opt)] @
         opt_field (opt_has opt OPT_SEQ_NUM)
           (if rf_buffered f then UnsignedV (ucast (ucast (rf_seq f) :: u16)) else UnsignedV (ucast (ucast (rf_seq f) :: u8))) @
         opt_field (opt_has opt OPT_TIME_OF_ENTRY) (binary_time (re_time e)) @
         opt_field (opt_has opt OPT_DATA_SET_NAME) (VisibleStringV (rf_dat_set f)) @
         opt_field (opt_has opt OPT_BUF_OVFL) (BooleanV (rf_buf_ovfl f)) @
         opt_field (opt_has opt OPT_ENTRY_ID) (OctetStringV (re_id e)) @
         opt_field (opt_has opt OPT_CONF_REV) (UnsignedV (ucast (rf_conf_rev f))) @
         (case segment of None \<Rightarrow> [] | Some (sub_seq, more_follow) \<Rightarrow> [UnsignedV (ucast sub_seq), BooleanV more_follow]) @
         [inclusion_bits (length members) ms] @
         (if opt_has opt OPT_DATA_REF then List.map_filter (data_ref members) ms else []) @
         subslice from to (re_values e) @
         (if opt_has opt OPT_REASON_CODE then map (\<lambda>r. or_no_value (reason_value r)) (subslice from to (re_reasons e)) else []))"

definition report_element ::
    "report_fields \<Rightarrow> report_entry \<Rightarrow> ds_member list \<Rightarrow> nat \<Rightarrow> nat \<Rightarrow> (u16 \<times> bool) option \<Rightarrow> element" where
  "report_element f e members from to segment =
     cons (context_constructed 0)
       [cons (context_constructed 1) [prim (context_primitive 0) (ascii ''RPT'')],
        cons (context_constructed 0) (List.map_filter data_element (report_values f e members from to segment))]"

definition pdu_fits :: "nat \<Rightarrow> element \<Rightarrow> bool" where
  "pdu_fits max_pdu el \<longleftrightarrow> max_pdu = 0 \<or> elem_size el + 4 \<le> max_pdu"

text \<open>The end of the longest run of members from \<open>from\<close> that fits, at least one.\<close>

function segment_end :: "(nat \<Rightarrow> nat \<Rightarrow> bool) \<Rightarrow> nat \<Rightarrow> nat \<Rightarrow> nat \<Rightarrow> nat" where
  "segment_end ok n from to = (if to < n \<and> ok from (to + 1) then segment_end ok n from (to + 1) else to)"
  by pat_completeness auto
termination
  by (relation "measure (\<lambda>(ok, n, from, to). n - to)") auto

declare segment_end.simps [simp del]

lemma segment_end_ge: "to \<le> segment_end ok n from to"
  by (induction ok n "from" to rule: segment_end.induct) (subst segment_end.simps, auto)

lemma segment_end_le: "to \<le> n \<Longrightarrow> segment_end ok n from to \<le> n"
  by (induction ok n "from" to rule: segment_end.induct) (subst segment_end.simps, auto)

function report_segments :: "(nat \<Rightarrow> nat \<Rightarrow> (u16 \<times> bool) option \<Rightarrow> element) \<Rightarrow> (element \<Rightarrow> bool) \<Rightarrow> nat \<Rightarrow> nat \<Rightarrow> u16 \<Rightarrow> element list" where
  "report_segments build room n from sub_seq =
     (if from < n then
        let to = segment_end (\<lambda>f t. room (build f t (Some (sub_seq, True)))) n from (from + 1)
        in build from to (Some (sub_seq, to < n)) # report_segments build room n to (sub_seq + 1)
      else [])"
  by pat_completeness auto
termination
proof (relation "measure (\<lambda>(b, f, n, from, s). n - from)", goal_cases)
  case (2 build room n "from" sub_seq to)
  then show ?case
    using segment_end_ge [of "from + 1" "\<lambda>f t. room (build f t (Some (sub_seq, True)))" n "from"] by simp
qed simp

declare report_segments.simps [simp del]

definition report_pdus :: "report_engine \<Rightarrow> rcb_state \<Rightarrow> report_entry \<Rightarrow> u32 \<Rightarrow> bool \<Rightarrow> nat \<Rightarrow> element list" where
  "report_pdus E rs e seq buf_ovfl max_pdu =
     (let m = en_model E;
          members = (case block_members E rs of None \<Rightarrow> [] | Some ms \<Rightarrow> ms);
          fixed = \<lparr>rf_rpt_id = rpt_id_of (attr_text E rs ''RptID'') (rs_domain rs) (rs_item rs),
                   rf_dat_set = attr_text E rs ''DatSet'',
                   rf_conf_rev = (case attr_value m rs ''ConfRev'' of None \<Rightarrow> 0 | Some v \<Rightarrow> as_u32 v),
                   rf_opt = effective_opt_flds (rcb_opt_flds m rs) (rs_buffered rs), rf_seq = seq,
                   rf_buf_ovfl = buf_ovfl, rf_buffered = rs_buffered rs\<rparr>;
          build = report_element fixed e members;
          n = length (re_members e);
          whole = build 0 n None
      in if pdu_fits max_pdu whole then [whole] else report_segments build (pdu_fits max_pdu) n 0 0)"

section \<open>Sending\<close>

definition set_sq_num :: "rcb_state \<Rightarrow> u32 \<Rightarrow> block \<Rightarrow> block" where
  "set_sq_num rs n = (\<lambda>(E, st).
     if rs_buffered rs then
       let q = n AND 0xffff in (set_rcb_attr rs ''SqNum'' (UnsignedV (ucast (ucast q :: u16))) E, st\<lparr>rt_sq_num := q\<rparr>)
     else
       let q = n AND 0xff in (set_rcb_attr rs ''SqNum'' (UnsignedV (ucast (ucast q :: u8))) E, st\<lparr>rt_sq_num := q\<rparr>))"

text \<open>The PDUs are sent until one is refused.\<close>

fun send_pdus :: "element list \<Rightarrow> server_conn \<Rightarrow> bool \<times> server_conn" where
  "send_pdus [] sc = (True, sc)"
| "send_pdus (pdu # pdus) sc =
     (case send_unconfirmed pdu sc of (Inl _, sc') \<Rightarrow> (False, sc') | (Inr _, sc') \<Rightarrow> send_pdus pdus sc')"

definition note_past :: "report_entry \<Rightarrow> bool option \<Rightarrow> rcb_runtime \<Rightarrow> rcb_runtime" where
  "note_past e fate st = st\<lparr>rt_past := rt_past st @ [(e, fate)]\<rparr>"

definition transmit :: "rcb_state \<Rightarrow> report_entry \<Rightarrow> block \<Rightarrow> block" where
  "transmit rs e = (\<lambda>(E, st).
     case (case rt_conn st of None \<Rightarrow> None | Some c \<Rightarrow> map_option (Pair c) (en_conns E c)) of
       None \<Rightarrow> (E, note_past e None st)
     | Some (c, sc) \<Rightarrow>
         (case set_sq_num rs (rt_sq_num st + 1) (E, st) of
            (E1, st1) \<Rightarrow>
              let ovfl = rt_buf_overflow st1;
                  (ok, sc') = send_pdus (report_pdus E1 rs e (rt_sq_num st) ovfl (sc_max_pdu sc)) sc
              in (E1\<lparr>en_conns := (en_conns E1)(c \<mapsto> sc')\<rparr>,
                  note_past e (if ok then Some ovfl else None) (st1\<lparr>rt_buf_overflow := \<not> ok \<and> rs_buffered rs\<rparr>))))"

lemma transmit_keeps:
  "rt_buffer (snd (transmit rs e (E, st))) = rt_buffer st" "rt_next (snd (transmit rs e (E, st))) = rt_next st"
  by (auto simp: transmit_def set_sq_num_def note_past_def Let_def split: option.splits prod.splits)

function transmit_buffered :: "rcb_state \<Rightarrow> block \<Rightarrow> block" where
  "transmit_buffered rs (E, st) =
     (if rt_next st < length (rt_buffer st) then
        case transmit rs (rt_buffer st ! rt_next st) (E, st) of
          (E', st') \<Rightarrow> transmit_buffered rs (E', st'\<lparr>rt_next := rt_next st' + 1\<rparr>)
      else (E, st))"
  by pat_completeness auto
termination
proof (relation "measure (\<lambda>(rs, E, st). length (rt_buffer st) - rt_next st)", goal_cases)
  case (2 rs E st E' st')
  have "rt_buffer st' = rt_buffer st" "rt_next st' = rt_next st"
    using transmit_keeps [of rs "rt_buffer st ! rt_next st" E st] 2(2) [symmetric] by simp_all
  with 2(1) show ?case by simp
qed simp

declare transmit_buffered.simps [simp del]

function discard_oldest :: "nat \<Rightarrow> rcb_runtime \<Rightarrow> rcb_runtime" where
  "discard_oldest max_buffer st =
     (if length (rt_buffer st) > max_buffer then
        let st1 = st\<lparr>rt_buffer := tl (rt_buffer st)\<rparr>
        in discard_oldest max_buffer
             (if rt_next st > 0 then st1\<lparr>rt_next := rt_next st - 1\<rparr>
              else note_past (hd (rt_buffer st)) None (st1\<lparr>rt_buf_overflow := True\<rparr>))
      else st)"
  by pat_completeness auto
termination
  by (relation "measure (\<lambda>(m, st). length (rt_buffer st))") (auto simp: note_past_def)

declare discard_oldest.simps [simp del]

definition emit :: "rcb_state \<Rightarrow> report_entry \<Rightarrow> block \<Rightarrow> block" where
  "emit rs e0 = (\<lambda>(E0, st).
     case system_now E0 of
       (now, E) \<Rightarrow>
         let e = e0\<lparr>re_time := now\<rparr> in
         if \<not> rs_buffered rs then (if rt_enabled st then transmit rs e (E, st) else (E, st))
         else
           (case next_entry_id E of
              (i, E1) \<Rightarrow>
                let e' = e\<lparr>re_id := i\<rparr>;
                    E2 = set_rcb_attr rs ''TimeofEntry'' (binary_time now) (set_rcb_attr rs ''EntryID'' (OctetStringV i) E1);
                    st1 = discard_oldest (rs_max_buffer rs)
                            (st\<lparr>rt_buffer := rt_buffer st @ [e'], rt_log := rt_log st @ [e']\<rparr>)
                in if rt_enabled st1 then transmit_buffered rs (E2, st1) else (E2, st1)))"

definition flush_pending :: "rcb_state \<Rightarrow> block \<Rightarrow> block" where
  "flush_pending rs = (\<lambda>(E, st).
     case rt_pending st of
       None \<Rightarrow> (E, st)
     | Some p \<Rightarrow>
         let st1 = st\<lparr>rt_pending := None, rt_pending_gen := rt_pending_gen st + 1, rt_pending_timer := False\<rparr>
         in if re_members p \<noteq> [] then emit rs p (E, st1) else (E, st1))"

section \<open>Events\<close>

definition add_member :: "nat \<Rightarrow> mms_value \<Rightarrow> reason_code \<Rightarrow> report_entry \<Rightarrow> report_entry" where
  "add_member i v r e =
     e\<lparr>re_members := re_members e @ [i], re_values := re_values e @ [v], re_reasons := re_reasons e @ [r]\<rparr>"

definition all_entry :: "model \<Rightarrow> reason_code \<Rightarrow> ds_member list \<Rightarrow> report_entry \<Rightarrow> report_entry" where
  "all_entry m reason members =
     fold (\<lambda>(i, mem) e. case item_value m (dm_domain mem) (dm_item mem) of None \<Rightarrow> e | Some v \<Rightarrow> add_member i v reason e)
       (List.enumerate 0 members)"

definition report_all :: "rcb_state \<Rightarrow> reason_code \<Rightarrow> block \<Rightarrow> block" where
  "report_all rs reason b =
     (case flush_pending rs b of
        (E, st) \<Rightarrow>
          let members = (case block_members E rs of None \<Rightarrow> [] | Some ms \<Rightarrow> ms);
              (now, E1) = system_now E;
              e = all_entry (en_model E) reason members (entry_new now)
          in if re_members e \<noteq> [] then emit rs e (E1, st) else (E1, st))"

definition event :: "rcb_state \<Rightarrow> report_entry \<Rightarrow> block \<Rightarrow> block" where
  "event rs e = (\<lambda>(E, st).
     if attr_u64 (en_model E) rs ''BufTm'' = 0 then emit rs e (E, st)
     else
       (case (if (case rt_pending st of None \<Rightarrow> False | Some p \<Rightarrow> overlaps p e) then flush_pending rs (E, st) else (E, st)) of
          (E1, st1) \<Rightarrow>
            (case rt_pending st1 of
               Some p \<Rightarrow> (E1, st1\<lparr>rt_pending := Some (entry_merge p e)\<rparr>)
             | None \<Rightarrow>
                 if \<not> (en_owner E1 \<and> en_runtime E1) then emit rs e (E1, st1)
                 else case system_now E1 of
                   (now, E2) \<Rightarrow> (E2, st1\<lparr>rt_pending := Some (entry_merge (entry_new now) e), rt_pending_timer := True\<rparr>))))"

definition change_entry :: "model \<Rightarrow> trg_ops \<Rightarrow> changes \<Rightarrow> ds_member list \<Rightarrow> report_entry \<Rightarrow> report_entry" where
  "change_entry m want cs members =
     fold (\<lambda>(i, mem) e.
         let r = member_reason cs mem AND want in
         if r = 0 then e
         else case item_value m (dm_domain mem) (dm_item mem) of None \<Rightarrow> e | Some v \<Rightarrow> add_member i v r e)
       (List.enumerate 0 members)"

definition update_block :: "changes \<Rightarrow> rcb_state \<Rightarrow> block \<Rightarrow> block" where
  "update_block cs rs = (\<lambda>(E, st).
     if \<not> rs_buffered rs \<and> \<not> rt_enabled st then (E, st)
     else case block_members E rs of
       None \<Rightarrow> (E, st)
     | Some members \<Rightarrow>
         let want = rcb_trg_ops (en_model E) rs AND CHANGE_TRIGGERS;
             (now, E1) = system_now E;
             e = change_entry (en_model E) want cs members (entry_new now)
         in if re_members e \<noteq> [] then event rs e (E1, st) else (E1, st))"

section \<open>Reservation\<close>

definition sync_resv :: "rcb_state \<Rightarrow> block \<Rightarrow> block" where
  "sync_resv rs = (\<lambda>(E, st).
     (if rs_buffered rs then
        set_rcb_attr rs ''Owner''
          (OctetStringV (ip_octets (if rt_owner st \<noteq> None then rt_owner_ip st else rt_resv_ip st))) E
      else set_rcb_attr rs ''Resv'' (BooleanV (rt_owner st \<noteq> None \<or> rt_resv_ip st \<noteq> None)) E, st))"

definition take_block :: "rcb_state \<Rightarrow> conn_id \<Rightarrow> ip_addr option \<Rightarrow> block \<Rightarrow> block" where
  "take_block rs conn ip = (\<lambda>(E, st).
     let st1 = stop_resv_timer (st\<lparr>rt_owner := Some conn, rt_owner_ip := ip\<rparr>)
     in sync_resv rs (E, if rt_resv_cfg st1 then st1 else st1\<lparr>rt_resv_ip := None\<rparr>))"

definition release :: "rcb_state \<Rightarrow> block \<Rightarrow> block" where
  "release rs = (\<lambda>(E, st).
     let st1 = st\<lparr>rt_owner := None, rt_owner_ip := None\<rparr>
     in if rt_resv_cfg st1 then sync_resv rs (E, st1)
        else
          let st2 = (stop_resv_timer st1)\<lparr>rt_resv_ip := None\<rparr>;
              tms = (case attr_value (en_model E) rs ''ResvTms'' of None \<Rightarrow> 0 | Some v \<Rightarrow> as_i64 v)
          in sync_resv rs
               (E, if rs_buffered rs \<and> 0 < sint tms \<and> rt_owner st \<noteq> None \<and> rt_owner_ip st \<noteq> None \<and> en_owner E
                   then st2\<lparr>rt_resv_ip := rt_owner_ip st, rt_resv_timer := en_runtime E\<rparr> else st2))"

definition resync :: "rcb_runtime \<Rightarrow> rcb_runtime" where
  "resync st =
     (case rt_resync_id st of
        None \<Rightarrow> st
      | Some i \<Rightarrow>
          let st1 = st\<lparr>rt_resync_id := None, rt_past := []\<rparr>;
              st2 = (if is_zero_entry_id i then st1\<lparr>rt_next := 0\<rparr>
                     else case buffer_index i st1 of
                       Some k \<Rightarrow> st1\<lparr>rt_next := k + 1\<rparr>
                     | None \<Rightarrow> st1\<lparr>rt_buf_overflow := True, rt_next := 0\<rparr>)
          in st2\<lparr>rt_log := drop (rt_next st2) (rt_buffer st2)\<rparr>)"

definition resume_delivery :: "rcb_state \<Rightarrow> block \<Rightarrow> block" where
  "resume_delivery rs = (\<lambda>(E, st). if rs_buffered rs then transmit_buffered rs (E, resync st) else (E, st))"

definition start_integrity :: "rcb_state \<Rightarrow> block \<Rightarrow> block" where
  "start_integrity rs = (\<lambda>(E, st).
     (E, if attr_u64 (en_model E) rs ''IntgPd'' \<noteq> 0 \<and> trg_has (rcb_trg_ops (en_model E) rs) TRG_INTEGRITY \<and> en_owner E
         then st\<lparr>rt_integrity := en_runtime E\<rparr> else st))"

definition enable :: "rcb_state \<Rightarrow> conn_id \<Rightarrow> ip_addr option \<Rightarrow> block \<Rightarrow> block" where
  "enable rs conn ip = (\<lambda>(E, st0).
     let st1 = st0\<lparr>rt_enabled := True, rt_conn := Some conn\<rparr>;
         b = (if rt_owner st1 \<noteq> Some conn then take_block rs conn ip (E, st1) else (E, st1))
     in start_integrity rs (resume_delivery rs (apsnd stop_integrity (set_sq_num rs 0 b))))"

definition disable :: "rcb_state \<Rightarrow> block \<Rightarrow> block" where
  "disable rs b =
     (case flush_pending rs b of
        (E, st) \<Rightarrow>
          let st1 = stop_integrity (st\<lparr>rt_enabled := False, rt_conn := None\<rparr>)
          in if rs_buffered rs then release rs (E, st1) else (E, st1))"

section \<open>Writes to a control block\<close>

definition check_rcb_write ::
    "report_engine \<Rightarrow> rcb_state \<Rightarrow> rust_string \<Rightarrow> mms_value \<Rightarrow> conn_id \<Rightarrow> ip_addr option \<Rightarrow> data_access_error + unit" where
  "check_rcb_write E rs attr v conn ip =
     (let st = rs_state rs in
      if \<not> allowed conn ip st then Inl TemporarilyUnavailable
      else if attr \<in> set RCB_READ_ONLY then Inl ObjectAccessDenied
      else if attr = ascii ''RptEna'' \<and> as_bool v then
        (if rt_enabled st \<or> block_members E rs = None then Inl TemporarilyUnavailable else Inr ())
      else if attr = ascii ''GI'' \<and> as_bool v \<and> \<not> rt_enabled st then Inl TemporarilyUnavailable
      else if attr = ascii ''Resv'' \<and> \<not> as_bool v \<and> rt_resv_cfg st then Inl ObjectAccessDenied
      else if attr = ascii ''Resv'' \<and> \<not> as_bool v \<and> rt_enabled st then Inl TemporarilyUnavailable
      else if attr = ascii ''ResvTms'' \<and> rt_resv_cfg st then Inl ObjectAccessDenied
      else if attr = ascii ''ResvTms'' \<and> sint (as_i64 v) < 0 then Inl ObjectValueInvalid
      else if attr \<in> set RCB_SETTINGS then
        (if rt_enabled st then Inl TemporarilyUnavailable
         else if attr = ascii ''DatSet'' then
           let r = value_text (en_show E) v
           in if r \<noteq> [] \<and> resolve_data_set (en_model E) r = None then Inl ObjectValueInvalid else Inr ()
         else if attr = ascii ''EntryID'' then
           let i = value_bytes v
           in if length i \<noteq> 8 \<or> (\<not> is_zero_entry_id i \<and> buffer_index i st = None) then Inl ObjectValueInvalid else Inr ()
         else Inr ())
      else Inr ())"

definition rcb_effect :: "rcb_state \<Rightarrow> rust_string \<Rightarrow> mms_value \<Rightarrow> conn_id \<Rightarrow> ip_addr option \<Rightarrow> block \<Rightarrow> block" where
  "rcb_effect rs attr v conn ip = (\<lambda>(E, st).
     if attr = ascii ''ResvTms'' \<and> as_i64 v = 0 then (E, stop_resv_timer st)
     else if attr = ascii ''RptEna'' then (if as_bool v then enable rs conn ip (E, st) else disable rs (E, st))
     else if attr = ascii ''GI'' then
       (case (if as_bool v \<and> trg_has (rcb_trg_ops (en_model E) rs) TRG_GI then report_all rs RC_GI (E, st) else (E, st)) of
          (E1, st1) \<Rightarrow> (set_rcb_attr rs ''GI'' (BooleanV False) E1, st1))
     else if attr = ascii ''PurgeBuf'' then
       (set_rcb_attr rs ''PurgeBuf'' (BooleanV False) E, if as_bool v then purge st else st)
     else if attr = ascii ''EntryID'' then (E, st\<lparr>rt_resync_id := Some (value_bytes v)\<rparr>)
     else if attr = ascii ''DatSet'' then
       (let rev' = (case attr_value (en_model E) rs ''ConfRev'' of None \<Rightarrow> 0 | Some w \<Rightarrow> as_u32 w)
        in (set_rcb_attr rs ''ConfRev'' (UnsignedV (ucast (rev' + 1))) E, purge st))
     else (E, st))"

definition on_rcb_write :: "rcb_state \<Rightarrow> rust_string \<Rightarrow> mms_value \<Rightarrow> conn_id \<Rightarrow> ip_addr option \<Rightarrow> block \<Rightarrow> block" where
  "on_rcb_write rs attr v conn ip = (\<lambda>(E, st).
     if attr = ascii ''Resv'' then (if as_bool v then take_block rs conn ip (E, st) else release rs (E, st))
     else rcb_effect rs attr v conn ip (if rt_owner st = None then take_block rs conn ip (E, st) else (E, st)))"

end
