(* ===== verification/Server_Reports.thy ===== *)
theory Server_Reports
  imports Server_Reporting Server_Tracking
begin

text \<open>
  The report engine over all control blocks of a server (\<open>ReportManager\<close> of
  \<open>src/server/reporting.rs\<close>), the write of a control block by a client
  (\<open>write_one\<close> and \<open>store\<close> of \<open>src/server/handler.rs\<close>), and the executions they have together: writes,
  updates of the process image, timer turns, and associations that come, move on and end, in any
  order. An update is an arbitrary new process image with the changes it records. The tracking
  of the write and the logs are not part of this model.
\<close>

section \<open>Operations on the registry\<close>

record report_manager =
  rm_registry :: rcb_registry
  rm_engine :: report_engine

definition report_manager_new ::
    "nat \<Rightarrow> model \<Rightarrow> (nat \<Rightarrow> system_time) \<Rightarrow> bool \<Rightarrow> bool \<Rightarrow> (mms_value \<Rightarrow> rust_string) \<Rightarrow> report_manager" where
  "report_manager_new buf_default m clk owner runtime show' =
     (case materialise_rcbs buf_default m of
        (m', reg) \<Rightarrow>
          \<lparr>rm_registry = reg,
           rm_engine = \<lparr>en_model = m', en_conns = Map.empty, en_counter = 0,
             en_seed = of_int (fst (unix_parts (clk 0))) AND 0xffffffff, en_clock = clk, en_reads = 1,
             en_owner = owner, en_runtime = runtime, en_show = show'\<rparr>\<rparr>)"

definition uses_data_set :: "report_manager \<Rightarrow> rust_string \<Rightarrow> bool" where
  "uses_data_set R reference \<longleftrightarrow> list_ex (\<lambda>(k, rs). attr_text (rm_engine R) rs ''DatSet'' = reference) (rm_registry R)"

definition with_block :: "rust_string \<Rightarrow> (rcb_state \<Rightarrow> block \<Rightarrow> block) \<Rightarrow> report_manager \<Rightarrow> report_manager" where
  "with_block key f R =
     (case map_of (rm_registry R) key of
        None \<Rightarrow> R
      | Some rs \<Rightarrow>
          (case f rs (rm_engine R, rs_state rs) of
             (E, st) \<Rightarrow> R\<lparr>rm_engine := E, rm_registry := AList.update key (rs\<lparr>rs_state := st\<rparr>) (rm_registry R)\<rparr>))"

fun each_block :: "(rcb_state \<Rightarrow> block \<Rightarrow> block) \<Rightarrow> rcb_registry \<Rightarrow> report_engine \<Rightarrow> rcb_registry \<times> report_engine" where
  "each_block f [] E = ([], E)"
| "each_block f ((key, rs) # reg) E =
     (case f rs (E, rs_state rs) of
        (E1, st) \<Rightarrow> (case each_block f reg E1 of (reg', E2) \<Rightarrow> ((key, rs\<lparr>rs_state := st\<rparr>) # reg', E2)))"

definition all_blocks :: "(rcb_state \<Rightarrow> block \<Rightarrow> block) \<Rightarrow> report_manager \<Rightarrow> report_manager" where
  "all_blocks f R =
     (case each_block f (rm_registry R) (rm_engine R) of (reg, E) \<Rightarrow> R\<lparr>rm_registry := reg, rm_engine := E\<rparr>)"

definition on_update :: "changes \<Rightarrow> report_manager \<Rightarrow> report_manager" where
  "on_update cs R = (if cs = [] then R else all_blocks (update_block cs) R)"

definition leave_block :: "conn_id \<Rightarrow> rcb_state \<Rightarrow> block \<Rightarrow> block" where
  "leave_block conn rs b =
     (let b1 = (if rt_conn (snd b) = Some conn then disable rs b else b)
      in if rt_owner (snd b1) = Some conn then release rs b1 else b1)"

definition disable_conn :: "conn_id \<Rightarrow> report_manager \<Rightarrow> report_manager" where
  "disable_conn conn = all_blocks (leave_block conn)"

definition shutdown_block :: "rcb_state \<Rightarrow> block \<Rightarrow> block" where
  "shutdown_block rs = (\<lambda>(E, st).
     let st1 = stop_resv_timer (stop_integrity (st\<lparr>rt_enabled := False, rt_conn := None\<rparr>))
     in (E, st1\<lparr>rt_pending_timer := False, rt_pending_gen := rt_pending_gen st1 + 1\<rparr>))"

definition shutdown :: "report_manager \<Rightarrow> report_manager" where
  "shutdown = all_blocks shutdown_block"

section \<open>Timer turns\<close>

definition integrity_turn :: "nat \<Rightarrow> rcb_state \<Rightarrow> block \<Rightarrow> block" where
  "integrity_turn generation rs = (\<lambda>(E, st).
     if rt_integrity_gen st \<noteq> generation \<or> \<not> rt_enabled st then (E, st) else report_all rs RC_INTEGRITY (E, st))"

definition window_turn :: "nat \<Rightarrow> rcb_state \<Rightarrow> block \<Rightarrow> block" where
  "window_turn generation rs = (\<lambda>(E, st).
     if rt_pending_gen st = generation then flush_pending rs (E, st\<lparr>rt_pending_timer := False\<rparr>) else (E, st))"

definition resv_turn :: "nat \<Rightarrow> rcb_state \<Rightarrow> block \<Rightarrow> block" where
  "resv_turn generation rs = (\<lambda>(E, st).
     if rt_resv_gen st = generation \<and> rt_owner st = None
     then sync_resv rs (E, st\<lparr>rt_resv_timer := False, rt_resv_ip := None\<rparr>) else (E, st))"

section \<open>Writing a control block\<close>

text \<open>\<open>store\<close> for an attribute of a control block; the hook is the application's.\<close>

definition store_block_attr ::
    "(data_attribute \<Rightarrow> mms_value \<Rightarrow> data_access_error + unit) option \<Rightarrow> rust_string \<Rightarrow> rust_string \<Rightarrow> mms_value \<Rightarrow>
     model \<Rightarrow> data_access_error + model" where
  "store_block_attr hook domain item v m =
     (case device_mut m domain of
        None \<Rightarrow> Inl ObjectNonExistent
      | Some (ld, put_ld) \<Rightarrow>
          (case ld_node_mut ld (hd (split_on dollar item)) of
             None \<Rightarrow> Inl ObjectNonExistent
           | Some (ln, put_ln) \<Rightarrow>
               (case resolve_write ln item of
                  None \<Rightarrow> Inl ObjectAccessUnsupported
                | Some (da, put_da) \<Rightarrow>
                    if \<not> value_fits da v then Inl TypeInconsistent
                    else try_bind (case hook of None \<Rightarrow> Inr () | Some h \<Rightarrow> h da v)
                           (\<lambda>_. Inr (put_ld (put_ln (put_da (da_with_value (Some v) da))))))))"

definition write_block ::
    "(data_attribute \<Rightarrow> mms_value \<Rightarrow> data_access_error + unit) option \<Rightarrow> conn_id \<Rightarrow> ip_addr option \<Rightarrow> rust_string \<Rightarrow>
     rust_string \<Rightarrow> rust_string \<Rightarrow> rust_string \<Rightarrow> mms_value \<Rightarrow> report_manager \<Rightarrow> (data_access_error + unit) \<times> report_manager" where
  "write_block hook conn ip domain item key attr v R =
     (case (case map_of (rm_registry R) key of
              None \<Rightarrow> Inl ObjectNonExistent
            | Some rs \<Rightarrow> check_rcb_write (rm_engine R) rs attr v conn ip) of
        Inl e \<Rightarrow> (Inl e, R)
      | Inr _ \<Rightarrow>
          (case store_block_attr hook domain item v (en_model (rm_engine R)) of
             Inl e \<Rightarrow> (Inl e, R)
           | Inr m \<Rightarrow>
               (Inr (), with_block key (\<lambda>rs. on_rcb_write rs attr v conn ip)
                  (R\<lparr>rm_engine := (rm_engine R)\<lparr>en_model := m\<rparr>\<rparr>))))"

section \<open>Executions\<close>

datatype report_event =
    RUpdate model changes
  | RWrite "(data_attribute \<Rightarrow> mms_value \<Rightarrow> data_access_error + unit) option" conn_id "ip_addr option" rust_string rust_string mms_value
  | RIntegrity rust_string nat
  | RWindow rust_string nat
  | RReservation rust_string nat
  | ROpen conn_id server_conn
  | RMoves conn_id server_conn
  | REnd conn_id
  | RShutdown

definition with_conns :: "((conn_id \<rightharpoonup> server_conn) \<Rightarrow> (conn_id \<rightharpoonup> server_conn)) \<Rightarrow> report_manager \<Rightarrow> report_manager" where
  "with_conns f R = R\<lparr>rm_engine := (rm_engine R)\<lparr>en_conns := f (en_conns (rm_engine R))\<rparr>\<rparr>"

text \<open>
  Requests are handled while their association is in the table. At its end the association is
  taken out of the table first.
\<close>

fun report_step :: "report_event \<Rightarrow> report_manager \<Rightarrow> report_manager" where
  "report_step (RUpdate m cs) R = on_update cs (R\<lparr>rm_engine := (rm_engine R)\<lparr>en_model := m\<rparr>\<rparr>)"
| "report_step (RWrite hook conn ip domain item v) R =
     (if en_conns (rm_engine R) conn = None then R
      else case rcb_key domain item of
        None \<Rightarrow> R
      | Some (key, attr) \<Rightarrow> snd (write_block hook conn ip domain item key attr v R))"
| "report_step (RIntegrity key g) R = with_block key (integrity_turn g) R"
| "report_step (RWindow key g) R = with_block key (window_turn g) R"
| "report_step (RReservation key g) R = with_block key (resv_turn g) R"
| "report_step (ROpen conn sc) R = with_conns (\<lambda>t. t(conn \<mapsto> sc)) R"
| "report_step (RMoves conn sc) R = with_conns (\<lambda>t. if t conn = None then t else t(conn \<mapsto> sc)) R"
| "report_step (REnd conn) R = disable_conn conn (with_conns (\<lambda>t. t(conn := None)) R)"
| "report_step RShutdown R = shutdown R"

definition report_run :: "report_event list \<Rightarrow> report_manager \<Rightarrow> report_manager" where
  "report_run es R = fold report_step es R"

end
