(* ===== verification/Server_Blocks.thy ===== *)
theory Server_Blocks
  imports Server_Reports
begin

text \<open>
  What the operations of the report engine leave alone, and the contract by which an invariant of
  one control block becomes one of all executions: the locale \<open>block_contract\<close>. An invariant may
  depend on which associations are in the table, which no operation on a block changes.
\<close>

section \<open>Operations keep the table of associations\<close>

named_theorems table_simps

abbreviation table :: "report_engine \<Rightarrow> conn_id set" where
  "table E \<equiv> dom (en_conns E)"

lemma set_rcb_attr_frame [simp]:
  "en_conns (set_rcb_attr rs name v E) = en_conns E" "en_counter (set_rcb_attr rs name v E) = en_counter E"
  "en_seed (set_rcb_attr rs name v E) = en_seed E" "en_owner (set_rcb_attr rs name v E) = en_owner E"
  "en_runtime (set_rcb_attr rs name v E) = en_runtime E" "en_reads (set_rcb_attr rs name v E) = en_reads E"
  "en_clock (set_rcb_attr rs name v E) = en_clock E"
  by (simp_all add: set_rcb_attr_def split: option.split prod.split)

lemma table_set_sq_num [table_simps]: "table (fst (set_sq_num rs n b)) = table (fst b)"
  by (cases b) (simp add: set_sq_num_def Let_def)

lemma table_transmit [table_simps]: "table (fst (transmit rs e b)) = table (fst b)"
proof (cases b)
  case (Pair E st)
  obtain E1 st1 where b1: "set_sq_num rs (rt_sq_num st + 1) (E, st) = (E1, st1)" by fastforce
  with table_set_sq_num [of rs "rt_sq_num st + 1" "(E, st)"] have t: "table E1 = table E" by simp
  have "insert c (table E) = table E" if "en_conns E c = Some sc" for c sc
    using that by blast
  with t show ?thesis
    by (simp add: Pair transmit_def b1 Let_def split: option.split prod.split)
qed

lemma table_transmit_buffered [table_simps]: "table (fst (transmit_buffered rs b)) = table (fst b)"
proof (induction rs b rule: transmit_buffered.induct)
  case (1 rs E st)
  obtain E' st' where b1: "transmit rs (rt_buffer st ! rt_next st) (E, st) = (E', st')" by fastforce
  with table_transmit [of rs "rt_buffer st ! rt_next st" "(E, st)"] have "table E' = table E" by simp
  with 1 b1 show ?case
    by (subst transmit_buffered.simps) simp
qed

lemma table_emit [table_simps]: "table (fst (emit rs e b)) = table (fst b)"
  by (cases b) (auto simp: emit_def system_now_def next_entry_id_def Let_def table_simps)

lemma table_flush_pending [table_simps]: "table (fst (flush_pending rs b)) = table (fst b)"
  by (cases b) (auto simp: flush_pending_def Let_def table_simps split: option.split)

lemma table_report_all [table_simps]: "table (fst (report_all rs reason b)) = table (fst b)"
proof -
  obtain E st where f: "flush_pending rs b = (E, st)" by fastforce
  with table_flush_pending [of rs b] show ?thesis
    by (auto simp: report_all_def system_now_def Let_def table_simps)
qed

lemma table_event [table_simps]: "table (fst (event rs e b)) = table (fst b)"
proof (cases b)
  case (Pair E st)
  define b1 where "b1 = (if case rt_pending st of None \<Rightarrow> False | Some p \<Rightarrow> overlaps p e then flush_pending rs (E, st) else (E, st))"
  have "table (fst b1) = table E" by (simp add: b1_def table_simps)
  then show ?thesis
    unfolding Pair event_def prod.case b1_def [symmetric]
    by (cases b1) (auto simp: system_now_def table_simps split: option.split)
qed

lemma table_update_block [table_simps]: "table (fst (update_block cs rs b)) = table (fst b)"
  by (cases b) (auto simp: update_block_def system_now_def Let_def table_simps split: option.split)

lemma table_sync_resv [table_simps]: "table (fst (sync_resv rs b)) = table (fst b)"
  by (cases b) (simp add: sync_resv_def)

lemma table_take_block [table_simps]: "table (fst (take_block rs conn ip b)) = table (fst b)"
  by (cases b) (simp add: take_block_def Let_def table_simps)

lemma table_release [table_simps]: "table (fst (release rs b)) = table (fst b)"
  by (cases b) (simp add: release_def Let_def table_simps)

lemma table_enable [table_simps]: "table (fst (enable rs conn ip b)) = table (fst b)"
proof -
  have "table (fst (resume_delivery rs b)) = table (fst b)" "table (fst (start_integrity rs b)) = table (fst b)" for b
    by (cases b; simp add: resume_delivery_def start_integrity_def table_simps)+
  then show ?thesis
    by (cases b) (simp add: enable_def Let_def table_simps)
qed

lemma table_disable [table_simps]: "table (fst (disable rs b)) = table (fst b)"
proof -
  obtain E st where f: "flush_pending rs b = (E, st)" by fastforce
  with table_flush_pending [of rs b] show ?thesis by (simp add: disable_def Let_def table_simps)
qed

lemma table_rcb_effect [table_simps]: "table (fst (rcb_effect rs attr v conn ip b)) = table (fst b)"
proof (cases b)
  case (Pair E st)
  define b1 where "b1 = (if as_bool v \<and> trg_has (rcb_trg_ops (en_model E) rs) TRG_GI then report_all rs RC_GI (E, st) else (E, st))"
  have "table (fst b1) = table E" by (simp add: b1_def table_simps)
  then show ?thesis
    unfolding Pair rcb_effect_def prod.case b1_def [symmetric]
    by (cases b1) (simp add: Let_def table_simps)
qed

lemma table_on_rcb_write [table_simps]: "table (fst (on_rcb_write rs attr v conn ip b)) = table (fst b)"
  by (cases b) (simp add: on_rcb_write_def table_simps)

lemma table_turns [table_simps]:
  "table (fst (integrity_turn g rs b)) = table (fst b)" "table (fst (window_turn g rs b)) = table (fst b)"
  "table (fst (resv_turn g rs b)) = table (fst b)" "table (fst (shutdown_block rs b)) = table (fst b)"
  by (cases b; simp add: integrity_turn_def window_turn_def resv_turn_def shutdown_block_def Let_def table_simps)+

lemma table_leave_block [table_simps]: "table (fst (leave_block conn rs b)) = table (fst b)"
  by (simp add: leave_block_def Let_def table_simps)

section \<open>Executions with restrictions\<close>

text \<open>
  Which associations write control blocks, in which runtime state of the blocks an association
  ends, and whether the server shuts down.
\<close>

fun admits_event :: "(conn_id \<Rightarrow> bool) \<Rightarrow> (conn_id \<Rightarrow> rcb_runtime \<Rightarrow> bool) \<Rightarrow> bool \<Rightarrow> report_event \<Rightarrow> report_manager \<Rightarrow> bool" where
  "admits_event w l c (RWrite _ conn _ _ _ _) R = w conn"
| "admits_event w l c (REnd conn) R = list_all (\<lambda>(key, rs). l conn (rs_state rs)) (rm_registry R)"
| "admits_event w l c RShutdown R = c"
| "admits_event w l c _ R = True"

fun admits :: "(conn_id \<Rightarrow> bool) \<Rightarrow> (conn_id \<Rightarrow> rcb_runtime \<Rightarrow> bool) \<Rightarrow> bool \<Rightarrow> report_event list \<Rightarrow> report_manager \<Rightarrow> bool" where
  "admits w l c [] R = True"
| "admits w l c (e # es) R = (admits_event w l c e R \<and> admits w l c es (report_step e R))"

definition for_blocks :: "(conn_id set \<Rightarrow> rcb_state \<Rightarrow> rcb_runtime \<Rightarrow> bool) \<Rightarrow> report_manager \<Rightarrow> bool" where
  "for_blocks good R \<longleftrightarrow> (\<forall>(key, rs) \<in> set (rm_registry R). good (table (rm_engine R)) rs (rs_state rs))"

lemma set_alist_update: "set (AList.update k v al) \<subseteq> insert (k, v) (set al)"
  by (induction al) auto

locale block_contract =
  fixes good :: "conn_id set \<Rightarrow> rcb_state \<Rightarrow> rcb_runtime \<Rightarrow> bool"
    and writer :: "conn_id \<Rightarrow> bool"
    and leaver :: "conn_id \<Rightarrow> rcb_runtime \<Rightarrow> bool"
    and closing :: bool
  assumes same_block: "good C (rs\<lparr>rs_state := x\<rparr>) st = good C rs st"
    and updated: "good (table E) rs st \<Longrightarrow> good (table E) rs (snd (update_block cs rs (E, st)))"
    and written: "good (table E) rs (rs_state rs) \<Longrightarrow> writer conn \<Longrightarrow> conn \<in> table E \<Longrightarrow>
        check_rcb_write E0 rs attr v conn ip = Inr () \<Longrightarrow>
        good (table E) rs (snd (on_rcb_write rs attr v conn ip (E, rs_state rs)))"
    and integrity: "good (table E) rs st \<Longrightarrow> good (table E) rs (snd (integrity_turn g rs (E, st)))"
    and window: "good (table E) rs st \<Longrightarrow> good (table E) rs (snd (window_turn g rs (E, st)))"
    and reservation: "good (table E) rs st \<Longrightarrow> good (table E) rs (snd (resv_turn g rs (E, st)))"
    and left: "good C rs st \<Longrightarrow> leaver conn st \<Longrightarrow> table E = C - {conn} \<Longrightarrow>
        good (table E) rs (snd (leave_block conn rs (E, st)))"
    and opened: "good C rs st \<Longrightarrow> good (insert conn C) rs st"
    and closed: "closing \<Longrightarrow> good (table E) rs st \<Longrightarrow> good (table E) rs (snd (shutdown_block rs (E, st)))"
begin

lemma with_block_holds:
  assumes "for_blocks good R"
    and "\<And>rs. map_of (rm_registry R) key = Some rs \<Longrightarrow> good (table (rm_engine R)) rs (rs_state rs) \<Longrightarrow>
      good (table (rm_engine R)) rs (snd (f rs (rm_engine R, rs_state rs)))"
    and "\<And>rs b. table (fst (f rs b)) = table (fst b)"
  shows "for_blocks good (with_block key f R)"
proof (cases "map_of (rm_registry R) key")
  case None
  with assms(1) show ?thesis by (simp add: with_block_def)
next
  case (Some rs)
  obtain E st where b: "f rs (rm_engine R, rs_state rs) = (E, st)" by fastforce
  with assms(3) [of rs "(rm_engine R, rs_state rs)"] have t: "table E = table (rm_engine R)" by simp
  have "good (table (rm_engine R)) rs (rs_state rs)"
    using assms(1) map_of_SomeD [OF Some] by (auto simp: for_blocks_def)
  with assms(2) [OF Some] b have "good (table (rm_engine R)) rs st" by simp
  then have "good (table E) (rs\<lparr>rs_state := st\<rparr>) st" by (simp add: t same_block)
  then show ?thesis
    using assms(1) b set_alist_update [of key "rs\<lparr>rs_state := st\<rparr>" "rm_registry R"]
    by (fastforce simp: with_block_def Some for_blocks_def t)
qed

lemma each_block_holds:
  assumes "\<And>rs st E. good' rs st \<Longrightarrow> table E = C \<Longrightarrow> good C rs (snd (f rs (E, st)))"
    and "\<And>rs b. table (fst (f rs b)) = table (fst b)"
  shows "\<forall>(key, rs) \<in> set reg. good' rs (rs_state rs) \<Longrightarrow> table E = C \<Longrightarrow>
    (\<forall>(key, rs) \<in> set (fst (each_block f reg E)). good C rs (rs_state rs)) \<and> table (snd (each_block f reg E)) = C"
proof (induction reg arbitrary: E)
  case (Cons kr reg)
  obtain key rs where kr: "kr = (key, rs)" by fastforce
  obtain E1 st where b: "f rs (E, rs_state rs) = (E1, st)" by fastforce
  with assms(2) [of rs "(E, rs_state rs)"] Cons.prems(2) have t: "table E1 = C" by simp
  have "good C rs st"
    using Cons.prems kr b assms(1) [of rs "rs_state rs" E] by simp
  moreover obtain reg' E2 where "each_block f reg E1 = (reg', E2)" by fastforce
  ultimately show ?case
    using Cons.IH [of E1] Cons.prems t kr by (simp add: b same_block)
qed simp

lemma all_blocks_holds:
  assumes "\<forall>(key, rs) \<in> set (rm_registry R). good' rs (rs_state rs)"
    and "\<And>rs st E. good' rs st \<Longrightarrow> table E = table (rm_engine R) \<Longrightarrow> good (table (rm_engine R)) rs (snd (f rs (E, st)))"
    and "\<And>rs b. table (fst (f rs b)) = table (fst b)"
  shows "for_blocks good (all_blocks f R)"
proof -
  obtain reg E where "each_block f (rm_registry R) (rm_engine R) = (reg, E)" by fastforce
  with each_block_holds [of good' "table (rm_engine R)" f "rm_registry R" "rm_engine R"] assms show ?thesis
    by (simp add: all_blocks_def for_blocks_def)
qed

lemma write_holds:
  assumes "for_blocks good R" "writer conn" "conn \<in> table (rm_engine R)"
  shows "for_blocks good (snd (write_block hook conn ip domain item key attr v R))"
proof (cases "map_of (rm_registry R) key")
  case None
  with assms(1) show ?thesis by (simp add: write_block_def)
next
  case (Some rs)
  show ?thesis
  proof (cases "check_rcb_write (rm_engine R) rs attr v conn ip = Inr ()")
    case True
    have "for_blocks good (with_block key (\<lambda>rs. on_rcb_write rs attr v conn ip) (R\<lparr>rm_engine := (rm_engine R)\<lparr>en_model := m\<rparr>\<rparr>))" for m
      using assms True Some
      by (intro with_block_holds) (auto simp: for_blocks_def table_simps intro: written [where E = "(rm_engine R)\<lparr>en_model := m\<rparr>", simplified])
    with True Some assms(1) show ?thesis
      by (simp add: write_block_def split: sum.split)
  next
    case False
    with Some assms(1) show ?thesis by (auto simp: write_block_def split: sum.split)
  qed
qed

lemma conns_hold:
  assumes "for_blocks good R" "table (rm_engine R) \<subseteq> dom (f (en_conns (rm_engine R)))"
    "dom (f (en_conns (rm_engine R))) \<subseteq> insert conn (table (rm_engine R))"
  shows "for_blocks good (with_conns f R)"
proof -
  have "dom (f (en_conns (rm_engine R))) = table (rm_engine R) \<or> dom (f (en_conns (rm_engine R))) = insert conn (table (rm_engine R))"
    using assms(2,3) by blast
  with assms(1) opened show ?thesis by (fastforce simp: for_blocks_def with_conns_def)
qed

lemma leave_holds:
  assumes "for_blocks good R" "list_all (\<lambda>(key, rs). leaver conn (rs_state rs)) (rm_registry R)"
  shows "for_blocks good (disable_conn conn (with_conns (\<lambda>t. t(conn := None)) R))"
  unfolding disable_conn_def
proof (rule all_blocks_holds [where good' = "\<lambda>rs st. good (table (rm_engine R)) rs st \<and> leaver conn st"])
  show "\<forall>(key, rs) \<in> set (rm_registry (with_conns (\<lambda>t. t(conn := None)) R)).
      good (table (rm_engine R)) rs (rs_state rs) \<and> leaver conn (rs_state rs)"
    using assms by (auto simp: for_blocks_def with_conns_def list_all_iff)
  show "good (table (rm_engine (with_conns (\<lambda>t. t(conn := None)) R))) rs (snd (leave_block conn rs (E, st)))"
    if "good (table (rm_engine R)) rs st \<and> leaver conn st" "table E = table (rm_engine (with_conns (\<lambda>t. t(conn := None)) R))" for rs st E
    using left [of "table (rm_engine R)" rs st conn E] that by (simp add: with_conns_def)
qed (simp add: table_simps)

lemma step_holds:
  assumes "for_blocks good R" "admits_event writer leaver closing e R"
  shows "for_blocks good (report_step e R)"
proof (cases e)
  case (RUpdate m cs)
  have u: "for_blocks good (R\<lparr>rm_engine := (rm_engine R)\<lparr>en_model := m\<rparr>\<rparr>)"
    using assms(1) by (simp add: for_blocks_def)
  have "for_blocks good (all_blocks (update_block cs) (R\<lparr>rm_engine := (rm_engine R)\<lparr>en_model := m\<rparr>\<rparr>))"
  proof (rule all_blocks_holds [where good' = "good (table (rm_engine R))"])
    show "good (table (rm_engine (R\<lparr>rm_engine := (rm_engine R)\<lparr>en_model := m\<rparr>\<rparr>))) rs (snd (update_block cs rs (E, st)))"
      if "good (table (rm_engine R)) rs st" "table E = table (rm_engine (R\<lparr>rm_engine := (rm_engine R)\<lparr>en_model := m\<rparr>\<rparr>))" for rs st E
      using updated [of E rs st cs] that by simp
  qed (use u in \<open>simp_all add: for_blocks_def table_simps\<close>)
  with u RUpdate show ?thesis by (simp add: on_update_def)
next
  case (RWrite hook conn ip domain item v)
  then show ?thesis
    using assms write_holds [of R conn] by (auto simp: domI split: option.split)
next
  case (ROpen conn sc)
  then show ?thesis using assms(1) by (auto intro: conns_hold [where conn = conn])
next
  case (RMoves conn sc)
  then show ?thesis using assms(1) by (auto intro!: conns_hold [where conn = conn] split: if_splits)
next
  case (REnd conn)
  then show ?thesis using assms leave_holds by simp
next
  case RShutdown
  show ?thesis
  proof -
    have "for_blocks good (all_blocks shutdown_block R)"
    proof (rule all_blocks_holds [where good' = "good (table (rm_engine R))"])
      show "good (table (rm_engine R)) rs (snd (shutdown_block rs (E, st)))"
        if "good (table (rm_engine R)) rs st" "table E = table (rm_engine R)" for rs st E
        using closed [of E rs st] that assms(2) RShutdown by simp
    qed (use assms(1) in \<open>simp_all add: for_blocks_def table_simps\<close>)
    with RShutdown show ?thesis by (simp add: shutdown_def)
  qed
qed (use assms in \<open>simp_all add: with_block_holds integrity window reservation table_simps\<close>)

lemma run_holds:
  "for_blocks good R \<Longrightarrow> admits writer leaver closing es R \<Longrightarrow> for_blocks good (report_run es R)"
  by (induction es arbitrary: R) (auto simp: report_run_def step_holds)

end

end
