(* ===== verification/Server_Delivery.thy ===== *)
theory Server_Delivery
  imports Server_Blocks
begin

text \<open>
  The report buffer of a buffered control block. Entries are delivered in the order of their
  events, each at most once; an entry that is lost is announced by the BufOvfl of the next report
  that is handed over. The invariant holds in every execution in which no association ends while
  a buffer-time window of one of its subscriptions is open.
\<close>

section \<open>The invariant\<close>

definition owed :: "(report_entry \<times> bool option) list \<Rightarrow> bool" where
  "owed past \<longleftrightarrow> past \<noteq> [] \<and> snd (last past) = None"

text \<open>A report handed over right after a lost one carries BufOvfl.\<close>

definition announced_losses :: "(report_entry \<times> bool option) list \<Rightarrow> bool" where
  "announced_losses past \<longleftrightarrow>
     (\<forall>i. Suc i < length past \<longrightarrow> snd (past ! i) = None \<longrightarrow> snd (past ! Suc i) \<noteq> Some False)"

lemma announced_losses_snoc:
  "announced_losses (past @ [(e, f)]) \<longleftrightarrow> announced_losses past \<and> (owed past \<longrightarrow> f \<noteq> Some False)"
proof (cases "past = []")
  case False
  then obtain n where n: "length past = Suc n" by (cases past) auto
  then have "owed past \<longleftrightarrow> snd (past ! n) = None" using False by (simp add: owed_def last_conv_nth)
  then show ?thesis
    unfolding announced_losses_def using n by (auto simp: nth_append less_Suc_eq)
qed (simp add: announced_losses_def owed_def)

lemma owed_snoc [simp]: "owed (past @ [(e, f)]) \<longleftrightarrow> f = None" "\<not> owed []"
  by (simp_all add: owed_def)

lemma announced_losses_Nil [simp]: "announced_losses []"
  by (simp add: announced_losses_def)

text \<open>The buffer while the entry at \<open>rt_next\<close> is waiting.\<close>

definition buffer_ok :: "rcb_runtime \<Rightarrow> bool" where
  "buffer_ok st \<longleftrightarrow>
     rt_next st \<le> length (rt_buffer st) \<and> rt_log st = map fst (rt_past st) @ drop (rt_next st) (rt_buffer st) \<and>
     announced_losses (rt_past st) \<and> (owed (rt_past st) \<longrightarrow> rt_buf_overflow st)"

definition subscribed :: "conn_id set \<Rightarrow> rcb_runtime \<Rightarrow> bool" where
  "subscribed C st \<longleftrightarrow> (case rt_conn st of None \<Rightarrow> \<not> rt_enabled st | Some c \<Rightarrow> rt_enabled st \<and> c \<in> C)"

definition delivery_inv :: "conn_id set \<Rightarrow> rcb_state \<Rightarrow> rcb_runtime \<Rightarrow> bool" where
  "delivery_inv C rs st \<longleftrightarrow>
     subscribed C st \<and> (rs_buffered rs \<longrightarrow> buffer_ok st \<and> length (rt_buffer st) \<le> rs_max_buffer rs)"

section \<open>Fields that sending does not touch\<close>

definition delivery_frame :: "rcb_runtime \<Rightarrow> rcb_runtime \<Rightarrow> bool" where
  "delivery_frame st st' \<longleftrightarrow>
     rt_enabled st' = rt_enabled st \<and> rt_conn st' = rt_conn st \<and> rt_owner st' = rt_owner st \<and>
     rt_owner_ip st' = rt_owner_ip st \<and> rt_resv_ip st' = rt_resv_ip st \<and> rt_resv_cfg st' = rt_resv_cfg st \<and>
     rt_resync_id st' = rt_resync_id st \<and> rt_integrity_gen st' = rt_integrity_gen st"

lemma delivery_frame_refl [simp]: "delivery_frame st st"
  by (simp add: delivery_frame_def)

lemma delivery_frame_trans: "delivery_frame st st1 \<Longrightarrow> delivery_frame st1 st2 \<Longrightarrow> delivery_frame st st2"
  by (simp add: delivery_frame_def)

lemma subscribed_frame: "delivery_frame st st' \<Longrightarrow> subscribed C st' = subscribed C st"
  by (auto simp: delivery_frame_def subscribed_def split: option.splits)

lemma transmit_frame: "delivery_frame st (snd (transmit rs e (E, st)))"
  by (auto simp: transmit_def set_sq_num_def note_past_def delivery_frame_def Let_def split: option.splits prod.splits)

lemma transmit_buffered_frame: "delivery_frame (snd b) (snd (transmit_buffered rs b))"
proof (induction rs b rule: transmit_buffered.induct)
  case (1 rs E st)
  obtain E' st' where b: "transmit rs (rt_buffer st ! rt_next st) (E, st) = (E', st')" by fastforce
  have "delivery_frame st (st'\<lparr>rt_next := rt_next st' + 1\<rparr>)"
    using transmit_frame [of st rs "rt_buffer st ! rt_next st" E] b by (simp add: delivery_frame_def)
  with 1 b delivery_frame_trans show ?case
    by (subst transmit_buffered.simps) fastforce
qed

lemma discard_oldest_frame: "delivery_frame st (discard_oldest n st)"
proof (induction n st rule: discard_oldest.induct)
  case (1 n st)
  then show ?case
    by (subst discard_oldest.simps) (auto simp: delivery_frame_def note_past_def Let_def)
qed

lemma emit_frame: "delivery_frame (snd b) (snd (emit rs e b))"
proof (cases b)
  case (Pair E st)
  have "delivery_frame st (discard_oldest (rs_max_buffer rs) (st\<lparr>rt_buffer := rt_buffer st @ [e'], rt_log := rt_log st @ [e']\<rparr>))" for e'
    using discard_oldest_frame [of "st\<lparr>rt_buffer := rt_buffer st @ [e'], rt_log := rt_log st @ [e']\<rparr>" "rs_max_buffer rs"]
    by (simp add: delivery_frame_def)
  then show ?thesis
    using transmit_frame transmit_buffered_frame delivery_frame_trans
    by (fastforce simp: Pair emit_def system_now_def next_entry_id_def Let_def)
qed

lemma flush_pending_frame: "delivery_frame (snd b) (snd (flush_pending rs b))"
proof (cases b)
  case (Pair E st)
  define st1 where "st1 = st\<lparr>rt_pending := None, rt_pending_gen := rt_pending_gen st + 1, rt_pending_timer := False\<rparr>"
  have "delivery_frame st st1" by (simp add: st1_def delivery_frame_def)
  with emit_frame [of "(E, st1)"] delivery_frame_trans show ?thesis
    unfolding Pair flush_pending_def prod.case st1_def [symmetric] by (fastforce simp: Let_def split: option.split)
qed

section \<open>Sending keeps the invariant\<close>

lemma transmit_fate:
  assumes "rt_conn st = Some c" "c \<in> table E" "rs_buffered rs"
  shows "\<exists>E' st'. transmit rs e (E, st) = (E', st') \<and> rt_log st' = rt_log st \<and>
    (rt_past st' = rt_past st @ [(e, Some (rt_buf_overflow st))] \<and> \<not> rt_buf_overflow st' \<or>
     rt_past st' = rt_past st @ [(e, None)] \<and> rt_buf_overflow st')"
proof -
  obtain sc where sc: "en_conns E c = Some sc" using assms(2) by blast
  obtain E1 st1 where q: "set_sq_num rs (rt_sq_num st + 1) (E, st) = (E1, st1)" by fastforce
  then have s: "rt_past st1 = rt_past st" "rt_log st1 = rt_log st" "rt_buf_overflow st1 = rt_buf_overflow st"
    by (auto simp: set_sq_num_def Let_def split: if_splits)
  obtain ok sc' where "send_pdus (report_pdus E1 rs e (rt_sq_num st) (rt_buf_overflow st) (sc_max_pdu sc)) sc = (ok, sc')"
    by fastforce
  with assms sc q s show ?thesis
    by (cases ok) (simp_all add: transmit_def note_past_def)
qed

lemma transmit_buffered_ok:
  assumes "rs_buffered rs"
  shows "buffer_ok (snd b) \<Longrightarrow> subscribed (table (fst b)) (snd b) \<Longrightarrow> rt_enabled (snd b) \<Longrightarrow>
    buffer_ok (snd (transmit_buffered rs b)) \<and> rt_buffer (snd (transmit_buffered rs b)) = rt_buffer (snd b) \<and>
    rt_next (snd (transmit_buffered rs b)) = length (rt_buffer (snd b))"
  using assms
proof (induction rs b rule: transmit_buffered.induct)
  case (1 rs E st)
  show ?case
  proof (cases "rt_next st < length (rt_buffer st)")
    case True
    let ?e = "rt_buffer st ! rt_next st"
    obtain c where c: "rt_conn st = Some c" "c \<in> table E"
      using "1.prems"(2,3) by (auto simp: subscribed_def split: option.splits)
    have k: "rt_buffer (snd (transmit rs ?e (E, st))) = rt_buffer st" "rt_next (snd (transmit rs ?e (E, st))) = rt_next st"
      by (rule transmit_keeps)+
    have d: "drop (rt_next st) (rt_buffer st) = ?e # drop (Suc (rt_next st)) (rt_buffer st)"
      using True by (rule Cons_nth_drop_Suc [symmetric])
    obtain E' st' where t: "transmit rs ?e (E, st) = (E', st')" "rt_log st' = rt_log st"
      "rt_past st' = rt_past st @ [(?e, Some (rt_buf_overflow st))] \<and> \<not> rt_buf_overflow st' \<or>
       rt_past st' = rt_past st @ [(?e, None)] \<and> rt_buf_overflow st'"
      using transmit_fate [OF c "1.prems"(4), of ?e] by blast
    have ok: "buffer_ok (st'\<lparr>rt_next := rt_next st' + 1\<rparr>)"
      using "1.prems"(1) k d True t by (auto simp: buffer_ok_def announced_losses_snoc)
    have f: "delivery_frame st (st'\<lparr>rt_next := rt_next st' + 1\<rparr>)"
      using transmit_frame [of st rs ?e E] t by (simp add: delivery_frame_def)
    have tb: "table E' = table E" using table_transmit [of rs ?e "(E, st)"] t by simp
    have "subscribed (table E') (st'\<lparr>rt_next := rt_next st' + 1\<rparr>)" "rt_enabled (st'\<lparr>rt_next := rt_next st' + 1\<rparr>)"
      using subscribed_frame [OF f, of "table E"] f "1.prems"(2,3) tb by (simp_all add: delivery_frame_def)
    with "1.IH" [OF True t(1) [symmetric]] t(1) ok k True "1.prems"(4) show ?thesis
      by (simp add: transmit_buffered.simps [of rs E st])
  next
    case False
    with "1.prems" show ?thesis by (simp add: transmit_buffered.simps [of rs E st] buffer_ok_def)
  qed
qed

lemma discard_oldest_ok:
  "buffer_ok st \<Longrightarrow> buffer_ok (discard_oldest n st) \<and> length (rt_buffer (discard_oldest n st)) \<le> n"
proof (induction n st rule: discard_oldest.induct)
  case (1 n st)
  show ?case
  proof (cases "length (rt_buffer st) > n")
    case True
    then obtain x xs where b: "rt_buffer st = x # xs" by (cases "rt_buffer st") auto
    define st1 where "st1 = st\<lparr>rt_buffer := tl (rt_buffer st)\<rparr>"
    define st2 where "st2 = (if rt_next st > 0 then st1\<lparr>rt_next := rt_next st - 1\<rparr>
        else note_past (hd (rt_buffer st)) None (st1\<lparr>rt_buf_overflow := True\<rparr>))"
    have "buffer_ok st2"
      using "1.prems" b
      by (cases "rt_next st") (auto simp: st2_def st1_def note_past_def buffer_ok_def announced_losses_snoc)
    with 1 True show ?thesis
      by (subst (1 2) discard_oldest.simps) (simp add: Let_def flip: st1_def st2_def)
  next
    case False
    with "1.prems" show ?thesis by (subst (1 2) discard_oldest.simps) simp
  qed
qed

lemma emit_ok:
  assumes "delivery_inv (table (fst b)) rs (snd b)"
  shows "delivery_inv (table (fst b)) rs (snd (emit rs e b))"
proof (cases b)
  case (Pair E st)
  have sub: "subscribed (table E) (snd (emit rs e b))"
    using assms subscribed_frame [OF emit_frame [of b rs e]] by (simp add: Pair delivery_inv_def)
  show ?thesis
  proof (cases "rs_buffered rs")
    case True
    obtain now E0 where now: "system_now E = (now, E0)" by fastforce
    obtain i E1 where i: "next_entry_id E0 = (i, E1)" by fastforce
    define e' where "e' = e\<lparr>re_time := now, re_id := i\<rparr>"
    define E2 where "E2 = set_rcb_attr rs ''TimeofEntry'' (binary_time now) (set_rcb_attr rs ''EntryID'' (OctetStringV i) E1)"
    define st0 where "st0 = st\<lparr>rt_buffer := rt_buffer st @ [e'], rt_log := rt_log st @ [e']\<rparr>"
    define st1 where "st1 = discard_oldest (rs_max_buffer rs) st0"
    have "buffer_ok st0"
      using assms True by (simp add: Pair delivery_inv_def buffer_ok_def st0_def)
    then have s1: "buffer_ok st1" "length (rt_buffer st1) \<le> rs_max_buffer rs"
      using discard_oldest_ok [of st0 "rs_max_buffer rs"] by (simp_all add: st1_def)
    have t: "table E2 = table E"
      using now i by (auto simp: E2_def next_entry_id_def system_now_def Let_def)
    have "delivery_frame st st1"
      using discard_oldest_frame [of st0 "rs_max_buffer rs"] by (simp add: st1_def st0_def delivery_frame_def)
    then have "subscribed (table E2) st1"
      using assms t by (simp add: Pair delivery_inv_def subscribed_frame)
    then have "buffer_ok (snd (if rt_enabled st1 then transmit_buffered rs (E2, st1) else (E2, st1))) \<and>
        length (rt_buffer (snd (if rt_enabled st1 then transmit_buffered rs (E2, st1) else (E2, st1)))) \<le> rs_max_buffer rs"
      using s1 transmit_buffered_ok [OF True, of "(E2, st1)"] by simp
    moreover have "emit rs e b = (if rt_enabled st1 then transmit_buffered rs (E2, st1) else (E2, st1))"
      using True now i by (simp add: Pair emit_def Let_def E2_def st1_def st0_def e'_def)
    ultimately show ?thesis using sub True by (simp add: Pair delivery_inv_def)
  qed (use sub in \<open>simp add: Pair delivery_inv_def\<close>)
qed

text \<open>Fields on which the invariant does not depend.\<close>

definition delivery_same :: "rcb_runtime \<Rightarrow> rcb_runtime \<Rightarrow> bool" where
  "delivery_same st st' \<longleftrightarrow>
     rt_enabled st' = rt_enabled st \<and> rt_conn st' = rt_conn st \<and> rt_buffer st' = rt_buffer st \<and> rt_next st' = rt_next st \<and>
     rt_log st' = rt_log st \<and> rt_past st' = rt_past st \<and> rt_buf_overflow st' = rt_buf_overflow st"

lemma delivery_inv_same: "delivery_same st st' \<Longrightarrow> delivery_inv C rs st \<Longrightarrow> delivery_inv C rs st'"
  by (auto simp: delivery_same_def delivery_inv_def buffer_ok_def subscribed_def split: option.splits)

lemma flush_pending_ok:
  assumes "delivery_inv (table (fst b)) rs (snd b)"
  shows "delivery_inv (table (fst b)) rs (snd (flush_pending rs b))"
proof (cases b)
  case (Pair E st)
  define st1 where "st1 = st\<lparr>rt_pending := None, rt_pending_gen := rt_pending_gen st + 1, rt_pending_timer := False\<rparr>"
  have "delivery_same st st1" by (simp add: st1_def delivery_same_def)
  then have "delivery_inv (table E) rs st1" using assms by (simp add: Pair delivery_inv_same)
  with emit_ok [of "(E, st1)" rs] assms show ?thesis
    unfolding Pair flush_pending_def prod.case st1_def [symmetric] by (simp add: Let_def split: option.split)
qed

lemma report_all_ok:
  assumes "delivery_inv (table (fst b)) rs (snd b)"
  shows "delivery_inv (table (fst b)) rs (snd (report_all rs reason b))"
proof -
  obtain E st where f: "flush_pending rs b = (E, st)" by fastforce
  have t: "table E = table (fst b)" using table_flush_pending [of rs b] f by simp
  then have "delivery_inv (table (snd (system_now E))) rs st"
    using flush_pending_ok [OF assms] f by (simp add: system_now_def)
  with emit_ok [of "(snd (system_now E), st)" rs] t show ?thesis
    by (simp add: report_all_def f system_now_def Let_def)
qed

lemma event_ok':
  assumes "delivery_inv (table (fst b)) rs (snd b)"
  shows "delivery_inv (table (fst b)) rs (snd (event rs e b))"
proof (cases b)
  case (Pair E st)
  define b1 where "b1 = (if case rt_pending st of None \<Rightarrow> False | Some p \<Rightarrow> overlaps p e then flush_pending rs (E, st) else (E, st))"
  have b1: "delivery_inv (table E) rs (snd b1)" "table (fst b1) = table E"
    using assms flush_pending_ok [of "(E, st)" rs] by (simp_all add: Pair b1_def table_simps)
  then have e1: "delivery_inv (table E) rs (snd (emit rs e b1))" using emit_ok [of b1 rs e] by simp
  have "delivery_inv (table E) rs (st1\<lparr>rt_pending := p\<rparr>)" "delivery_inv (table E) rs (st1\<lparr>rt_pending := p, rt_pending_timer := True\<rparr>)"
    if "delivery_inv (table E) rs st1" for st1 p
    using that by (auto intro: delivery_inv_same simp: delivery_same_def)
  then show ?thesis
    using b1 e1 assms emit_ok [of "(E, st)" rs e] unfolding Pair event_def prod.case b1_def [symmetric]
    by (cases b1) (auto simp: system_now_def split: option.split)
qed

lemma update_block_ok:
  assumes "delivery_inv (table E) rs st"
  shows "delivery_inv (table E) rs (snd (update_block cs rs (E, st)))"
  using assms event_ok' [of "(snd (system_now E), st)" rs]
  by (auto simp: update_block_def system_now_def Let_def split: option.split)

section \<open>Reservation and subscription\<close>

lemma set_sq_num_same: "delivery_same (snd b) (snd (set_sq_num rs n b))"
  by (cases b) (simp add: set_sq_num_def Let_def delivery_same_def)

lemma take_block_same: "delivery_same (snd b) (snd (take_block rs conn ip b))"
  by (cases b) (simp add: take_block_def sync_resv_def stop_resv_timer_def Let_def delivery_same_def)

lemma release_same: "delivery_same (snd b) (snd (release rs b))"
  by (cases b) (simp add: release_def sync_resv_def stop_resv_timer_def Let_def delivery_same_def)

lemma reservation_ok:
  assumes "delivery_inv C rs (snd b)"
  shows "delivery_inv C rs (snd (take_block rs conn ip b))" "delivery_inv C rs (snd (release rs b))"
  using delivery_inv_same [OF take_block_same assms] delivery_inv_same [OF release_same assms] .

lemma stop_same: "delivery_same st (stop_integrity st)" "delivery_same st (stop_resv_timer st)"
  by (simp_all add: stop_integrity_def stop_resv_timer_def delivery_same_def)

lemma resv_turn_same: "delivery_same st (snd (resv_turn g rs (E, st)))"
  by (simp add: resv_turn_def sync_resv_def delivery_same_def)

lemma delivery_same_trans: "delivery_same st st1 \<Longrightarrow> delivery_same st1 st2 \<Longrightarrow> delivery_same st st2"
  by (simp add: delivery_same_def)

lemma buffer_ok_same: "delivery_same st st' \<Longrightarrow> buffer_ok st' = buffer_ok st"
  by (simp add: delivery_same_def buffer_ok_def)

lemma position_less: "position P xs = Some i \<Longrightarrow> i < length xs \<and> P (xs ! i)"
  by (induction xs arbitrary: i) (auto split: if_splits)

lemma resync_ok:
  assumes "buffer_ok st"
  shows "buffer_ok (resync st)" "rt_buffer (resync st) = rt_buffer st" "rt_enabled (resync st) = rt_enabled st"
    "rt_conn (resync st) = rt_conn st"
  using assms
  by (auto simp: resync_def Let_def buffer_ok_def buffer_index_def Suc_le_eq split: option.splits dest: position_less)

lemma resume_delivery_ok:
  assumes "rs_buffered rs \<longrightarrow> buffer_ok (snd b)" "subscribed (table (fst b)) (snd b)" "rt_enabled (snd b)"
  shows "(rs_buffered rs \<longrightarrow> buffer_ok (snd (resume_delivery rs b)) \<and>
      rt_buffer (snd (resume_delivery rs b)) = rt_buffer (snd b)) \<and>
    rt_enabled (snd (resume_delivery rs b)) \<and> rt_conn (snd (resume_delivery rs b)) = rt_conn (snd b)"
proof (cases "rs_buffered rs")
  case True
  obtain E st where b: "b = (E, st)" by fastforce
  have ok: "buffer_ok (resync st)" "rt_buffer (resync st) = rt_buffer st" "rt_enabled (resync st) = rt_enabled st"
    "rt_conn (resync st) = rt_conn st"
    using resync_ok [of st] assms(1) True b by simp_all
  have "subscribed (table E) (resync st)"
    using assms(2) ok(3,4) b by (simp add: subscribed_def split: option.splits)
  with ok assms(3) transmit_buffered_ok [OF True, of "(E, resync st)"] transmit_buffered_frame [of "(E, resync st)" rs] show ?thesis
    by (simp add: resume_delivery_def b True delivery_frame_def)
qed (use assms in \<open>cases b; simp add: resume_delivery_def\<close>)

lemma enable_ok:
  assumes "delivery_inv (table (fst b)) rs (snd b)" "conn \<in> table (fst b)"
  shows "delivery_inv (table (fst b)) rs (snd (enable rs conn ip b))"
proof (cases b)
  case (Pair E st)
  define st1 where "st1 = st\<lparr>rt_enabled := True, rt_conn := Some conn\<rparr>"
  define b1 where "b1 = (if rt_owner st1 \<noteq> Some conn then take_block rs conn ip (E, st1) else (E, st1))"
  define b2 where "b2 = apsnd stop_integrity (set_sq_num rs 0 b1)"
  define b3 where "b3 = resume_delivery rs b2"
  have "delivery_same st1 (snd b1)"
    using take_block_same [of "(E, st1)"] by (simp add: b1_def delivery_same_def)
  then have s: "delivery_same st1 (snd b2)"
    using set_sq_num_same [of b1 rs 0] stop_same(1) delivery_same_trans by (fastforce simp: b2_def)
  have t: "table (fst b2) = table E" by (simp add: b2_def b1_def table_simps)
  have "rs_buffered rs \<longrightarrow> buffer_ok (snd b2)"
    using assms(1) buffer_ok_same [OF s] by (simp add: Pair delivery_inv_def buffer_ok_def st1_def)
  moreover have "subscribed (table (fst b2)) (snd b2)" "rt_enabled (snd b2)"
    using s t assms(2) by (simp_all add: subscribed_def delivery_same_def st1_def Pair)
  ultimately have r: "(rs_buffered rs \<longrightarrow> buffer_ok (snd b3) \<and> rt_buffer (snd b3) = rt_buffer (snd b2))"
      "rt_enabled (snd b3)" "rt_conn (snd b3) = rt_conn (snd b2)"
    using resume_delivery_ok [of rs b2] by (simp_all add: b3_def)
  have "delivery_inv (table E) rs (snd b3)"
    using r s assms by (auto simp: delivery_inv_def subscribed_def delivery_same_def st1_def Pair)
  moreover have "enable rs conn ip b = start_integrity rs b3"
    by (simp only: Pair enable_def prod.case Let_def b3_def b2_def b1_def st1_def)
  then have "delivery_same (snd b3) (snd (enable rs conn ip b))"
    by (cases b3) (simp add: start_integrity_def delivery_same_def)
  ultimately show ?thesis using delivery_inv_same by (simp add: Pair)
qed

lemma disable_ok:
  assumes "delivery_inv (table (fst b)) rs (snd b)"
  shows "delivery_inv (table (fst b)) rs (snd (disable rs b))"
proof -
  obtain E st where f: "flush_pending rs b = (E, st)" by fastforce
  define st1 where "st1 = stop_integrity (st\<lparr>rt_enabled := False, rt_conn := None\<rparr>)"
  have "delivery_inv (table (fst b)) rs st" using flush_pending_ok [OF assms] f by simp
  then have "delivery_inv (table (fst b)) rs st1"
    by (simp add: st1_def stop_integrity_def delivery_inv_def subscribed_def buffer_ok_def)
  with reservation_ok(2) [of _ rs "(E, st1)"] show ?thesis
    by (simp add: disable_def f Let_def flip: st1_def)
qed

lemma purge_ok: "delivery_inv C rs st \<Longrightarrow> delivery_inv C rs (purge st)"
  by (simp add: purge_def delivery_inv_def buffer_ok_def subscribed_def split: option.splits)

lemma rcb_effect_ok:
  assumes "delivery_inv (table (fst b)) rs (snd b)" "conn \<in> table (fst b)"
  shows "delivery_inv (table (fst b)) rs (snd (rcb_effect rs attr v conn ip b))"
proof (cases b)
  case (Pair E st)
  define b1 where "b1 = (if as_bool v \<and> trg_has (rcb_trg_ops (en_model E) rs) TRG_GI then report_all rs RC_GI (E, st) else (E, st))"
  have "delivery_inv (table E) rs (snd b1)"
    using assms(1) report_all_ok [of "(E, st)" rs] by (simp add: Pair b1_def)
  moreover have "delivery_inv (table E) rs (st\<lparr>rt_resync_id := i\<rparr>)" "delivery_inv (table E) rs (stop_resv_timer st)" for i
    using assms(1) delivery_inv_same [of st] stop_same(2) [of st] by (simp_all add: Pair delivery_same_def)
  ultimately show ?thesis
    using assms enable_ok [of b rs conn ip] disable_ok [of b rs] purge_ok [of "table E" rs st]
    unfolding Pair rcb_effect_def prod.case b1_def [symmetric]
    by (cases b1) (simp add: Let_def)
qed

lemma on_rcb_write_ok:
  assumes "delivery_inv (table (fst b)) rs (snd b)" "conn \<in> table (fst b)"
  shows "delivery_inv (table (fst b)) rs (snd (on_rcb_write rs attr v conn ip b))"
proof (cases b)
  case (Pair E st)
  have t: "delivery_inv (table E) rs (snd (take_block rs conn ip (E, st)))" "delivery_inv (table E) rs (snd (release rs (E, st)))"
    using assms(1) reservation_ok [of _ rs "(E, st)"] by (simp_all add: Pair)
  then have "delivery_inv (table E) rs
      (snd (rcb_effect rs attr v conn ip (if rt_owner st = None then take_block rs conn ip (E, st) else (E, st))))"
    using rcb_effect_ok [of "take_block rs conn ip (E, st)" rs conn] rcb_effect_ok [of "(E, st)" rs conn] assms
    by (simp add: Pair table_take_block)
  with t show ?thesis by (simp add: Pair on_rcb_write_def)
qed

text \<open>No window of a subscription is open when its association ends.\<close>

definition no_window :: "conn_id \<Rightarrow> rcb_runtime \<Rightarrow> bool" where
  "no_window conn st \<longleftrightarrow> (rt_conn st = Some conn \<longrightarrow> rt_pending st = None)"

lemma leave_block_ok:
  assumes "delivery_inv C rs st" "no_window conn st" "table E = C - {conn}"
  shows "delivery_inv (table E) rs (snd (leave_block conn rs (E, st)))"
proof -
  define b1 where "b1 = (if rt_conn st = Some conn then disable rs (E, st) else (E, st))"
  have "delivery_inv (table E) rs (snd b1)"
  proof (cases "rt_conn st = Some conn")
    case True
    define st1 where "st1 = stop_integrity (st\<lparr>rt_enabled := False, rt_conn := None\<rparr>)"
    have "delivery_inv (table E) rs st1"
      using assms(1) by (simp add: st1_def stop_integrity_def delivery_inv_def subscribed_def buffer_ok_def)
    moreover have "b1 = (if rs_buffered rs then release rs (E, st1) else (E, st1))"
      using assms(2) True by (simp add: b1_def disable_def flush_pending_def no_window_def st1_def Let_def)
    ultimately show ?thesis
      using reservation_ok(2) [of _ rs "(E, st1)"] by simp
  next
    case False
    with assms(1,3) show ?thesis
      by (auto simp: b1_def delivery_inv_def subscribed_def split: option.splits)
  qed
  with reservation_ok(2) [of _ rs b1] show ?thesis
    by (simp add: leave_block_def Let_def flip: b1_def)
qed

interpretation delivery: block_contract delivery_inv "\<lambda>_. True" no_window True
proof (unfold_locales, goal_cases)
  case (1 C rs x st) then show ?case by (simp add: delivery_inv_def)
next
  case (2 E rs st cs) then show ?case by (rule update_block_ok)
next
  case (3 E rs conn E0 attr v ip) then show ?case using on_rcb_write_ok [of "(E, rs_state rs)"] by simp
next
  case (4 E rs st g) then show ?case using report_all_ok [of "(E, st)"] by (simp add: integrity_turn_def)
next
  case (5 E rs st g)
  have "delivery_inv (table E) rs (st\<lparr>rt_pending_timer := False\<rparr>)"
    using 5 delivery_inv_same [of st] by (simp add: delivery_same_def)
  then show ?case using 5 flush_pending_ok [of "(E, st\<lparr>rt_pending_timer := False\<rparr>)" rs] by (simp add: window_turn_def)
next
  case (6 E rs st g) then show ?case using resv_turn_same delivery_inv_same by blast
next
  case (7 C rs st conn E) then show ?case by (rule leave_block_ok)
next
  case (8 C rs st conn) then show ?case by (auto simp: delivery_inv_def subscribed_def split: option.splits)
next
  case (9 E rs st)
  then show ?case
    by (simp add: shutdown_block_def stop_resv_timer_def stop_integrity_def Let_def delivery_inv_def subscribed_def buffer_ok_def)
qed

end
