(* ===== verification/Server_Holding.thy ===== *)
theory Server_Holding
  imports Server_Delivery
begin

text \<open>
  Who holds a control block. A subscription always belongs to the holder; while a client holds a
  block nobody else's requests, no update and no timer take it away. Also here: the state in which
  a server starts.
\<close>

section \<open>The holder is the subscriber\<close>

definition holder_inv :: "conn_id set \<Rightarrow> rcb_state \<Rightarrow> rcb_runtime \<Rightarrow> bool" where
  "holder_inv C rs st \<longleftrightarrow>
     (rt_enabled st \<longleftrightarrow> rt_conn st \<noteq> None) \<and> (rt_conn st \<noteq> None \<longrightarrow> rt_owner st = rt_conn st)"

lemma holder_inv_frame: "delivery_frame st st' \<Longrightarrow> holder_inv C rs st' = holder_inv C rs st"
  by (simp add: delivery_frame_def holder_inv_def)

lemma report_all_frame: "delivery_frame (snd b) (snd (report_all rs reason b))"
proof -
  obtain E st where f: "flush_pending rs b = (E, st)" by fastforce
  have "delivery_frame (snd b) st" using flush_pending_frame [of b rs] f by simp
  moreover have "delivery_frame st (snd (emit rs e (E1, st)))" for e E1
    using emit_frame [of "(E1, st)"] by simp
  ultimately show ?thesis
    using delivery_frame_trans by (fastforce simp: report_all_def f system_now_def Let_def)
qed

lemma event_frame: "delivery_frame (snd b) (snd (event rs e b))"
proof (cases b)
  case (Pair E st)
  define b1 where "b1 = (if case rt_pending st of None \<Rightarrow> False | Some p \<Rightarrow> overlaps p e then flush_pending rs (E, st) else (E, st))"
  have f: "delivery_frame st (snd b1)"
    using flush_pending_frame [of "(E, st)"] by (simp add: b1_def)
  then have "delivery_frame st (snd (emit rs e b1))"
    using emit_frame delivery_frame_trans by blast
  with f emit_frame [of "(E, st)" rs e] show ?thesis
    unfolding Pair event_def prod.case b1_def [symmetric]
    by (cases b1) (auto simp: system_now_def delivery_frame_def split: option.split)
qed

lemma update_block_frame: "delivery_frame st (snd (update_block cs rs (E, st)))"
proof -
  have "delivery_frame st (snd (event rs e (E1, st)))" for e E1
    using event_frame [of "(E1, st)"] by simp
  then show ?thesis
    by (simp add: update_block_def system_now_def Let_def split: option.split)
qed

lemma integrity_turn_frame: "delivery_frame st (snd (integrity_turn g rs (E, st)))"
  using report_all_frame [of "(E, st)"] by (simp add: integrity_turn_def)

lemma window_turn_frame: "delivery_frame st (snd (window_turn g rs (E, st)))"
  using flush_pending_frame [of "(E, st\<lparr>rt_pending_timer := False\<rparr>)"] by (simp add: window_turn_def delivery_frame_def)

lemma resv_turn_keeps:
  "rt_enabled (snd (resv_turn g rs (E, st))) = rt_enabled st" "rt_conn (snd (resv_turn g rs (E, st))) = rt_conn st"
  "rt_owner (snd (resv_turn g rs (E, st))) = rt_owner st"
  by (simp_all add: resv_turn_def sync_resv_def)

lemma take_block_fields [simp]:
  "rt_owner (snd (take_block rs conn ip b)) = Some conn" "rt_enabled (snd (take_block rs conn ip b)) = rt_enabled (snd b)"
  "rt_conn (snd (take_block rs conn ip b)) = rt_conn (snd b)"
  by (cases b; simp add: take_block_def sync_resv_def stop_resv_timer_def Let_def)+

lemma release_fields [simp]:
  "rt_owner (snd (release rs b)) = None" "rt_enabled (snd (release rs b)) = rt_enabled (snd b)"
  "rt_conn (snd (release rs b)) = rt_conn (snd b)"
  by (cases b; simp add: release_def sync_resv_def stop_resv_timer_def Let_def)+

lemma resync_fields [simp]:
  "rt_enabled (resync st) = rt_enabled st" "rt_conn (resync st) = rt_conn st" "rt_owner (resync st) = rt_owner st"
  by (auto simp: resync_def Let_def split: option.split)

lemma enable_fields:
  "rt_owner (snd (enable rs conn ip b)) = Some conn" "rt_enabled (snd (enable rs conn ip b))"
  "rt_conn (snd (enable rs conn ip b)) = Some conn"
proof -
  obtain E st where b: "b = (E, st)" by fastforce
  define st1 where "st1 = st\<lparr>rt_enabled := True, rt_conn := Some conn\<rparr>"
  define b1 where "b1 = (if rt_owner st1 \<noteq> Some conn then take_block rs conn ip (E, st1) else (E, st1))"
  define b2 where "b2 = apsnd stop_integrity (set_sq_num rs 0 b1)"
  have f1: "rt_owner (snd b1) = Some conn \<and> rt_enabled (snd b1) \<and> rt_conn (snd b1) = Some conn"
    by (simp add: b1_def st1_def)
  have f2: "rt_owner (snd b2) = Some conn \<and> rt_enabled (snd b2) \<and> rt_conn (snd b2) = Some conn"
    using f1 by (cases b1) (simp add: b2_def set_sq_num_def stop_integrity_def Let_def)
  have f3: "rt_owner (snd (resume_delivery rs b2)) = Some conn \<and> rt_enabled (snd (resume_delivery rs b2)) \<and>
      rt_conn (snd (resume_delivery rs b2)) = Some conn"
    using f2 transmit_buffered_frame [of "(fst b2, resync (snd b2))" rs]
    by (cases b2) (simp add: resume_delivery_def delivery_frame_def)
  have "enable rs conn ip b = start_integrity rs (resume_delivery rs b2)"
    by (simp only: b enable_def prod.case Let_def b2_def b1_def st1_def)
  with f3 show "rt_owner (snd (enable rs conn ip b)) = Some conn" "rt_enabled (snd (enable rs conn ip b))"
    "rt_conn (snd (enable rs conn ip b)) = Some conn"
    by (cases "resume_delivery rs b2"; simp add: start_integrity_def)+
qed

lemma disable_fields [simp]: "\<not> rt_enabled (snd (disable rs b))" "rt_conn (snd (disable rs b)) = None"
  by (simp_all add: disable_def stop_integrity_def Let_def split: prod.split)

lemma rcb_effect_holder:
  assumes "holder_inv C rs (snd b)"
  shows "holder_inv C rs (snd (rcb_effect rs attr v conn ip b))"
proof (cases b)
  case (Pair E st)
  define b1 where "b1 = (if as_bool v \<and> trg_has (rcb_trg_ops (en_model E) rs) TRG_GI then report_all rs RC_GI (E, st) else (E, st))"
  have "holder_inv C rs (snd b1)"
    using assms holder_inv_frame [OF report_all_frame [of "(E, st)" rs RC_GI]] by (simp add: Pair b1_def)
  moreover have "holder_inv C rs (snd (enable rs conn ip (E, st)))" "holder_inv C rs (snd (disable rs (E, st)))"
    by (simp_all add: holder_inv_def enable_fields)
  moreover have "holder_inv C rs (st\<lparr>rt_resync_id := i\<rparr>)" "holder_inv C rs (stop_resv_timer st)" "holder_inv C rs (purge st)" for i
    using assms by (simp_all add: Pair holder_inv_def stop_resv_timer_def purge_def)
  ultimately show ?thesis
    using assms unfolding Pair rcb_effect_def prod.case b1_def [symmetric]
    by (cases b1) (simp add: Let_def)
qed

lemma check_rcb_write_allowed:
  assumes "check_rcb_write E rs attr v conn ip = Inr ()"
  shows "allowed conn ip (rs_state rs)"
    and "attr = ascii ''Resv'' \<Longrightarrow> \<not> as_bool v \<Longrightarrow> \<not> rt_enabled (rs_state rs)"
  using assms by (auto simp: check_rcb_write_def Let_def RCB_READ_ONLY_def ascii_def split: if_splits)

lemma on_rcb_write_holder:
  assumes "holder_inv C rs (rs_state rs)" "check_rcb_write E0 rs attr v conn ip = Inr ()"
  shows "holder_inv C rs (snd (on_rcb_write rs attr v conn ip (E, rs_state rs)))"
proof -
  have al: "rt_owner (rs_state rs) = None \<or> rt_owner (rs_state rs) = Some conn"
    using check_rcb_write_allowed(1) [OF assms(2)] by (auto simp: allowed_def split: option.splits)
  then have t: "holder_inv C rs (snd (take_block rs conn ip (E, rs_state rs)))"
    using assms(1) by (auto simp: holder_inv_def)
  have "holder_inv C rs (snd (release rs (E, rs_state rs)))" if "attr = ascii ''Resv''" "\<not> as_bool v"
    using check_rcb_write_allowed(2) [OF assms(2) that] assms(1) by (simp add: holder_inv_def)
  with t assms(1) show ?thesis
    by (auto simp: on_rcb_write_def intro: rcb_effect_holder)
qed

lemma leave_block_holder:
  assumes "holder_inv C rs st"
  shows "holder_inv C' rs (snd (leave_block conn rs (E, st)))"
  using assms by (auto simp: leave_block_def holder_inv_def Let_def)

interpretation holder: block_contract holder_inv "\<lambda>_. True" "\<lambda>_ _. True" True
proof (unfold_locales, goal_cases)
  case (1 C rs x st) then show ?case by (simp add: holder_inv_def)
next
  case (2 E rs st cs) then show ?case using holder_inv_frame [OF update_block_frame] by blast
next
  case (3 E rs conn E0 attr v ip) then show ?case by (intro on_rcb_write_holder)
next
  case (4 E rs st g) then show ?case using holder_inv_frame [OF integrity_turn_frame] by blast
next
  case (5 E rs st g) then show ?case using holder_inv_frame [OF window_turn_frame] by blast
next
  case (6 E rs st g) then show ?case by (simp add: holder_inv_def resv_turn_keeps)
next
  case (7 C rs st conn E) then show ?case by (intro leave_block_holder)
next
  case (8 C rs st conn) then show ?case by (simp add: holder_inv_def)
next
  case (9 E rs st)
  then show ?case
    by (simp add: shutdown_block_def stop_resv_timer_def stop_integrity_def Let_def holder_inv_def)
qed

section \<open>A held block\<close>

text \<open>The block at a place in the model is held by \<open>c\<close>, with or without a subscription.\<close>

definition held_by :: "conn_id \<Rightarrow> bool \<Rightarrow> rust_string \<Rightarrow> rust_string \<Rightarrow> conn_id set \<Rightarrow> rcb_state \<Rightarrow> rcb_runtime \<Rightarrow> bool" where
  "held_by c en domain item C rs st \<longleftrightarrow>
     (rs_domain rs = domain \<and> rs_item rs = item \<longrightarrow>
        rt_owner st = Some c \<and> rt_enabled st = en \<and> rt_conn st = (if en then Some c else None))"

lemma held_by_frame: "delivery_frame st st' \<Longrightarrow> held_by c en domain item C rs st' = held_by c en domain item C rs st"
  by (simp add: delivery_frame_def held_by_def)

lemma check_rcb_write_held:
  assumes "rt_owner (rs_state rs) = Some c" "conn \<noteq> c"
  shows "check_rcb_write E rs attr v conn ip = Inl TemporarilyUnavailable"
  using assms by (simp add: check_rcb_write_def allowed_def Let_def)

interpretation held: block_contract "held_by c en domain item" "\<lambda>conn. conn \<noteq> c" "\<lambda>conn _. conn \<noteq> c" False
  for c en domain item
proof (unfold_locales, goal_cases)
  case (1 C rs x st) then show ?case by (simp add: held_by_def)
next
  case (2 E rs st cs) then show ?case using held_by_frame [OF update_block_frame] by blast
next
  case (3 E rs conn E0 attr v ip)
  then have "\<not> (rs_domain rs = domain \<and> rs_item rs = item)"
    using check_rcb_write_held [of rs c conn E0 attr v ip] by (auto simp: held_by_def)
  then show ?case by (auto simp: held_by_def)
next
  case (4 E rs st g) then show ?case using held_by_frame [OF integrity_turn_frame] by blast
next
  case (5 E rs st g) then show ?case using held_by_frame [OF window_turn_frame] by blast
next
  case (6 E rs st g) then show ?case by (simp add: held_by_def resv_turn_keeps)
next
  case (7 C rs st conn E) then show ?case by (auto simp: held_by_def leave_block_def Let_def)
next
  case (8 C rs st conn) then show ?case by (simp add: held_by_def)
qed simp

section \<open>The start\<close>

text \<open>A block as the server creates it.\<close>

definition fresh_runtime :: "rcb_runtime \<Rightarrow> bool" where
  "fresh_runtime st \<longleftrightarrow> (\<exists>ip cfg. st = runtime_default\<lparr>rt_resv_ip := ip, rt_resv_cfg := cfg\<rparr>)"

definition fresh_registry :: "rcb_registry \<Rightarrow> bool" where
  "fresh_registry reg \<longleftrightarrow> (\<forall>(key, rs) \<in> set reg. fresh_runtime (rs_state rs))"

lemma fresh_update: "fresh_registry reg \<Longrightarrow> fresh_runtime (rs_state rs) \<Longrightarrow> fresh_registry (AList.update key rs reg)"
  using set_alist_update [of key rs reg] by (fastforce simp: fresh_registry_def)

lemma fresh_instance:
  assumes "fresh_registry (snd x)"
  shows "fresh_registry (snd (materialise_instance n ld rc p x))"
proof -
  obtain i inst ln reg where px: "p = (i, inst)" "x = (ln, reg)" by (metis surj_pair)
  have "fresh_runtime runtime_default" "fresh_runtime (runtime_default\<lparr>rt_resv_ip := Some ip, rt_resv_cfg := True\<rparr>)" for ip
    unfolding fresh_runtime_def by (rule exI [of _ None], rule exI [of _ False], simp add: runtime_default_def) blast
  with assms px show ?thesis
    by (simp add: materialise_instance_def Let_def fresh_update split: option.split)
qed

lemma fresh_fold:
  assumes "\<And>p x. fresh_registry (snd x) \<Longrightarrow> fresh_registry (snd (f p x))"
  shows "fresh_registry (snd x) \<Longrightarrow> fresh_registry (snd (fold f ps x))"
  by (induction ps arbitrary: x) (simp_all add: assms)

lemma fresh_each:
  assumes "\<And>x reg. fresh_registry reg \<Longrightarrow> fresh_registry (snd (f x reg))"
  shows "fresh_registry reg \<Longrightarrow> fresh_registry (snd (materialise_each f xs reg))"
proof (induction xs arbitrary: reg)
  case (Cons x xs)
  obtain x' reg1 where "f x reg = (x', reg1)" by fastforce
  with assms [OF Cons.prems, of x] Cons.IH [of reg1] show ?case
    by (cases "materialise_each f xs reg1") simp
qed simp

lemma fresh_start: "fresh_registry (rm_registry (report_manager_new n m clk owner runtime show'))"
proof -
  have c: "fresh_registry (snd x) \<Longrightarrow> fresh_registry (snd (materialise_control n ld rc x))" for ld rc x
    unfolding materialise_control_def by (rule fresh_fold [OF fresh_instance])
  have nd: "fresh_registry reg \<Longrightarrow> fresh_registry (snd (materialise_node n ld ln reg))" for ld ln reg
    unfolding materialise_node_def by (rule fresh_fold [OF c]; simp)
  have "fresh_registry (snd (materialise_each (\<lambda>ld reg.
      case materialise_each (materialise_node n (ld_name ld)) (ld_nodes ld) reg of
        (lns, reg') \<Rightarrow> (ld\<lparr>ld_nodes := lns\<rparr>, reg')) (md_devices m) []))"
  proof (rule fresh_each)
    fix ld :: logical_device and reg
    assume "fresh_registry reg"
    then show "fresh_registry (snd (case materialise_each (materialise_node n (ld_name ld)) (ld_nodes ld) reg of
        (lns, reg') \<Rightarrow> (ld\<lparr>ld_nodes := lns\<rparr>, reg')))"
      using fresh_each [of "materialise_node n (ld_name ld)" reg "ld_nodes ld"] nd
      by (cases "materialise_each (materialise_node n (ld_name ld)) (ld_nodes ld) reg") simp
  qed (simp add: fresh_registry_def)
  then show ?thesis
    by (auto simp: report_manager_new_def materialise_rcbs_def split: prod.splits)
qed

lemma start_inv:
  "for_blocks delivery_inv (report_manager_new n m clk owner runtime show')"
  "for_blocks holder_inv (report_manager_new n m clk owner runtime show')"
  using fresh_start [of n m clk owner runtime show']
  by (fastforce simp: for_blocks_def fresh_registry_def fresh_runtime_def runtime_default_def delivery_inv_def
      holder_inv_def subscribed_def buffer_ok_def)+

end
