(* ===== verification/Client_Report.thy ===== *)
theory Client_Report
  imports Server_Reporting Asn1_Fields
begin

text \<open>
  The client's side of a report: the InformationReport (\<open>src/mms/report.rs\<close> with
  \<open>parse_object_name\<close> of \<open>src/mms/services.rs\<close>) and the interpretation of its values
  (\<open>decode_report\<close> of \<open>src/client/report.rs\<close>). The iterator over the values is the list of those
  not yet read.
\<close>

section \<open>Information reports\<close>

record var_ref =
  vr_domain :: rust_string
  vr_item :: rust_string

definition no_var_ref :: var_ref where
  "no_var_ref = \<lparr>vr_domain = [], vr_item = []\<rparr>"

record information_report =
  ir_list_name :: rust_string
  ir_var_names :: "rust_string list"
  ir_values :: "mms_value list"
  ir_is_vmd_named :: bool
  ir_list_ref :: var_ref
  ir_var_refs :: "var_ref list"

definition no_report :: information_report where
  "no_report = \<lparr>ir_list_name = [], ir_var_names = [], ir_values = [], ir_is_vmd_named = False,
     ir_list_ref = no_var_ref, ir_var_refs = []\<rparr>"

definition parse_object_name :: "bytes \<Rightarrow> mms_error + var_ref" where
  "parse_object_name content =
     try_bind (asn1_try (read_tlv (decoder_new content))) (\<lambda>((t, c), _).
       if t = context_primitive 0 then Inr \<lparr>vr_domain = [], vr_item = utf8_lossy c\<rparr>
       else if t = context_constructed 1 then
         try_bind (asn1_try (expect_tag TAG_VISIBLE_STRING (decoder_new c))) (\<lambda>(domain, dd).
           try_bind (asn1_try (expect_tag TAG_VISIBLE_STRING dd)) (\<lambda>(item, _).
             Inr \<lparr>vr_domain = utf8_lossy domain, vr_item = utf8_lossy item\<rparr>))
       else Inl (MmsProtocol (ReasonText ''unexpected ObjectName tag'')))"

function parse_var_spec_list :: "decoder \<Rightarrow> information_report \<Rightarrow> information_report" where
  "parse_var_spec_list d rep =
     (if \<not> more_data d then rep
      else case read_tlv d of
        Inl _ \<Rightarrow> rep
      | Inr ((t0, vs0), d') \<Rightarrow>
          (case (if t0 = TAG_SEQUENCE then map_option fst (case read_tlv (decoder_new vs0) of Inl _ \<Rightarrow> None | Inr x \<Rightarrow> Some x)
                 else Some (t0, vs0)) of
             None \<Rightarrow> rep
           | Some (t, vs) \<Rightarrow>
               let r = (if t = context_constructed 0
                        then (case parse_object_name vs of Inr p \<Rightarrow> p | Inl _ \<Rightarrow> no_var_ref) else no_var_ref)
               in parse_var_spec_list d'
                    (rep\<lparr>ir_var_names := ir_var_names rep @ [vr_item r], ir_var_refs := ir_var_refs rep @ [r]\<rparr>)))"
  by pat_completeness auto
termination
proof (relation "measure (\<lambda>(d, rep). length (dec_data d) - dec_off d)", goal_cases)
  case (2 d rep r a d' t0 vs0 x t vs p)
  then show ?case using read_tlv_progress [of d] by fastforce
qed simp

text \<open>The results up to the first that cannot be decoded.\<close>

lemma decode_access_result_progress:
  "decode_access_result d = Inr (v, d') \<Longrightarrow> dec_data d' = dec_data d \<and> dec_off d < dec_off d' \<and> dec_off d' \<le> length (dec_data d)"
  by (auto simp: decode_access_result_def decode_data_def try_bind_Inr_iff dest!: read_tlv_progress decode_data_progress
      split: if_splits)

function access_results :: "decoder \<Rightarrow> mms_value list" where
  "access_results d =
     (if \<not> more_data d then []
      else case decode_access_result d of Inl _ \<Rightarrow> [] | Inr (v, d') \<Rightarrow> v # access_results d')"
  by pat_completeness auto
termination
proof (relation "measure (\<lambda>d. length (dec_data d) - dec_off d)", goal_cases)
  case (2 d r v d')
  then show ?case using decode_access_result_progress [of d v d'] by fastforce
qed simp

declare parse_var_spec_list.simps [simp del] access_results.simps [simp del]

definition parse_information_report :: "bytes \<Rightarrow> information_report option" where
  "parse_information_report body =
     (let d = decoder_new body in
      case peek d of
        Inl _ \<Rightarrow> None
      | Inr spec \<Rightarrow>
          (case (if spec = context_constructed 0 then
                   (case read_tlv d of Inl _ \<Rightarrow> None
                    | Inr ((_, c), d') \<Rightarrow> Some (parse_var_spec_list (decoder_new c) no_report, d'))
                 else if spec = context_constructed 1 then
                   (case read_tlv d of Inl _ \<Rightarrow> None
                    | Inr ((_, c), d') \<Rightarrow>
                        let rep = no_report\<lparr>ir_is_vmd_named := True\<rparr>
                        in Some (case parse_object_name c of
                             Inl _ \<Rightarrow> rep | Inr r \<Rightarrow> rep\<lparr>ir_list_name := vr_item r, ir_list_ref := r\<rparr>, d'))
                 else (case skip_tlv d of Inl _ \<Rightarrow> None | Inr d' \<Rightarrow> Some (no_report, d'))) of
             None \<Rightarrow> None
           | Some (rep, d') \<Rightarrow>
               Some (case optional_tag (context_constructed 0) d' of
                       Inr (Some ar, _) \<Rightarrow> rep\<lparr>ir_values := access_results (decoder_new ar)\<rparr>
                     | _ \<Rightarrow> rep)))"

section \<open>Reports\<close>

record report_item =
  ri_index :: nat
  ri_reference :: object_reference
  ri_fc :: fc
  ri_reason :: reason_code
  ri_value :: mms_value

record client_report =
  cr_rpt_id :: rust_string
  cr_seq_num :: u32
  cr_data_set :: rust_string
  cr_conf_rev :: u32
  cr_entry_id :: bytes
  cr_buf_ovfl :: bool
  cr_sub_seq_num :: u32
  cr_more_follows :: bool
  cr_time_of_entry :: "system_time option"
  cr_entries :: "report_item list"

definition next_field :: "bool \<Rightarrow> (mms_value \<Rightarrow> 'a) \<Rightarrow> 'a \<Rightarrow> mms_value list \<Rightarrow> ('a \<times> mms_value list) option" where
  "next_field b f d vs = (if b then (case vs of [] \<Rightarrow> None | v # vs' \<Rightarrow> Some (f v, vs')) else Some (d, vs))"

definition included_members :: "mms_value \<Rightarrow> nat list" where
  "included_members v = filter (\<lambda>b. value_bit v b = Some True) [0..<value_bit_len v]"

fun take_refs :: "(mms_value \<Rightarrow> rust_string) \<Rightarrow> nat list \<Rightarrow> mms_value list \<Rightarrow> rust_string list \<times> mms_value list" where
  "take_refs txt [] vs = ([], vs)"
| "take_refs txt (_ # is) [] = (case take_refs txt is [] of (rs, vs') \<Rightarrow> ([] # rs, vs'))"
| "take_refs txt (_ # is) (v # vs) = (case take_refs txt is vs of (rs, vs') \<Rightarrow> (txt v # rs, vs'))"

definition item_reference :: "var_ref list \<Rightarrow> rust_string list \<Rightarrow> nat \<Rightarrow> nat \<Rightarrow> object_reference \<times> fc" where
  "item_reference members data_refs k idx =
     (if idx < length members then from_mms (vr_domain (members ! idx)) (vr_item (members ! idx))
      else if k < length data_refs then
        (case split_once slash (data_refs ! k) of Some (domain, item) \<Rightarrow> from_mms domain item | None \<Rightarrow> ([], FcNone))
      else ([], FcNone))"

fun take_items ::
    "var_ref list \<Rightarrow> rust_string list \<Rightarrow> nat \<Rightarrow> nat list \<Rightarrow> mms_value list \<Rightarrow> report_item list \<times> mms_value list" where
  "take_items members refs k [] vs = ([], vs)"
| "take_items members refs k (idx # is) vs =
     (case (case vs of [] \<Rightarrow> (NoneV, []) | v # vs' \<Rightarrow> (v, vs')) of
        (v, vs1) \<Rightarrow>
          (case item_reference members refs k idx of
             (r, fc) \<Rightarrow>
               (case take_items members refs (k + 1) is vs1 of
                  (items, vs2) \<Rightarrow>
                    (\<lparr>ri_index = idx, ri_reference = r, ri_fc = fc, ri_reason = 0, ri_value = v\<rparr> # items, vs2))))"

fun take_reasons :: "report_item list \<Rightarrow> mms_value list \<Rightarrow> report_item list" where
  "take_reasons [] vs = []"
| "take_reasons (i # items) [] = i # take_reasons items []"
| "take_reasons (i # items) (v # vs) =
     i\<lparr>ri_reason := (case reason_from_value v of None \<Rightarrow> 0 | Some r \<Rightarrow> r)\<rparr> # take_reasons items vs"

definition decode_report ::
    "(mms_value \<Rightarrow> rust_string) \<Rightarrow> information_report \<Rightarrow> var_ref list \<Rightarrow> client_report option" where
  "decode_report show' ir members =
     (let txt = value_text show' in
      if length (ir_values ir) < 3 then None
      else
        Option.bind (next_field True txt [] (ir_values ir)) (\<lambda>(rpt_id, vs).
        Option.bind (next_field True (\<lambda>v. case opt_from_value v of None \<Rightarrow> 0 | Some x \<Rightarrow> x) 0 vs) (\<lambda>(opt, vs).
        Option.bind (next_field (opt_has opt OPT_SEQ_NUM) as_u32 0 vs) (\<lambda>(seq, vs).
        Option.bind (next_field (opt_has opt OPT_TIME_OF_ENTRY) value_time None vs) (\<lambda>(time, vs).
        Option.bind (next_field (opt_has opt OPT_DATA_SET_NAME) txt [] vs) (\<lambda>(ds, vs).
        Option.bind (next_field (opt_has opt OPT_BUF_OVFL) as_bool False vs) (\<lambda>(ovfl, vs).
        Option.bind (next_field (opt_has opt OPT_ENTRY_ID) value_bytes [] vs) (\<lambda>(eid, vs).
        Option.bind (next_field (opt_has opt OPT_CONF_REV) as_u32 0 vs) (\<lambda>(conf_rev, vs).
        Option.bind (next_field (opt_has opt OPT_SEGMENTATION) as_u32 0 vs) (\<lambda>(sub_seq, vs).
        Option.bind (next_field (opt_has opt OPT_SEGMENTATION) as_bool False vs) (\<lambda>(more_follows, vs).
        Option.bind (next_field True included_members [] vs) (\<lambda>(included, vs).
          let (refs, vs1) = (if opt_has opt OPT_DATA_REF then take_refs txt included vs else ([], vs));
              (items, vs2) = take_items members refs 0 included vs1
          in Some \<lparr>cr_rpt_id = rpt_id, cr_seq_num = seq, cr_data_set = ds, cr_conf_rev = conf_rev, cr_entry_id = eid,
               cr_buf_ovfl = ovfl, cr_sub_seq_num = sub_seq, cr_more_follows = more_follows, cr_time_of_entry = time,
               cr_entries = (if opt_has opt OPT_REASON_CODE then take_reasons items vs2 else items)\<rparr>))))))))))))"

end
