(* ===== verification/Report_Roundtrip.thy ===== *)
theory Report_Roundtrip
  imports Client_Report
begin

text \<open>
  A report from the server's entry to the client's: the octets of a report element parse to its
  values, and the values are interpreted as the entry they were made from, whichever optional
  fields the block has and whether the report is segmented or not.
\<close>

section \<open>The octets\<close>

lemma access_result_data:
  assumes "rest d = append_tlv t c @ zs" "length c < 2 ^ 32"
  shows "decode_access_result d = decode_data d"
proof -
  have "peek d = Inr t" "read_tlv d = Inr ((t, c), advance (length (append_tlv t c)) d)"
    by (rule peek_append_tlv [OF assms(1)], rule read_tlv_append_tlv [OF assms])
  then show ?thesis
    by (cases "decode_uint c")
      (auto simp: decode_access_result_def decode_data_def decode_data_at_def decode_data_tlv.simps data_tags)
qed

lemma append_data_tlv: "data_ok v \<Longrightarrow> \<exists>t c. append_data v = append_tlv t c"
proof (cases "\<exists>cs. v = ArrayV cs \<or> v = StructureV cs")
  case True
  assume "data_ok v"
  with True append_data_children show ?thesis by blast
next
  case False
  assume "data_ok v"
  from decode_leaf(1) [OF this False] show ?thesis by (cases "leaf_tlv v") auto
qed

definition sendable :: "mms_value \<Rightarrow> bool" where
  "sendable v \<longleftrightarrow> data_ok v \<and> value_depth v \<le> MAX_VALUE_DEPTH \<and> length (append_data v) < 2 ^ 32"

lemma decode_access_result_append:
  assumes "sendable v" "rest d = append_data v @ zs"
  shows "decode_access_result d = Inr (wire_value v, advance (length (append_data v)) d)"
proof -
  obtain t c where tc: "append_data v = append_tlv t c"
    using append_data_tlv [of v] assms(1) by (auto simp: sendable_def)
  have "length c \<le> length (append_tlv t c)" by (simp add: append_tlv_def)
  then have "length c < 2 ^ 32" using assms(1) tc by (simp add: sendable_def)
  with access_result_data [of d t c zs] assms tc decode_data_at_append [of v 0 d zs] show ?thesis
    by (simp add: decode_data_def sendable_def)
qed

lemma access_results_append:
  "list_all sendable vs \<Longrightarrow> rest d = concat (map append_data vs) \<Longrightarrow> access_results d = map wire_value vs"
proof (induction vs arbitrary: d)
  case Nil
  then show ?case by (simp add: access_results.simps [of d] more_data_rest)
next
  case (Cons v vs)
  then have v: "sendable v" and r: "rest d = append_data v @ concat (map append_data vs)" by simp_all
  have "more_data d"
    using r append_data_nonempty v by (simp add: more_data_rest sendable_def)
  moreover have "access_results (advance (length (append_data v)) d) = map wire_value vs"
    using Cons.prems rest_append(2) [OF r] by (intro Cons.IH) simp_all
  ultimately show ?case
    by (simp add: access_results.simps [of d] decode_access_result_append [OF v r])
qed

lemma append_elements:
  assumes "list_all data_ok vs"
  shows "concat (map append_elem (List.map_filter data_element vs)) = concat (map append_data vs)"
  using assms
proof (induction vs)
  case (Cons v vs)
  then obtain e where "data_element v = Some e" using data_element_Some by auto
  with Cons show ?case by (simp add: append_data_def)
qed simp

definition report_content :: "mms_value list \<Rightarrow> bytes" where
  "report_content vs =
     append_tlv (context_constructed 1) (append_tlv (context_primitive 0) (ascii ''RPT'')) @
     append_tlv (context_constructed 0) (concat (map append_data vs))"

lemma report_element_bytes:
  assumes "list_all data_ok (report_values f e members from to segment)"
  shows "append_elem (report_element f e members from to segment) =
    append_tlv (context_constructed 0) (report_content (report_values f e members from to segment))"
proof -
  have "list_all elem_tags_ok (List.map_filter data_element (report_values f e members from to segment))"
    using elem_tags_ok_data by (auto simp: list_all_iff List.map_filter_def)
  then show ?thesis
    using append_elements [OF assms] by (simp add: report_element_def report_content_def)
qed

lemma report_content_parses:
  assumes "list_all sendable vs" "length (concat (map append_data vs)) < 2 ^ 32"
  shows "parse_information_report (report_content vs) =
    Some (no_report\<lparr>ir_values := map wire_value vs, ir_list_name := ascii ''RPT'', ir_is_vmd_named := True,
      ir_list_ref := \<lparr>vr_domain = [], vr_item = ascii ''RPT''\<rparr>\<rparr>)"
proof -
  have u: "utf8_lossy (ascii ''RPT'') = ascii ''RPT''" by (rule utf8_lossy_ascii) (simp add: ascii_def)
  have "fits (ascii ''RPT'')" "fits (append_tlv (context_primitive 0) (ascii ''RPT''))" "fits (concat (map append_data vs))"
    using assms(2) length_append_tlv_bound [of "context_primitive 0" "ascii ''RPT''"] by (simp_all add: fits_def ascii_def)
  moreover have "access_results (dec_at [] (concat (map append_data vs))) = map wire_value vs"
    by (rule access_results_append [OF assms(1)]) simp
  ultimately show ?thesis
    by (simp add: parse_information_report_def report_content_def field_simps parse_object_name_def u no_report_def Let_def)
qed

section \<open>The flags\<close>

lemma opt_flags_read: "(case opt_from_value (or_no_value (opt_value x)) of None \<Rightarrow> 0 | Some y \<Rightarrow> y) = take_bit OPT_WIDTH x"
  using opt_flags.dec_enc [of x] by (auto simp: or_no_value_def)

lemma reason_flags_read:
  "(case reason_from_value (or_no_value (reason_value x)) of None \<Rightarrow> 0 | Some y \<Rightarrow> y) = take_bit RC_WIDTH x"
  using reason_flags.dec_enc [of x] by (auto simp: or_no_value_def)

lemma flags_data_ok: "data_ok (or_no_value (opt_value x))" "data_ok (or_no_value (reason_value y))"
  using opt_flags.dec_enc [of x] reason_flags.dec_enc [of y] by (auto simp: or_no_value_def data_bits_ok_def)

lemma flags_wire: "wire_value (or_no_value (opt_value x)) = or_no_value (opt_value x)"
    "wire_value (or_no_value (reason_value y)) = or_no_value (reason_value y)"
  using opt_flags.dec_enc [of x] reason_flags.dec_enc [of y] by (auto simp: or_no_value_def data_bits_ok_def)

lemma opt_has_bit: "opt_has x (push_bit n 1) \<longleftrightarrow> n < 16 \<and> bit x n"
proof -
  have "x AND push_bit n 1 = (if bit x n then push_bit n 1 else 0)"
    by (rule bit_word_eqI) (auto simp: bit_simps)
  moreover have "push_bit n (1 :: u16) = 0 \<longleftrightarrow> 16 \<le> n"
    by (auto simp: push_bit_eq_mult exp_eq_zero_iff)
  ultimately show ?thesis
    by (auto simp: opt_has_def dest: bit_imp_le_length)
qed

lemmas opt_flag_defs = OPT_SEQ_NUM_def OPT_TIME_OF_ENTRY_def OPT_REASON_CODE_def OPT_DATA_SET_NAME_def OPT_DATA_REF_def
  OPT_BUF_OVFL_def OPT_ENTRY_ID_def OPT_CONF_REV_def OPT_SEGMENTATION_def

lemma opt_has_take:
  "opt_has (take_bit OPT_WIDTH x) OPT_SEQ_NUM = opt_has x OPT_SEQ_NUM"
  "opt_has (take_bit OPT_WIDTH x) OPT_TIME_OF_ENTRY = opt_has x OPT_TIME_OF_ENTRY"
  "opt_has (take_bit OPT_WIDTH x) OPT_REASON_CODE = opt_has x OPT_REASON_CODE"
  "opt_has (take_bit OPT_WIDTH x) OPT_DATA_SET_NAME = opt_has x OPT_DATA_SET_NAME"
  "opt_has (take_bit OPT_WIDTH x) OPT_DATA_REF = opt_has x OPT_DATA_REF"
  "opt_has (take_bit OPT_WIDTH x) OPT_BUF_OVFL = opt_has x OPT_BUF_OVFL"
  "opt_has (take_bit OPT_WIDTH x) OPT_ENTRY_ID = opt_has x OPT_ENTRY_ID"
  "opt_has (take_bit OPT_WIDTH x) OPT_CONF_REV = opt_has x OPT_CONF_REV"
  "opt_has (take_bit OPT_WIDTH x) OPT_SEGMENTATION = opt_has x OPT_SEGMENTATION"
  unfolding opt_flag_defs opt_has_bit by (simp_all add: bit_take_bit_iff OPT_WIDTH_def)

lemma effective_no_segmentation: "\<not> opt_has (effective_opt_flds x b) OPT_SEGMENTATION"
proof -
  have "\<not> bit SUPPORTED_OPT_FLDS 9" by code_simp
  then show ?thesis
    unfolding opt_flag_defs opt_has_bit by (simp add: effective_opt_flds_def Let_def bit_and_iff)
qed

section \<open>The inclusion bits\<close>

lemma inclusion_bits_fold:
  "bs_wf bs \<Longrightarrow> \<exists>bs'. fold set_inclusion ms (BitStringV bs) = BitStringV bs' \<and> bs_wf bs' \<and> bs_length bs' = bs_length bs \<and>
     (\<forall>j. bs_bit bs' j = Some True \<longleftrightarrow> bs_bit bs j = Some True \<or> j \<in> set ms \<and> j < bs_length bs)"
proof (induction ms arbitrary: bs)
  case (Cons m ms)
  obtain bs1 where b1: "set_inclusion m (BitStringV bs) = BitStringV bs1" "bs_wf bs1" "bs_length bs1 = bs_length bs"
    "\<forall>j. bs_bit bs1 j = Some True \<longleftrightarrow> bs_bit bs j = Some True \<or> j = m \<and> j < bs_length bs"
  proof (cases "m < bs_length bs")
    case True
    obtain bs1 where "set_bit_at bs m True = Some bs1" "bs_wf bs1" "bs_length bs1 = bs_length bs"
      "\<And>j. bs_bit bs1 j = (if j = m then Some True else bs_bit bs j)"
      by (rule set_bit_at_wf [OF Cons.prems True, of True]) blast
    with True that show ?thesis by (auto simp: set_inclusion_def)
  next
    case False
    with that [of bs] Cons.prems show ?thesis by (auto simp: set_inclusion_def set_bit_at_def)
  qed
  from Cons.IH [OF b1(2)] b1 show ?case by (auto simp: b1(1))
qed auto

lemma bs_bit_new: "bs_bit (bit_string_new n) j \<noteq> Some True"
  by (auto simp: bs_bit_def bit_string_new_def)

lemma bs_length_new: "bs_length (bit_string_new n) = n"
  by (simp add: bit_string_new_def)

lemma inclusion_bits_read:
  assumes "sorted_wrt (<) ms" "list_all (\<lambda>m. m < n) ms"
  shows "\<exists>bs. inclusion_bits n ms = BitStringV bs \<and> bs_wf bs \<and> included_members (BitStringV bs) = ms"
proof -
  obtain bs where bs: "inclusion_bits n ms = BitStringV bs" "bs_wf bs" "bs_length bs = n"
    "\<forall>j. bs_bit bs j = Some True \<longleftrightarrow> j \<in> set ms \<and> j < n"
    using inclusion_bits_fold [OF bs_wf_new, of ms n] bs_bit_new [of n] bs_length_new [of n]
    by (auto simp: inclusion_bits_def)
  have "filter (\<lambda>b. bs_bit bs b = Some True) [0..<n] = ms"
  proof (rule sorted_distinct_set_unique)
    show "set (filter (\<lambda>b. bs_bit bs b = Some True) [0..<n]) = set ms"
      using bs(4) assms(2) by (auto simp: list_all_iff)
  qed (use assms(1) in \<open>auto simp: strict_sorted_iff sorted_filter [where f = "\<lambda>x. x", simplified]\<close>)
  with bs show ?thesis by (auto simp: included_members_def)
qed

section \<open>The values\<close>

lemma next_field_opt: "next_field b f d (opt_field b v @ vs) = Some (if b then f v else d, vs)"
  by (simp add: next_field_def opt_field_def)

lemma next_field_first: "next_field True f d (v # vs) = Some (f v, vs)" "next_field False f d vs = Some (d, vs)"
  by (simp_all add: next_field_def)

lemma take_refs_all: "length rs = length is \<Longrightarrow> take_refs txt is (rs @ vs) = (map txt rs, vs)"
  by (induction rs "is" rule: list_induct2) simp_all

lemma take_refs_opt:
  "length rs = length is \<Longrightarrow>
     (if b then take_refs txt is ((if b then rs else []) @ vs) else ([], (if b then rs else []) @ vs)) = (if b then map txt rs else [], vs)"
  by (simp add: take_refs_all)

lemma take_items_all:
  "length xs = length is \<Longrightarrow> list_all (\<lambda>i. i < length members) is \<Longrightarrow>
     take_items members refs k is (xs @ vs) =
       (map (\<lambda>(i, x). case from_mms (vr_domain (members ! i)) (vr_item (members ! i)) of
           (r, fc) \<Rightarrow> \<lparr>ri_index = i, ri_reference = r, ri_fc = fc, ri_reason = 0, ri_value = x\<rparr>) (zip is xs), vs)"
  by (induction xs "is" arbitrary: k rule: list_induct2) (simp_all add: item_reference_def split: prod.split)

lemma take_reasons_all:
  "length rs = length items \<Longrightarrow>
     take_reasons items (map (\<lambda>r. or_no_value (reason_value r)) rs) =
       map (\<lambda>(i, r). i\<lparr>ri_reason := take_bit RC_WIDTH r\<rparr>) (zip items rs)"
  by (induction rs items rule: list_induct2) (simp_all add: reason_flags_read)

lemma take_reasons_opt:
  "length rs = length items \<Longrightarrow>
     (if b then take_reasons items (if b then map (\<lambda>r. or_no_value (reason_value r)) rs else []) else items) =
       (if b then map (\<lambda>(i, r). i\<lparr>ri_reason := take_bit RC_WIDTH r\<rparr>) (zip items rs) else items)"
  by (simp add: take_reasons_all)

section \<open>A report as the client gets it\<close>

definition entry_wf :: "nat \<Rightarrow> report_entry \<Rightarrow> bool" where
  "entry_wf n e \<longleftrightarrow> sorted_wrt (<) (re_members e) \<and> list_all (\<lambda>m. m < n) (re_members e) \<and>
     length (re_values e) = length (re_members e) \<and> length (re_reasons e) = length (re_members e)"

definition member_ref :: "ds_member \<Rightarrow> var_ref" where
  "member_ref m = \<lparr>vr_domain = dm_domain m, vr_item = dm_item m\<rparr>"

definition received_item :: "opt_flds \<Rightarrow> report_entry \<Rightarrow> ds_member list \<Rightarrow> nat \<Rightarrow> report_item" where
  "received_item opt e members k =
     (let m = members ! (re_members e ! k)
      in case from_mms (dm_domain m) (dm_item m) of
           (r, fc) \<Rightarrow> \<lparr>ri_index = re_members e ! k, ri_reference = r, ri_fc = fc,
             ri_reason = (if opt_has opt OPT_REASON_CODE then take_bit RC_WIDTH (re_reasons e ! k) else 0),
             ri_value = wire_value (re_values e ! k)\<rparr>)"

definition received_report ::
    "report_fields \<Rightarrow> report_entry \<Rightarrow> ds_member list \<Rightarrow> nat \<Rightarrow> nat \<Rightarrow> (u16 \<times> bool) option \<Rightarrow> client_report" where
  "received_report f e members from to segment =
     (let opt = rf_opt f in
      \<lparr>cr_rpt_id = rf_rpt_id f,
       cr_seq_num = (if opt_has opt OPT_SEQ_NUM then (if rf_buffered f then take_bit 16 (rf_seq f) else take_bit 8 (rf_seq f)) else 0),
       cr_data_set = (if opt_has opt OPT_DATA_SET_NAME then rf_dat_set f else []),
       cr_conf_rev = (if opt_has opt OPT_CONF_REV then rf_conf_rev f else 0),
       cr_entry_id = (if opt_has opt OPT_ENTRY_ID then re_id e else []),
       cr_buf_ovfl = (opt_has opt OPT_BUF_OVFL \<and> rf_buf_ovfl f),
       cr_sub_seq_num = (case segment of None \<Rightarrow> 0 | Some (n, _) \<Rightarrow> ucast n),
       cr_more_follows = (case segment of None \<Rightarrow> False | Some (_, m) \<Rightarrow> m),
       cr_time_of_entry = (if opt_has opt OPT_TIME_OF_ENTRY then value_time (binary_time (re_time e)) else None),
       cr_entries = map (received_item opt e members) [from..<to]\<rparr>)"

lemma unsigned_as_u32 [simp]:
  "as_u32 (UnsignedV (ucast (x :: u32))) = x" "as_u32 (UnsignedV (ucast (y :: u16))) = ucast y"
  "as_u32 (UnsignedV (ucast (z :: u8))) = ucast z"
  by (rule bit_word_eqI, simp add: as_u32_def as_u64_def bit_simps)+

lemma ucast_take_bits: "ucast (ucast (x :: u32) :: u16) = take_bit 16 x" "ucast (ucast (x :: u32) :: u8) = take_bit 8 x"
  by (rule bit_word_eqI, simp add: bit_simps conj_commute)+

lemma opt_has_or: "opt_has (x OR y) m \<longleftrightarrow> opt_has x m \<or> opt_has y m"
  by (auto simp: opt_has_def bit.conj_disj_distrib2 or_eq_0_iff)

lemma opt_has_segmentation:
  "opt_has (x OR OPT_SEGMENTATION) OPT_SEGMENTATION"
  "opt_has (x OR OPT_SEGMENTATION) OPT_SEQ_NUM = opt_has x OPT_SEQ_NUM"
  "opt_has (x OR OPT_SEGMENTATION) OPT_TIME_OF_ENTRY = opt_has x OPT_TIME_OF_ENTRY"
  "opt_has (x OR OPT_SEGMENTATION) OPT_REASON_CODE = opt_has x OPT_REASON_CODE"
  "opt_has (x OR OPT_SEGMENTATION) OPT_DATA_SET_NAME = opt_has x OPT_DATA_SET_NAME"
  "opt_has (x OR OPT_SEGMENTATION) OPT_DATA_REF = opt_has x OPT_DATA_REF"
  "opt_has (x OR OPT_SEGMENTATION) OPT_BUF_OVFL = opt_has x OPT_BUF_OVFL"
  "opt_has (x OR OPT_SEGMENTATION) OPT_ENTRY_ID = opt_has x OPT_ENTRY_ID"
  "opt_has (x OR OPT_SEGMENTATION) OPT_CONF_REV = opt_has x OPT_CONF_REV"
  by (simp_all add: opt_has_or) (simp_all add: opt_has_def opt_flag_defs)

lemma subslice_map_nth: "to \<le> length xs \<Longrightarrow> subslice from to xs = map ((!) xs) [from..<to]"
  by (rule nth_equalityI) (auto simp: subslice_def)

lemma map_opt_field: "map g (opt_field b v) = opt_field b (g v)"
  by (simp add: opt_field_def)

lemma data_refs_length:
  "list_all (\<lambda>m. m < length members) ms \<Longrightarrow> length (List.map_filter (data_ref members) ms) = length ms"
  by (induction ms) (simp_all add: data_ref_def)

lemma received_entries:
  assumes "entry_wf (length members) e" "to \<le> length (re_members e)"
  shows "(let ms = subslice from to (re_members e);
        items = map (\<lambda>(i, x). case from_mms (vr_domain (map member_ref members ! i)) (vr_item (map member_ref members ! i)) of
            (r, fc) \<Rightarrow> \<lparr>ri_index = i, ri_reference = r, ri_fc = fc, ri_reason = 0, ri_value = x\<rparr>)
          (zip ms (map wire_value (subslice from to (re_values e))))
      in if opt_has opt OPT_REASON_CODE
         then map (\<lambda>(i, r). i\<lparr>ri_reason := take_bit RC_WIDTH r\<rparr>) (zip items (subslice from to (re_reasons e))) else items) =
    map (received_item opt e members) [from..<to]"
proof -
  have l: "length (re_values e) = length (re_members e)" "length (re_reasons e) = length (re_members e)"
    "\<And>k. k < length (re_members e) \<Longrightarrow> re_members e ! k < length members"
    using assms(1) by (auto simp: entry_wf_def list_all_length)
  then show ?thesis
    using assms(2)
    by (auto simp: Let_def subslice_map_nth received_item_def member_ref_def intro!: nth_equalityI split: prod.split)
qed

lemma decode_received:
  assumes e: "entry_wf (length members) e" "to \<le> length (re_members e)"
    and f: "\<not> opt_has (rf_opt f) OPT_SEGMENTATION" "utf8_valid (rf_rpt_id f)" "utf8_valid (rf_dat_set f)"
    and v: "ir_values ir = map wire_value (report_values f e members from to segment)"
  shows "decode_report show' ir (map member_ref members) = Some (received_report f e members from to segment)"
proof -
  define opt where "opt = (if segment = None then rf_opt f else rf_opt f OR OPT_SEGMENTATION)"
  define ms where "ms = subslice from to (re_members e)"
  have ms: "sorted_wrt (<) ms" "list_all (\<lambda>m. m < length members) ms"
    using e(1) by (auto simp: ms_def subslice_def entry_wf_def list_all_iff sorted_wrt_take sorted_wrt_drop dest!: in_set_takeD in_set_dropD)
  obtain bs where bs: "inclusion_bits (length members) ms = BitStringV bs" "included_members (BitStringV bs) = ms"
    using inclusion_bits_read [OF ms] by blast
  have lv: "length (map wire_value (subslice from to (re_values e))) = length ms" "length (subslice from to (re_reasons e)) = length ms"
    "length (map wire_value (List.map_filter (data_ref members) ms)) = length ms"
    using e data_refs_length [OF ms(2)] by (simp_all add: ms_def entry_wf_def)
  have bt: "wire_value (binary_time t) = binary_time t" for t
    by (simp add: binary_time_def Let_def split: prod.split)
  have tx: "value_text show' (VisibleStringV (rf_rpt_id f)) = rf_rpt_id f" "value_text show' (VisibleStringV (rf_dat_set f)) = rf_dat_set f"
    using f(2,3) by (simp_all add: value_text_def utf8_lossy_valid)
  have ti: "take_items (map member_ref members) refs 0 ms (map wire_value (subslice from to (re_values e)) @ vs) =
      (map (\<lambda>(i, x). case from_mms (vr_domain (map member_ref members ! i)) (vr_item (map member_ref members ! i)) of
          (r, fc) \<Rightarrow> \<lparr>ri_index = i, ri_reference = r, ri_fc = fc, ri_reason = 0, ri_value = x\<rparr>)
        (zip ms (map wire_value (subslice from to (re_values e)))), vs)" for refs vs
    by (rule take_items_all) (use lv ms in \<open>simp_all\<close>)
  have sg: "opt_has opt OPT_SEGMENTATION \<longleftrightarrow> segment \<noteq> None"
    using f(1) by (simp add: opt_def opt_has_segmentation)
  have oh: "opt_has opt m = opt_has (rf_opt f) m"
    if "m \<in> {OPT_SEQ_NUM, OPT_TIME_OF_ENTRY, OPT_REASON_CODE, OPT_DATA_SET_NAME, OPT_DATA_REF, OPT_BUF_OVFL, OPT_ENTRY_ID, OPT_CONF_REV}" for m
    using that f(1) by (auto simp: opt_def opt_has_segmentation)
  define sub where "sub = (case segment of None \<Rightarrow> 0 | Some (n, _) \<Rightarrow> n)"
  define more' where "more' = (case segment of None \<Rightarrow> False | Some (_, m) \<Rightarrow> m)"
  have "map wire_value (case segment of None \<Rightarrow> [] | Some (n, m) \<Rightarrow> [UnsignedV (ucast n), BooleanV m]) =
      opt_field (opt_has opt OPT_SEGMENTATION) (UnsignedV (ucast sub)) @ opt_field (opt_has opt OPT_SEGMENTATION) (BooleanV more')"
    using sg by (simp add: opt_field_def sub_def more'_def split: option.split)
  then have L: "ir_values ir = VisibleStringV (rf_rpt_id f) # or_no_value (opt_value opt) #
      opt_field (opt_has opt OPT_SEQ_NUM)
        (if rf_buffered f then UnsignedV (ucast (ucast (rf_seq f) :: u16)) else UnsignedV (ucast (ucast (rf_seq f) :: u8))) @
      opt_field (opt_has opt OPT_TIME_OF_ENTRY) (binary_time (re_time e)) @
      opt_field (opt_has opt OPT_DATA_SET_NAME) (VisibleStringV (rf_dat_set f)) @
      opt_field (opt_has opt OPT_BUF_OVFL) (BooleanV (rf_buf_ovfl f)) @
      opt_field (opt_has opt OPT_ENTRY_ID) (OctetStringV (re_id e)) @
      opt_field (opt_has opt OPT_CONF_REV) (UnsignedV (ucast (rf_conf_rev f))) @
      opt_field (opt_has opt OPT_SEGMENTATION) (UnsignedV (ucast sub)) @
      opt_field (opt_has opt OPT_SEGMENTATION) (BooleanV more') @ BitStringV bs #
      (if opt_has opt OPT_DATA_REF then map wire_value (List.map_filter (data_ref members) ms) else []) @
      map wire_value (subslice from to (re_values e)) @
      (if opt_has opt OPT_REASON_CODE then map (\<lambda>r. or_no_value (reason_value r)) (subslice from to (re_reasons e)) else [])"
    unfolding v report_values_def opt_def [symmetric] Let_def ms_def [symmetric] bs(1)
    by (simp add: map_opt_field flags_wire bt comp_def)
  have sub: "(if \<exists>a b. segment = Some (a, b) then as_u32 (UnsignedV (ucast sub)) else 0) = (case segment of None \<Rightarrow> 0 | Some (n, _) \<Rightarrow> ucast n)"
    "(if \<exists>a b. segment = Some (a, b) then as_bool (BooleanV more') else False) = (case segment of None \<Rightarrow> False | Some (_, m) \<Rightarrow> m)"
    by (cases segment; auto simp: sub_def more'_def)+
  show ?thesis
    using lv oh [of OPT_SEQ_NUM] oh [of OPT_TIME_OF_ENTRY] oh [of OPT_REASON_CODE] oh [of OPT_DATA_SET_NAME] oh [of OPT_BUF_OVFL]
      oh [of OPT_ENTRY_ID] oh [of OPT_CONF_REV] sg
    unfolding received_report_def Let_def received_entries [OF e, unfolded Let_def, symmetric]
    apply (simp add: decode_report_def L next_field_first next_field_opt opt_flags_read opt_has_take bs(2) Let_def tx
        take_refs_opt ti take_reasons_opt split del: if_split)
    by (intro conjI) (simp_all only: sub, simp_all add: ucast_take_bits tx ms_def)
qed

section \<open>The octets of a report as the client reads them\<close>

definition client_reads :: "(mms_value \<Rightarrow> rust_string) \<Rightarrow> ds_member list \<Rightarrow> element \<Rightarrow> client_report \<Rightarrow> bool" where
  "client_reads show' members pdu r \<longleftrightarrow>
     (\<exists>content ir. append_elem pdu = append_tlv (context_constructed 0) content \<and> parse_information_report content = Some ir \<and>
        decode_report show' ir (map member_ref members) = Some r)"

lemma report_values_ok:
  assumes "entry_wf (length members) e"
    and "list_all (\<lambda>v. data_ok v \<and> value_depth v \<le> MAX_VALUE_DEPTH) (re_values e)"
  shows "list_all (\<lambda>v. data_ok v \<and> value_depth v \<le> MAX_VALUE_DEPTH) (report_values f e members from to segment)"
proof -
  let ?ok = "\<lambda>v. data_ok v \<and> value_depth v \<le> MAX_VALUE_DEPTH"
  define ms where "ms = subslice from to (re_members e)"
  have "sorted_wrt (<) ms" "list_all (\<lambda>m. m < length members) ms"
    using assms(1) by (auto simp: ms_def subslice_def entry_wf_def list_all_iff sorted_wrt_take sorted_wrt_drop dest!: in_set_takeD in_set_dropD)
  then obtain bs where bs: "inclusion_bits (length members) ms = BitStringV bs" "bs_wf bs"
    using inclusion_bits_read by blast
  have o: "?ok (or_no_value (opt_value x))" "?ok (or_no_value (reason_value y))" for x y
    using flags_data_ok(1) [of x] flags_data_ok(2) [of y] opt_flags.dec_enc [of x] reason_flags.dec_enc [of y] by (auto simp: or_no_value_def data_bits_ok_def)
  have b: "?ok (binary_time t)" for t by (simp add: binary_time_def Let_def split: prod.split)
  have "list_all ?ok (List.map_filter (data_ref members) ms)"
    by (auto simp: list_all_iff List.map_filter_def data_ref_def split: if_splits)
  moreover have "list_all ?ok (subslice from to (re_values e))"
    using assms(2) by (auto simp: subslice_def list_all_iff dest!: in_set_takeD in_set_dropD)
  ultimately show ?thesis
    unfolding report_values_def Let_def ms_def [symmetric] bs(1)
    using o b bs(2) by (auto simp: opt_field_def list_all_iff split: option.split)
qed

lemma element_received:
  assumes e: "entry_wf (length members) e" "to \<le> length (re_members e)"
    and f: "\<not> opt_has (rf_opt f) OPT_SEGMENTATION" "utf8_valid (rf_rpt_id f)" "utf8_valid (rf_dat_set f)"
    and v: "list_all (\<lambda>v. data_ok v \<and> value_depth v \<le> MAX_VALUE_DEPTH) (re_values e)"
    and n: "elem_size (report_element f e members from to segment) < 2 ^ 32"
  shows "client_reads show' members (report_element f e members from to segment) (received_report f e members from to segment)"
proof -
  let ?el = "report_element f e members from to segment"
  let ?vs = "report_values f e members from to segment"
  note ok = report_values_ok [OF e(1) v, of f "from" to segment]
  then have d: "list_all data_ok ?vs" by (simp add: list_all_iff)
  have el: "append_elem ?el = append_tlv (context_constructed 0) (report_content ?vs)" by (rule report_element_bytes [OF d])
  have "elem_tags_ok ?el"
    using elem_tags_ok_data by (auto simp: report_element_def list_all_iff List.map_filter_def)
  with n el have "length (append_tlv (context_constructed 0) (report_content ?vs)) < 2 ^ 32"
    using length_append_elem [of ?el] by simp
  then have l: "length (concat (map append_data ?vs)) < 2 ^ 32"
    by (simp add: append_tlv_def report_content_def)
  have "length (append_data x) \<le> length (concat (map append_data ?vs))" if "x \<in> set ?vs" for x
    using that by (simp add: length_concat member_le_sum_list)
  with ok l have "list_all sendable ?vs"
    by (fastforce simp: list_all_iff sendable_def)
  from report_content_parses [OF this l] el decode_received [OF e f] show ?thesis
    unfolding client_reads_def by fastforce
qed

section \<open>Segments\<close>

text \<open>The segments of a report end where the next one starts; one that is too long for a PDU has one member.\<close>

lemma segment_end_room: "segment_end ok n from to = to \<or> ok from (segment_end ok n from to)"
  by (induction ok n "from" to rule: segment_end.induct) (subst segment_end.simps, subst (2) segment_end.simps, auto)

lemma segments_cut:
  "from \<le> n \<Longrightarrow> \<exists>cuts. cuts \<noteq> [] \<and> hd cuts = from \<and> last cuts = n \<and> sorted_wrt (<) cuts \<and>
     report_segments build room n from s =
       map (\<lambda>j. build (cuts ! j) (cuts ! Suc j) (Some (s + of_nat j, Suc j < length cuts - 1))) [0..<length cuts - 1] \<and>
     (\<forall>j < length cuts - 1. cuts ! Suc j = Suc (cuts ! j) \<or> room (build (cuts ! j) (cuts ! Suc j) (Some (s + of_nat j, True))))"
proof (induction build room n "from" s rule: report_segments.induct)
  case (1 build room n "from" s)
  show ?case
  proof (cases "from < n")
    case False
    with 1(2) show ?thesis by (intro exI [of _ "[n]"]) (simp add: report_segments.simps)
  next
    case True
    define to where "to = segment_end (\<lambda>f t. room (build f t (Some (s, True)))) n from (from + 1)"
    have to: "from < to" "to \<le> n" "to = Suc from \<or> room (build from to (Some (s, True)))"
      using True segment_end_ge [of "from + 1"] segment_end_le [of "from + 1" n] segment_end_room [of "\<lambda>f t. room (build f t (Some (s, True)))" n "from" "from + 1"]
      by (auto simp: to_def Suc_le_eq)
    obtain cs where cs: "cs \<noteq> []" "hd cs = to" "last cs = n" "sorted_wrt (<) cs"
      "report_segments build room n to (s + 1) =
         map (\<lambda>j. build (cs ! j) (cs ! Suc j) (Some (s + 1 + of_nat j, Suc j < length cs - 1))) [0..<length cs - 1]"
      "\<And>j. j < length cs - 1 \<Longrightarrow> cs ! Suc j = Suc (cs ! j) \<or> room (build (cs ! j) (cs ! Suc j) (Some (s + 1 + of_nat j, True)))"
      using 1(1) [OF True to_def to(2)] by blast
    then obtain t where t: "cs = to # t" by (cases cs) auto
    have "to < n \<longleftrightarrow> t \<noteq> []"
      using cs(3,4) to(2) by (cases t rule: rev_cases) (auto simp: t)
    moreover have "[0..<Suc (length t)] = 0 # map Suc [0..<length t]"
      by (simp add: upt_conv_Cons map_Suc_upt del: upt_Suc)
    ultimately have "report_segments build room n from s =
        map (\<lambda>j. build ((from # cs) ! j) ((from # cs) ! Suc j) (Some (s + of_nat j, Suc j < length (from # cs) - 1))) [0..<length (from # cs) - 1]"
      unfolding report_segments.simps [of build room n "from" s] Let_def to_def [symmetric]
      using True cs(5) by (simp add: t comp_def ac_simps del: upt_Suc)
    moreover have "(from # cs) ! Suc j = Suc ((from # cs) ! j) \<or> room (build ((from # cs) ! j) ((from # cs) ! Suc j) (Some (s + of_nat j, True)))"
      if "j < length (from # cs) - 1" for j
      using that cs(6) [of "j - 1"] to(3) by (cases j) (auto simp: t ac_simps)
    moreover have "sorted_wrt (<) (from # cs)"
      using cs(4) to(1) by (auto simp: t)
    ultimately show ?thesis
      using cs(1,3) by (intro exI [of _ "from # cs"]) simp
  qed
qed

lemma cuts_cover:
  "sorted_wrt (<) cuts \<Longrightarrow> cuts \<noteq> [] \<Longrightarrow>
     concat (map (\<lambda>j. map g [cuts ! j..<cuts ! Suc j]) [0..<length cuts - 1]) = map g [hd cuts..<last cuts]"
proof (induction cuts rule: induct_list012)
  case (3 a b cs)
  have "[0..<Suc (length cs)] = 0 # map Suc [0..<length cs]"
    by (simp add: upt_conv_Cons map_Suc_upt del: upt_Suc)
  moreover have "a < b" "b \<le> last (b # cs)"
    using 3(3) by (auto simp: less_imp_le)
  then have "[a..<last (b # cs)] = [a..<b] @ [b..<last (b # cs)]"
    using upt_add_eq_append [of a b "last (b # cs) - b"] by simp
  ultimately show ?case
    using 3(2,3) by (simp add: comp_def del: upt_Suc)
qed simp_all

text \<open>MoreSegmentsFollow does not change the size.\<close>

lemma segment_size: "elem_size (report_element f e members a b (Some (s, m))) = elem_size (report_element f e members a b (Some (s, True)))"
proof -
  define sizes where "sizes vs = map elem_size (List.map_filter data_element vs)" for vs
  have app: "sizes (xs @ ys) = sizes xs @ sizes ys" for xs ys
    by (simp add: sizes_def List.map_filter_def)
  have "sizes [UnsignedV x, BooleanV m] = sizes [UnsignedV x, BooleanV True]" for x
    by (cases m) (simp_all add: sizes_def List.map_filter_simps bool_elem_def prim_def)
  then have "sizes (report_values f e members a b (Some (s, m))) = sizes (report_values f e members a b (Some (s, True)))"
    by (simp only: report_values_def Let_def app option.case prod.case option.distinct if_False)
  then show ?thesis
    by (simp add: report_element_def cons_def sizes_def Let_def)
qed

lemma segment_reports:
  assumes "n = length (re_members e)" "pdus = report_segments (report_element f e members) (pdu_fits max_pdu) n 0 0"
    and reads: "\<And>a b seg. report_element f e members a b seg \<in> set pdus \<Longrightarrow> b \<le> n \<Longrightarrow>
      client_reads show' members (report_element f e members a b seg) (received_report f e members a b seg)"
  obtains reports where "list_all2 (client_reads show' members) pdus reports"
    "concat (map cr_entries reports) = map (received_item (rf_opt f) e members) [0..<n]"
    "\<And>k. k < length reports \<Longrightarrow> cr_rpt_id (reports ! k) = rf_rpt_id f \<and> cr_sub_seq_num (reports ! k) = ucast (of_nat k :: u16) \<and>
      (cr_more_follows (reports ! k) \<longleftrightarrow> Suc k < length reports) \<and>
      (pdu_fits max_pdu (pdus ! k) \<or> length (cr_entries (reports ! k)) = 1)"
proof -
  obtain cuts where c: "cuts \<noteq> []" "hd cuts = 0" "last cuts = n" "sorted_wrt (<) cuts"
    "pdus = map (\<lambda>j. report_element f e members (cuts ! j) (cuts ! Suc j) (Some (of_nat j, Suc j < length cuts - 1))) [0..<length cuts - 1]"
    "\<And>j. j < length cuts - 1 \<Longrightarrow> cuts ! Suc j = Suc (cuts ! j) \<or>
      pdu_fits max_pdu (report_element f e members (cuts ! j) (cuts ! Suc j) (Some (of_nat j, True)))"
    using segments_cut [of 0 n "report_element f e members" "pdu_fits max_pdu" 0] assms(2) by auto
  define rp where "rp j = received_report f e members (cuts ! j) (cuts ! Suc j) (Some (of_nat j, Suc j < length cuts - 1))" for j
  have le: "cuts ! j \<le> n" if "j < length cuts" for j
    using sorted_wrt_less_idx c(1,3,4) that
    by (metis One_nat_def Suc_pred' last_conv_nth length_greater_0_conv less_Suc_eq_le nle_le order_less_imp_le sorted_wrt_nth_less le_eq_less_or_eq)
  have "list_all2 (client_reads show' members) pdus (map rp [0..<length cuts - 1])"
    unfolding list_all2_conv_all_nth using reads le by (auto simp: c(5) rp_def)
  moreover have "concat (map cr_entries (map rp [0..<length cuts - 1])) = map (received_item (rf_opt f) e members) [0..<n]"
    using cuts_cover [OF c(4,1), of "received_item (rf_opt f) e members"]
    by (simp add: rp_def received_report_def Let_def comp_def c(2,3))
  moreover have "pdu_fits max_pdu (pdus ! k) \<or> length (cr_entries (rp k)) = 1" if "k < length cuts - 1" for k
    using c(6) [OF that] that segment_size [of f e members "cuts ! k" "cuts ! Suc k" "of_nat k" "Suc k < length cuts - 1"]
    by (auto simp: c(5) rp_def received_report_def Let_def pdu_fits_def)
  ultimately show ?thesis
    using that [of "map rp [0..<length cuts - 1]"] by (simp add: rp_def received_report_def Let_def)
qed

end
