(* ===== verification/Report_Correct.thy ===== *)
theory Report_Correct
  imports Server_Holding Report_Roundtrip
begin

text \<open>
  The properties of reporting: a buffered control block over whole executions, what a client is
  sent and reads, who may write a block, and where entries get lost.
\<close>

section \<open>An example\<close>

definition report_leaf :: "string \<Rightarrow> fc \<Rightarrow> mms_value \<Rightarrow> data_attribute" where
  "report_leaf name fc v = DataAttribute (ascii name) fc [] (Some (type_of_value v)) [] [] 0 [] (Some v) 0"

text \<open>A device with one indication in a data set, and a buffered control block with a given buffer time.\<close>

definition plant :: "u32 \<Rightarrow> bool \<Rightarrow> model" where
  "plant buf_tm b = \<lparr>md_name = ascii ''IED'', md_devices = [\<lparr>ld_name = ascii ''LD'', ld_inst = ascii ''LD'', ld_nodes =
     [\<lparr>ln_name = ascii ''LN'', ln_class = ascii ''LLN0'',
       ln_objects = [DataObject (ascii ''Ind'') (ascii ''SPS'') [] [report_leaf ''stVal'' FcSt (BooleanV b)]],
       ln_data_sets = [\<lparr>ds_name = ascii ''ds'', ds_entries = [\<lparr>fcda_reference = ascii ''LD/LN.Ind.stVal'', fcda_fc = FcSt,
         fcda_fc_name = ascii ''ST''\<rparr>], ds_deletable = False\<rparr>],
       ln_report_controls = [\<lparr>rc_name = ascii ''b'', rc_rpt_id = [], rc_data_set = ascii ''ds'', rc_conf_rev = 1, rc_buffered = True,
         rc_buf_time = buf_tm, rc_trg_ops = 0, rc_opt_flds = 0, rc_intg_pd = 0, rc_rpt_enabled = 1, rc_not_indexed = True,
         rc_max_queue_size = 2, rc_reservations = []\<rparr>],
       ln_gse_controls = [], ln_sv_controls = [], ln_log_controls = [], ln_setting_control = None, ln_logs = []\<rparr>]\<rparr>],
     md_diagnostics = [], md_setting_groups = []\<rparr>"

definition plant_start :: "u32 \<Rightarrow> report_manager" where
  "plant_start buf_tm = report_manager_new 0 (plant buf_tm False) (\<lambda>_. 0) True True (\<lambda>_. [])"


definition plant_conn :: server_conn where
  "plant_conn = \<lparr>sc_peer = None, sc_max_pdu = 0, sc_held = \<lparr>in_request = True, before = [], after = []\<rparr>, sc_queue = []\<rparr>"

definition plant_write :: "conn_id \<Rightarrow> string \<Rightarrow> mms_value \<Rightarrow> report_event" where
  "plant_write c attr v = RWrite None c None (ascii ''LD'') (ascii (''LN$BR$b$'' @ attr)) v"


text \<open>The blocks of a server stay the same.\<close>

definition blocks :: "report_manager \<Rightarrow> (rust_string \<times> bool) list" where
  "blocks R = map (\<lambda>(key, rs). (key, rs_buffered rs)) (rm_registry R)"

lemma blocks_with_block [simp]: "blocks (with_block key f R) = blocks R"
proof -
  have "map (\<lambda>(k, v). (k, g v)) (AList.update k' v' al) = map (\<lambda>(k, v). (k, g v)) al"
    if "map_of al k' = Some v" "g v' = g v" for g :: "rcb_state \<Rightarrow> bool" and k' v v' and al :: rcb_registry
    using that by (induction al) (auto split: if_splits)
  from this [where g = rs_buffered] show ?thesis
    by (auto simp: blocks_def with_block_def split: option.split prod.split)
qed

lemma blocks_all_blocks [simp]: "blocks (all_blocks f R) = blocks R"
proof -
  have "map (\<lambda>(key, rs). (key, rs_buffered rs)) (fst (each_block f reg E)) = map (\<lambda>(key, rs). (key, rs_buffered rs)) reg" for reg E
    by (induction reg arbitrary: E) (auto simp: case_prod_beta)
  from this [of "rm_registry R" "rm_engine R"] show ?thesis
    by (auto simp: blocks_def all_blocks_def split: prod.split)
qed

lemma blocks_engine [simp]: "blocks (R\<lparr>rm_engine := E\<rparr>) = blocks R"
  by (simp add: blocks_def)

lemma blocks_step [simp]: "blocks (report_step e R) = blocks R"
  by (cases e)
    (auto simp: on_update_def write_block_def with_conns_def disable_conn_def shutdown_def split: option.split sum.split)


section \<open>Delivery over whole executions\<close>



section \<open>Where entries get lost\<close>

lemma discard_oldest_fits: "length (rt_buffer st) \<le> n \<Longrightarrow> discard_oldest n st = st"
  by (subst discard_oldest.simps) simp

lemma transmit_buffered_one:
  assumes "length (rt_buffer st) = Suc (rt_next st)"
  shows "transmit_buffered rs (E, st) = apsnd (\<lambda>st'. st'\<lparr>rt_next := Suc (rt_next st)\<rparr>) (transmit rs (rt_buffer st ! rt_next st) (E, st))"
proof -
  obtain E' st' where b: "transmit rs (rt_buffer st ! rt_next st) (E, st) = (E', st')" by fastforce
  with transmit_keeps [of rs "rt_buffer st ! rt_next st" E st] have "rt_buffer st' = rt_buffer st" "rt_next st' = rt_next st" by simp_all
  with assms b show ?thesis
    by (simp add: transmit_buffered.simps [of rs E st] transmit_buffered.simps [of rs E' "st'\<lparr>rt_next := Suc (rt_next st)\<rparr>"])
qed

lemma emit_gone:
  assumes "rs_buffered rs" "rt_enabled st" "rt_conn st = Some c" "en_conns E c = None"
    and "rt_next st = length (rt_buffer st)" "length (rt_buffer st) < rs_max_buffer rs"
  shows "\<exists>i t. let e = p\<lparr>re_time := t, re_id := i\<rparr> in snd (emit rs p (E, st)) =
    st\<lparr>rt_buffer := rt_buffer st @ [e], rt_log := rt_log st @ [e], rt_past := rt_past st @ [(e, None)], rt_next := Suc (rt_next st)\<rparr>"
  using assms by (simp add: emit_def system_now_def next_entry_id_def discard_oldest_fits transmit_buffered_one transmit_def
      note_past_def Let_def) blast

lemma release_buffer [simp]:
  "rt_buffer (snd (release rs b)) = rt_buffer (snd b)" "rt_next (snd (release rs b)) = rt_next (snd b)"
  "rt_past (snd (release rs b)) = rt_past (snd b)" "rt_buf_overflow (snd (release rs b)) = rt_buf_overflow (snd b)"
  by (cases b; simp add: release_def sync_resv_def stop_resv_timer_def Let_def)+

text \<open>
  C35. An association that ends takes the open buffer-time window of its subscription with it. It is
  out of the connection table before the block is disabled, so the window is buffered and at once
  counted as sent to a connection that is not there: the entry is past the delivery point, was not
  handed over, and BufOvfl is as it was.
\<close>

theorem window_lost:
  assumes "rs_buffered rs" "rt_enabled st" "rt_conn st = Some c" "rt_owner st = Some c" "en_conns E c = None"
    and "rt_pending st = Some p" "re_members p \<noteq> []" "rt_next st = length (rt_buffer st)" "length (rt_buffer st) < rs_max_buffer rs"
    and "st' = snd (leave_block c rs (E, st))"
  shows "\<exists>e. re_members e = re_members p \<and> re_values e = re_values p \<and> rt_buffer st' = rt_buffer st @ [e] \<and>
    rt_next st' = length (rt_buffer st') \<and> rt_past st' = rt_past st @ [(e, None)] \<and> rt_buf_overflow st' = rt_buf_overflow st"
proof -
  define st1 where "st1 = st\<lparr>rt_pending := None, rt_pending_gen := rt_pending_gen st + 1, rt_pending_timer := False\<rparr>"
  obtain E1 st2 where b: "emit rs p (E, st1) = (E1, st2)" by fastforce
  obtain i t where e: "let e = p\<lparr>re_time := t, re_id := i\<rparr> in st2 = st1\<lparr>rt_buffer := rt_buffer st @ [e],
      rt_log := rt_log st @ [e], rt_past := rt_past st @ [(e, None)], rt_next := Suc (rt_next st)\<rparr>"
    using emit_gone [of rs st1 c E p] assms b by (auto simp: st1_def)
  have "flush_pending rs (E, st) = (E1, st2)"
    using assms(6,7) b by (simp add: flush_pending_def st1_def)
  then have "st' = snd (release rs (E1, stop_integrity (st2\<lparr>rt_enabled := False, rt_conn := None\<rparr>)))"
    using assms by (simp add: leave_block_def disable_def)
  with e assms(8) show ?thesis
    by (intro exI [of _ "p\<lparr>re_time := t, re_id := i\<rparr>"]) (simp add: stop_integrity_def Let_def st1_def)
qed


text \<open>A subscribed block with a window that holds one entry, whose association has left the table.\<close>

definition plant_block :: rcb_state where
  "plant_block = \<lparr>rs_domain = ascii ''LD'', rs_item = ascii ''LN$BR$b'', rs_ln_name = ascii ''LN'', rs_object_name = ascii ''b'',
     rs_buffered = True, rs_max_buffer = 2, rs_state = runtime_default\<rparr>"

definition plant_window :: report_entry where
  "plant_window = \<lparr>re_id = [], re_time = 0, re_members = [0], re_values = [BooleanV True], re_reasons = [TRG_DATA_CHANGE]\<rparr>"

theorem window_lost_witness:
  "\<exists>e. rt_past (snd (leave_block 1 plant_block (rm_engine (plant_start 0), runtime_default\<lparr>rt_enabled := True, rt_conn := Some 1,
      rt_owner := Some 1, rt_pending := Some plant_window\<rparr>))) = [(e, None)] \<and> re_members e = [0]"
  using window_lost [of plant_block "runtime_default\<lparr>rt_enabled := True, rt_conn := Some 1, rt_owner := Some 1,
      rt_pending := Some plant_window\<rparr>" 1 "rm_engine (plant_start 0)" plant_window, OF _ _ _ _ _ _ _ _ _ refl]
  by (auto simp: plant_block_def plant_window_def runtime_default_def plant_start_def report_manager_new_def split: prod.splits)

text \<open>
  C36. Writing DatSet purges the buffer of a block but keeps an open buffer-time window. When the
  window ends, its members, which are positions in the old data set, are the first entry of the
  buffer of the new one.
\<close>

theorem stale_window:
  assumes "rs_buffered rs" "\<not> rt_enabled st" "rt_owner st = Some conn" "rt_pending st = Some p" "re_members p \<noteq> []" "0 < rs_max_buffer rs"
    and "b = on_rcb_write rs (ascii ''DatSet'') v conn ip (E, st)"
  shows "rt_buffer (snd b) = [] \<and> rt_pending (snd b) = Some p \<and>
    (\<exists>e. rt_buffer (snd (window_turn (rt_pending_gen st) rs b)) = [e] \<and> re_members e = re_members p \<and> re_values e = re_values p)"
proof -
  have b: "snd b = purge st"
    using assms(3,7) by (simp add: on_rcb_write_def rcb_effect_def ascii_def Let_def)
  moreover have "rt_buffer (snd (emit rs p (E', st1))) = rt_buffer st1 @ [p\<lparr>re_time := en_clock E' (en_reads E'), re_id := fst (next_entry_id (snd (system_now E')))\<rparr>]"
    if "\<not> rt_enabled st1" "length (rt_buffer st1) < rs_max_buffer rs" for E' st1
    using that assms(1) by (simp add: emit_def system_now_def next_entry_id_def discard_oldest_fits Let_def)
  ultimately show ?thesis
    using assms(2,4-6) by (cases b) (auto simp: purge_def window_turn_def flush_pending_def)
qed

theorem stale_window_witness:
  "\<exists>e. rt_buffer (snd (window_turn 0 plant_block (on_rcb_write plant_block (ascii ''DatSet'') (VisibleStringV []) 1 None
      (rm_engine (plant_start 0), runtime_default\<lparr>rt_owner := Some 1, rt_pending := Some plant_window\<rparr>)))) = [e] \<and> re_members e = [0]"
  using stale_window [of plant_block "runtime_default\<lparr>rt_owner := Some 1, rt_pending := Some plant_window\<rparr>" 1 plant_window,
      OF _ _ _ _ _ _ refl, of "VisibleStringV []" None "rm_engine (plant_start 0)"]
  by (auto simp: plant_block_def plant_window_def runtime_default_def)

section \<open>Holding a block\<close>

text \<open>
  C7. A control block that a client holds is that client's until it ends, gives the block up or the server
  shuts down. Whatever the other clients write, whatever the process image does, whichever timers
  fire and whichever other associations come and go: the client still holds it, its subscription
  is as it was, and every write by another client to any of its attributes is refused as
  temporarily unavailable and changes nothing.
\<close>

theorem held_block:
  assumes "\<forall>(key, rs) \<in> set (rm_registry R). rs_domain rs = domain \<and> rs_item rs = item \<longrightarrow>
      rt_owner (rs_state rs) = Some c \<and> rt_enabled (rs_state rs) = en \<and> rt_conn (rs_state rs) = (if en then Some c else None)"
    and "admits (\<lambda>conn. conn \<noteq> c) (\<lambda>conn _. conn \<noteq> c) False es R" "R' = report_run es R"
    and "map_of (rm_registry R') key = Some rs" "rs_domain rs = domain" "rs_item rs = item"
  shows "rt_owner (rs_state rs) = Some c \<and> rt_enabled (rs_state rs) = en \<and> rt_conn (rs_state rs) = (if en then Some c else None) \<and>
    (\<forall>hook conn ip d i attr v. conn \<noteq> c \<longrightarrow> write_block hook conn ip d i key attr v R' = (Inl TemporarilyUnavailable, R'))"
proof -
  have "for_blocks (held_by c en domain item) R'"
    using held.run_holds [of c en domain item R es] assms(1-3) by (simp add: for_blocks_def held_by_def)
  then have h: "rt_owner (rs_state rs) = Some c \<and> rt_enabled (rs_state rs) = en \<and> rt_conn (rs_state rs) = (if en then Some c else None)"
    using map_of_SomeD [OF assms(4)] assms(5,6) by (auto simp: for_blocks_def held_by_def)
  then show ?thesis
    using check_rcb_write_held [of rs c] assms(4) by (simp add: write_block_def)
qed

definition held_plant :: report_manager where
  "held_plant = (plant_start 0)\<lparr>rm_registry := [(registry_key (ascii ''LD'') (ascii ''LN$BR$b''),
     plant_block\<lparr>rs_state := runtime_default\<lparr>rt_enabled := True, rt_conn := Some 1, rt_owner := Some 1\<rparr>\<rparr>)]\<rparr>"

theorem held_block_witness:
  "write_block None 2 None [] [] (registry_key (ascii ''LD'') (ascii ''LN$BR$b'')) (ascii ''Resv'') (BooleanV True)
      (report_run [ROpen 2 plant_conn, plant_write 2 ''RptEna'' (BooleanV False)] held_plant) =
    (Inl TemporarilyUnavailable, report_run [ROpen 2 plant_conn, plant_write 2 ''RptEna'' (BooleanV False)] held_plant)"
proof -
  define es where "es = [ROpen 2 plant_conn, plant_write 2 ''RptEna'' (BooleanV False)]"
  define key where "key = registry_key (ascii ''LD'') (ascii ''LN$BR$b'')"
  define rs where "rs = plant_block\<lparr>rs_state := runtime_default\<lparr>rt_enabled := True, rt_conn := Some 1, rt_owner := Some 1\<rparr>\<rparr>"
  have R: "rm_registry held_plant = [(key, rs)]" by (simp add: held_plant_def key_def rs_def)
  have f: "rs_domain rs = ascii ''LD''" "rs_item rs = ascii ''LN$BR$b''" "rt_owner (rs_state rs) = Some 1"
    "rt_enabled (rs_state rs)" "rt_conn (rs_state rs) = Some 1"
    by (simp_all add: rs_def plant_block_def)
  have "rcb_key (ascii ''LD'') (ascii ''LN$BR$b$RptEna'') = Some (key, ascii ''RptEna'')"
    unfolding key_def by code_simp
  then have "report_run es held_plant = with_conns (\<lambda>t. t(2 \<mapsto> plant_conn)) held_plant"
    using check_rcb_write_held [OF f(3), of 2]
    by (simp add: es_def report_run_def plant_write_def write_block_def with_conns_def R)
  then have "map_of (rm_registry (report_run es held_plant)) key = Some rs"
    by (simp add: with_conns_def R)
  moreover have "admits (\<lambda>conn. conn \<noteq> 1) (\<lambda>conn _. conn \<noteq> 1) False es held_plant"
    by (simp add: es_def plant_write_def)
  ultimately show ?thesis
    using held_block [of held_plant "ascii ''LD''" "ascii ''LN$BR$b''" 1 True es, OF _ _ refl, of key rs] f
    by (simp only: R es_def [symmetric] key_def [symmetric]) simp
qed

section \<open>Delivery after EntryID\<close>

text \<open>The entries as they are handed over one after the other: BufOvfl is in the first.\<close>

definition handed_over :: "bool \<Rightarrow> report_entry list \<Rightarrow> (report_entry \<times> bool option) list" where
  "handed_over ovfl es = (case es of [] \<Rightarrow> [] | e # es' \<Rightarrow> (e, Some ovfl) # map (\<lambda>e. (e, Some False)) es')"

lemma handed_over_simps [simp]:
  "handed_over ovfl [] = []" "handed_over ovfl (e # es) = (e, Some ovfl) # map (\<lambda>e. (e, Some False)) es"
  "handed_over False es = map (\<lambda>e. (e, Some False)) es"
  by (cases es; simp add: handed_over_def)+

lemma send_pdus_in_request:
  "in_request (sc_held sc) \<Longrightarrow> send_pdus pdus sc =
     (True, sc\<lparr>sc_held := (sc_held sc)\<lparr>after := after (sc_held sc) @ map unconfirmed_pdu pdus\<rparr>\<rparr>)"
  by (induction pdus arbitrary: sc) (simp_all add: send_unconfirmed_def send_held_in_request)

lemma transmit_in_request:
  assumes "rt_conn st = Some c" "en_conns E c = Some sc" "in_request (sc_held sc)"
  obtains E' sc' st' where "transmit rs e (E, st) = (E', st')" "en_conns E' c = Some sc'" "in_request (sc_held sc')"
    "rt_conn st' = Some c" "rt_past st' = rt_past st @ [(e, Some (rt_buf_overflow st))]" "\<not> rt_buf_overflow st'"
    "rt_buffer st' = rt_buffer st" "rt_next st' = rt_next st"
proof -
  obtain E1 st1 where q: "set_sq_num rs (rt_sq_num st + 1) (E, st) = (E1, st1)" by fastforce
  then have "en_conns E1 = en_conns E" "\<exists>n. st1 = st\<lparr>rt_sq_num := n\<rparr>"
    by (auto simp: set_sq_num_def Let_def split: if_splits)
  with q that assms show ?thesis
    by (auto simp: transmit_def send_pdus_in_request note_past_def Let_def)
qed

lemma transmit_buffered_in_request:
  assumes "rt_conn st = Some c" "en_conns E c = Some sc" "in_request (sc_held sc)" "rt_next st \<le> length (rt_buffer st)"
    "st' = snd (transmit_buffered rs (E, st))"
  shows "rt_next st' = length (rt_buffer st) \<and> rt_buffer st' = rt_buffer st \<and>
    rt_past st' = rt_past st @ handed_over (rt_buf_overflow st) (drop (rt_next st) (rt_buffer st))"
  using assms
proof (induction "length (rt_buffer st) - rt_next st" arbitrary: E st sc)
  case 0
  then show ?case by (simp add: transmit_buffered.simps [of rs E st])
next
  case (Suc n)
  let ?e = "rt_buffer st ! rt_next st"
  from Suc(2) have lt: "rt_next st < length (rt_buffer st)" by simp
  obtain E1 sc1 st1 where t: "transmit rs ?e (E, st) = (E1, st1)" "en_conns E1 c = Some sc1" "in_request (sc_held sc1)"
    "rt_conn st1 = Some c" "rt_past st1 = rt_past st @ [(?e, Some (rt_buf_overflow st))]" "\<not> rt_buf_overflow st1"
    "rt_buffer st1 = rt_buffer st" "rt_next st1 = rt_next st"
    by (rule transmit_in_request [OF Suc.prems(1-3)])
  have "st' = snd (transmit_buffered rs (E1, st1\<lparr>rt_next := Suc (rt_next st1)\<rparr>))"
    using Suc.prems(5) lt t(1) by (simp add: transmit_buffered.simps [of rs E st])
  with Suc.hyps(1) [of "st1\<lparr>rt_next := Suc (rt_next st1)\<rparr>" E1 sc1] Suc(2) t lt show ?case
    by (simp add: Cons_nth_drop_Suc [OF lt, symmetric])
qed

lemma resync_result:
  assumes "rt_resync_id st = Some i" "rt_buffer st = B" "rt_buf_overflow st = o'"
    and "k = (if is_zero_entry_id i then 0 else case position (\<lambda>e. re_id e = i) B of None \<Rightarrow> 0 | Some j \<Rightarrow> j + 1)"
  shows "rt_next (resync st) = k" "rt_buffer (resync st) = B" "rt_past (resync st) = []"
    "rt_buf_overflow (resync st) = (o' \<or> (\<not> is_zero_entry_id i \<and> position (\<lambda>e. re_id e = i) B = None))" "k \<le> length B"
  using assms by (auto simp: resync_def buffer_index_def Let_def Suc_le_eq position_less split: option.split)

lemma before_resume:
  assumes "b = apsnd stop_integrity (set_sq_num rs 0 (if rt_owner st \<noteq> Some conn then take_block rs conn ip (E, st) else (E, st)))"
  shows "en_conns (fst b) = en_conns E" "rt_conn (snd b) = rt_conn st" "rt_buffer (snd b) = rt_buffer st"
    "rt_resync_id (snd b) = rt_resync_id st" "rt_buf_overflow (snd b) = rt_buf_overflow st"
  unfolding assms
  by (auto simp: set_sq_num_def take_block_def sync_resv_def stop_resv_timer_def stop_integrity_def Let_def)

text \<open>
  C9. A client that wrote an EntryID and enables a buffered block is handed, during that request,
  exactly the buffered entries after the one with this identifier, all of the buffer if the
  identifier is zero or no longer there, each once and in order. BufOvfl is in the first of them if
  it was set before or the identifier is not there, and in no other.
\<close>

theorem resync_delivers:
  assumes "rs_buffered rs" "rt_resync_id st = Some i" "en_conns E conn = Some sc" "in_request (sc_held sc)"
    and "st' = snd (enable rs conn ip (E, st))"
    and "k = (if is_zero_entry_id i then 0 else case buffer_index i st of None \<Rightarrow> 0 | Some j \<Rightarrow> j + 1)"
  shows "rt_past st' = handed_over (rt_buf_overflow st \<or> (\<not> is_zero_entry_id i \<and> buffer_index i st = None)) (drop k (rt_buffer st)) \<and>
    rt_buffer st' = rt_buffer st \<and> rt_next st' = length (rt_buffer st)"
proof -
  define st1 where "st1 = st\<lparr>rt_enabled := True, rt_conn := Some conn\<rparr>"
  define b where "b = apsnd stop_integrity (set_sq_num rs 0 (if rt_owner st1 \<noteq> Some conn then take_block rs conn ip (E, st1) else (E, st1)))"
  have "enable rs conn ip (E, st) = start_integrity rs (resume_delivery rs b)"
    by (simp only: enable_def prod.case Let_def b_def st1_def)
  moreover obtain E2 st2 where r: "resume_delivery rs b = (E2, st2)" by fastforce
  ultimately have st': "rt_past st' = rt_past st2 \<and> rt_buffer st' = rt_buffer st2 \<and> rt_next st' = rt_next st2"
    using assms(5) by (simp add: start_integrity_def)
  note f = before_resume [OF b_def]
  have q: "rt_resync_id (snd b) = Some i" "rt_buffer (snd b) = rt_buffer st" "rt_buf_overflow (snd b) = rt_buf_overflow st"
    using f assms(2) by (simp_all add: st1_def)
  note g = resync_result [OF q assms(6) [unfolded buffer_index_def]]
  have "st2 = snd (transmit_buffered rs (fst b, resync (snd b)))"
    using r assms(1) by (cases b) (simp add: resume_delivery_def)
  moreover have "rt_conn (resync (snd b)) = Some conn" "en_conns (fst b) conn = Some sc"
    using f assms(3) by (simp_all add: st1_def)
  ultimately have "rt_next st2 = length (rt_buffer (resync (snd b))) \<and> rt_buffer st2 = rt_buffer (resync (snd b)) \<and> rt_past st2 =
      rt_past (resync (snd b)) @ handed_over (rt_buf_overflow (resync (snd b))) (drop (rt_next (resync (snd b))) (rt_buffer (resync (snd b))))"
    using transmit_buffered_in_request [of "resync (snd b)" conn "fst b" sc st2 rs] assms(4) g(1,2,5) by simp
  then show ?thesis
    using st' by (simp add: g(1-4) buffer_index_def)
qed

theorem resync_delivers_witness:
  "let e = (\<lambda>n. plant_window\<lparr>re_id := [0, 0, 0, 0, 0, 0, 0, n]\<rparr>);
       st = runtime_default\<lparr>rt_buffer := [e 1, e 2, e 3], rt_next := 3, rt_resync_id := Some (re_id (e 1))\<rparr>
   in rt_past (snd (enable plant_block 1 None ((rm_engine (plant_start 0))\<lparr>en_conns := [1 \<mapsto> plant_conn]\<rparr>, st))) =
        [(e 2, Some False), (e 3, Some False)]"
proof -
  define e where "e n = plant_window\<lparr>re_id := [0, 0, 0, 0, 0, 0, 0, n]\<rparr>" for n :: u8
  define st where "st = runtime_default\<lparr>rt_buffer := [e 1, e 2, e 3], rt_next := 3, rt_resync_id := Some (re_id (e 1))\<rparr>"
  have "buffer_index (re_id (e 1)) st = Some 0" "\<not> is_zero_entry_id (re_id (e 1))" "\<not> rt_buf_overflow st"
    by (simp_all add: buffer_index_def st_def e_def is_zero_entry_id_def runtime_default_def)
  then show ?thesis
    using resync_delivers [of plant_block st "re_id (e 1)" "(rm_engine (plant_start 0))\<lparr>en_conns := [1 \<mapsto> plant_conn]\<rparr>" 1 plant_conn,
        OF _ _ _ _ refl refl, of None]
    by (simp add: Let_def plant_block_def plant_conn_def flip: e_def) (simp add: st_def)
qed

text \<open>
  C37. Reports sent during a request are all accepted, and when the request is answered only as many
  enter the queue of the association as there is room for. The others are dropped, and
  neither the sender nor the block learns of it.
\<close>

theorem held_reports_dropped:
  assumes "in_request (sc_held sc)" "after (sc_held sc) = []" "length (sc_queue sc) \<le> UNCONFIRMED_QUEUE_DEPTH"
  shows "fst (send_pdus pdus sc) \<and> sc_queue (snd (finish_request invoke_id result (snd (send_pdus pdus sc)))) =
    sc_queue sc @ take (UNCONFIRMED_QUEUE_DEPTH - length (sc_queue sc)) (map unconfirmed_pdu pdus)"
proof -
  have "length (sc_queue (sc\<lparr>sc_held := h\<rparr>)) \<le> UNCONFIRMED_QUEUE_DEPTH" for h using assms(3) by simp
  from finish_request_queue [OF this] assms show ?thesis
    by (simp add: finish_request_def send_pdus_in_request Let_def)
qed

theorem held_reports_dropped_witness:
  "fst (send_pdus (replicate 600 (prim TAG_NULL [])) plant_conn) \<and>
   length (sc_queue (snd (finish_request 1 (Inl ReportQueueFull) (snd (send_pdus (replicate 600 (prim TAG_NULL [])) plant_conn))))) = 512"
  using held_reports_dropped [of plant_conn "replicate 600 (prim TAG_NULL [])" 1 "Inl ReportQueueFull"]
  by (simp add: plant_conn_def UNCONFIRMED_QUEUE_DEPTH_def)

section \<open>A report at the client\<close>

text \<open>
  C4. What the server sends for an entry of a control block is what the client reads. The octets of every
  PDU of the report decode; the entries of the decoded reports, one report after the other, are the members of the
  entry in their order, each with its index in the data set, its reference and functional
  constraint, its value and, with that option, its reason. A report that does not fit into one PDU
  is numbered from 0 by its sub-sequence number and all but the last say that more follow; a PDU that
  exceeds the negotiated size carries a single member. The values are those the wire keeps.
\<close>

theorem report_received:
  assumes "block_members E rs = Some members" "entry_wf (length members) e"
    and "list_all (\<lambda>v. data_ok v \<and> value_depth v \<le> MAX_VALUE_DEPTH) (re_values e)"
    and "rpt_id = rpt_id_of (attr_text E rs ''RptID'') (rs_domain rs) (rs_item rs)" "utf8_valid rpt_id" "utf8_valid (attr_text E rs ''DatSet'')"
    and "opt = effective_opt_flds (rcb_opt_flds (en_model E) rs) (rs_buffered rs)"
    and "pdus = report_pdus E rs e seq ovfl max_pdu" "list_all (\<lambda>pdu. elem_size pdu < 2 ^ 32) pdus"
  shows "\<exists>reports. list_all2 (client_reads show' members) pdus reports \<and>
    concat (map cr_entries reports) = map (received_item opt e members) [0..<length (re_members e)] \<and>
    (\<forall>k < length reports. cr_rpt_id (reports ! k) = rpt_id \<and> cr_sub_seq_num (reports ! k) = ucast (of_nat k :: u16) \<and>
      (cr_more_follows (reports ! k) \<longleftrightarrow> Suc k < length reports) \<and>
      (pdu_fits max_pdu (pdus ! k) \<or> length (cr_entries (reports ! k)) = 1))"
proof -
  define f where "f = \<lparr>rf_rpt_id = rpt_id, rf_dat_set = attr_text E rs ''DatSet'',
    rf_conf_rev = (case attr_value (en_model E) rs ''ConfRev'' of None \<Rightarrow> 0 | Some v \<Rightarrow> as_u32 v),
    rf_opt = opt, rf_seq = seq, rf_buf_ovfl = ovfl, rf_buffered = rs_buffered rs\<rparr>"
  have f: "\<not> opt_has (rf_opt f) OPT_SEGMENTATION" "utf8_valid (rf_rpt_id f)" "utf8_valid (rf_dat_set f)" "rf_opt f = opt" "rf_rpt_id f = rpt_id"
    using assms(5,6) effective_no_segmentation by (simp_all add: f_def assms(7))
  let ?n = "length (re_members e)"
  let ?whole = "report_element f e members 0 ?n None"
  have pdus: "pdus = (if pdu_fits max_pdu ?whole then [?whole] else report_segments (report_element f e members) (pdu_fits max_pdu) ?n 0 0)"
    using assms(1,4,7,8) by (simp add: report_pdus_def f_def Let_def)
  have reads: "client_reads show' members (report_element f e members a b seg) (received_report f e members a b seg)"
    if "report_element f e members a b seg \<in> set pdus" "b \<le> ?n" for a b seg
    using element_received [OF assms(2) that(2) f(1-3) assms(3)] that(1) assms(9) by (simp add: list_all_iff)
  show ?thesis
  proof (cases "pdu_fits max_pdu ?whole")
    case True
    with reads [of 0 ?n None] pdus f(4,5) show ?thesis
      by (intro exI [of _ "[received_report f e members 0 ?n None]"]) (simp add: received_report_def Let_def)
  next
    case False
    then have seg: "pdus = report_segments (report_element f e members) (pdu_fits max_pdu) ?n 0 0" using pdus by simp
    show ?thesis
      by (rule segment_reports [OF refl seg reads]) (use f(4,5) in blast)+
  qed
qed

text \<open>The example with a control block that has only a data set and options.\<close>

definition small_plant :: model where
  "small_plant = \<lparr>md_name = [], md_devices = [\<lparr>ld_name = ascii ''LD'', ld_inst = [], ld_nodes =
     [\<lparr>ln_name = ascii ''LN'', ln_class = [],
       ln_objects = [DataObject (ascii ''b'') [] [] (map (rcb_attr FcBr)
         [(''DatSet'', VisibleStringV (ascii ''LD/LN$ds'')), (''OptFlds'', or_no_value (opt_value OPT_REASON_CODE))])],
       ln_data_sets = [\<lparr>ds_name = ascii ''ds'', ds_entries = [\<lparr>fcda_reference = ascii ''LD/LN.Ind.stVal'', fcda_fc = FcSt,
         fcda_fc_name = ascii ''ST''\<rparr>], ds_deletable = False\<rparr>],
       ln_report_controls = [], ln_gse_controls = [], ln_sv_controls = [], ln_log_controls = [], ln_setting_control = None,
       ln_logs = []\<rparr>]\<rparr>], md_diagnostics = [], md_setting_groups = []\<rparr>"

definition small_engine :: report_engine where
  "small_engine = \<lparr>en_model = small_plant, en_conns = Map.empty, en_counter = 0, en_seed = 0, en_clock = (\<lambda>_. 0), en_reads = 0,
     en_owner = True, en_runtime = True, en_show = (\<lambda>_. [])\<rparr>"

definition small_members :: "ds_member list" where
  "small_members = [\<lparr>dm_domain = ascii ''LD'', dm_item = ascii ''LN$ST$Ind$stVal''\<rparr>]"

theorem report_received_witness:
  "\<exists>reports. list_all2 (client_reads (\<lambda>_. []) small_members) (report_pdus small_engine plant_block plant_window 0 False 0) reports \<and>
     map (\<lambda>i. (ri_index i, ri_value i)) (concat (map cr_entries reports)) = [(0, BooleanV True)]"
proof -
  have m: "block_members small_engine plant_block = Some small_members" by code_simp
  have t: "attr_text small_engine plant_block ''RptID'' = []" "attr_text small_engine plant_block ''DatSet'' = ascii ''LD/LN$ds''"
    by code_simp+
  have u: "utf8_valid (rpt_id_of [] (rs_domain plant_block) (rs_item plant_block))" "utf8_valid (ascii ''LD/LN$ds'')"
    by code_simp+
  have "list_all (\<lambda>pdu. elem_size pdu < 200) (report_pdus small_engine plant_block plant_window 0 False 0)" by code_simp
  then have "list_all (\<lambda>pdu. elem_size pdu < 2 ^ 32) (report_pdus small_engine plant_block plant_window 0 False 0)"
    by (auto simp: list_all_iff)
  moreover have "entry_wf (length small_members) plant_window"
    "list_all (\<lambda>v. data_ok v \<and> value_depth v \<le> MAX_VALUE_DEPTH) (re_values plant_window)"
    by (simp_all add: entry_wf_def plant_window_def small_members_def)
  ultimately obtain reports where "list_all2 (client_reads (\<lambda>_. []) small_members) (report_pdus small_engine plant_block plant_window 0 False 0) reports"
    "concat (map cr_entries reports) = map (received_item (effective_opt_flds (rcb_opt_flds (en_model small_engine) plant_block) (rs_buffered plant_block))
       plant_window small_members) [0..<length (re_members plant_window)]"
    using report_received [OF m _ _ refl _ _ refl refl, of plant_window 0 False 0 "\<lambda>_. []"] u unfolding t by blast
  then show ?thesis
    by (intro exI [of _ reports]) (simp add: plant_window_def received_item_def Let_def split: prod.split)
qed

section \<open>What is reported\<close>

text \<open>Both kinds of entry collect, member by member, a value and a reason where there are any.\<close>

lemma collect_entry:
  fixes g :: "ds_member \<Rightarrow> (mms_value \<times> reason_code) option" and members :: "ds_member list"
  defines "js \<equiv> filter (\<lambda>i. g (members ! i) \<noteq> None) [0..<length members]"
  assumes "e = fold (\<lambda>(i, mem) e. case g mem of None \<Rightarrow> e | Some (v, r) \<Rightarrow> add_member i v r e) (List.enumerate 0 members) (entry_new now)"
  shows "re_members e = js \<and> re_values e = map (\<lambda>i. fst (the (g (members ! i)))) js \<and> re_reasons e = map (\<lambda>i. snd (the (g (members ! i)))) js"
  unfolding assms
proof (induction members rule: rev_induct)
  case (snoc x xs)
  have f: "filter (\<lambda>i. g ((xs @ [x]) ! i) \<noteq> None) [0..<length xs] = filter (\<lambda>i. g (xs ! i) \<noteq> None) [0..<length xs]"
    by (rule filter_cong) (simp_all add: nth_append)
  have m: "map (\<lambda>i. h (g ((xs @ [x]) ! i))) (filter (\<lambda>i. g (xs ! i) \<noteq> None) [0..<length xs]) =
      map (\<lambda>i. h (g (xs ! i))) (filter (\<lambda>i. g (xs ! i) \<noteq> None) [0..<length xs])" for h :: "_ \<Rightarrow> 'b"
    by (rule map_cong) (auto simp: nth_append)
  show ?case
    using snoc.IH f m [of "\<lambda>y. fst (the y)"] m [of "\<lambda>y. snd (the y)"]
    by (cases "g x") (auto simp: enumerate_append_eq add_member_def)
qed (simp add: entry_new_def)

lemma change_entry_collects:
  "change_entry m want cs members e =
     fold (\<lambda>(i, mem) e. case (if member_reason cs mem AND want = 0 then None
         else map_option (\<lambda>v. (v, member_reason cs mem AND want)) (item_value m (dm_domain mem) (dm_item mem))) of
         None \<Rightarrow> e | Some (v, r) \<Rightarrow> add_member i v r e) (List.enumerate 0 members) e"
  unfolding change_entry_def by (intro fold_cong) (auto simp: Let_def split: option.split)

lemma member_reason_and:
  assumes "from_mms (dm_domain mem) (dm_item mem) = (reference, fc)"
  shows "member_reason cs mem AND want \<noteq> 0 \<longleftrightarrow>
    (\<exists>changed t. ((changed, fc), t) \<in> set cs \<and> touches reference changed \<and> t AND want \<noteq> 0)"
proof -
  have "fold (\<lambda>((changed, cfc), t) r. if cfc \<noteq> fc then r else if touches reference changed then r OR t else r) cs r0 AND want \<noteq> 0 \<longleftrightarrow>
      r0 AND want \<noteq> 0 \<or> (\<exists>changed t. ((changed, fc), t) \<in> set cs \<and> touches reference changed \<and> t AND want \<noteq> 0)" for r0
    by (induction cs arbitrary: r0) (auto simp: bit.conj_disj_distrib2 or_eq_0_iff split: if_splits, blast)
  then show ?thesis
    using assms by (simp add: member_reason_def)
qed

text \<open>
  C14. The entry that an update makes for a control block has exactly the members of its data set that have
  a value and that a change with a trigger the block wants touches: one of the same functional
  constraint on the member itself, a part of it or something it is part of. The members are in ascending order, each once,
  with the value they have now and the triggers that were wanted.
\<close>

theorem change_reported:
  "let e = change_entry m want cs members (entry_new now) in entry_wf (length members) e \<and>
    (\<forall>i. i \<in> set (re_members e) \<longleftrightarrow> i < length members \<and>
       item_value m (dm_domain (members ! i)) (dm_item (members ! i)) \<noteq> None \<and>
       (\<exists>changed t. ((changed, snd (from_mms (dm_domain (members ! i)) (dm_item (members ! i)))), t) \<in> set cs \<and>
          touches (fst (from_mms (dm_domain (members ! i)) (dm_item (members ! i)))) changed \<and> t AND want \<noteq> 0)) \<and>
    map Some (re_values e) = map (\<lambda>i. item_value m (dm_domain (members ! i)) (dm_item (members ! i))) (re_members e) \<and>
    re_reasons e = map (\<lambda>i. member_reason cs (members ! i) AND want) (re_members e)"
proof -
  define e where "e = change_entry m want cs members (entry_new now)"
  define js where "js = filter (\<lambda>i. member_reason cs (members ! i) AND want \<noteq> 0 \<and>
      item_value m (dm_domain (members ! i)) (dm_item (members ! i)) \<noteq> None) [0..<length members]"
  define g where "g mem = (if member_reason cs mem AND want = 0 then None
      else map_option (\<lambda>v. (v, member_reason cs mem AND want)) (item_value m (dm_domain mem) (dm_item mem)))" for mem
  have js: "js = filter (\<lambda>i. g (members ! i) \<noteq> None) [0..<length members]"
    unfolding js_def by (rule filter_cong) (auto simp: g_def)
  have "e = fold (\<lambda>(i, mem) e. case g mem of None \<Rightarrow> e | Some (v, r) \<Rightarrow> add_member i v r e) (List.enumerate 0 members) (entry_new now)"
    by (simp only: e_def change_entry_collects g_def)
  from collect_entry [OF this, folded js]
  have e: "re_members e = js" "re_values e = map (\<lambda>i. the (item_value m (dm_domain (members ! i)) (dm_item (members ! i)))) js"
    "re_reasons e = map (\<lambda>i. member_reason cs (members ! i) AND want) js"
    by (auto simp: js_def g_def)
  have "sorted_wrt (<) js" by (simp add: js_def sorted_wrt_filter)
  moreover have "i \<in> set js \<longleftrightarrow> i < length members \<and> item_value m (dm_domain (members ! i)) (dm_item (members ! i)) \<noteq> None \<and>
       (\<exists>changed t. ((changed, snd (from_mms (dm_domain (members ! i)) (dm_item (members ! i)))), t) \<in> set cs \<and>
          touches (fst (from_mms (dm_domain (members ! i)) (dm_item (members ! i)))) changed \<and> t AND want \<noteq> 0)" for i
    using member_reason_and [of "members ! i" _ _ cs want, OF surjective_pairing] by (auto simp: js_def)
  ultimately show ?thesis
    unfolding Let_def e_def [symmetric] using e by (auto simp: entry_wf_def list_all_iff js_def)
qed

text \<open>The rows of an entry: a member with its value and its reason.\<close>

definition rows :: "report_entry \<Rightarrow> (nat \<times> mms_value \<times> reason_code) list" where
  "rows e = zip (re_members e) (zip (re_values e) (re_reasons e))"

lemma insert_at_simps [simp]: "insert_at 0 x xs = x # xs" "insert_at (Suc k) x (y # xs) = y # insert_at k x xs"
  by (simp_all add: insert_at_def)

lemma insert_at_set [simp]: "set (insert_at k x xs) = insert x (set xs)"
proof -
  have "set xs = set (take k xs) \<union> set (drop k xs)" by (metis append_take_drop_id set_append)
  then show ?thesis by (auto simp: insert_at_def)
qed

lemma insert_at_zip: "length xs = length ys \<Longrightarrow> zip (insert_at k x xs) (insert_at k y ys) = insert_at k (x, y) (zip xs ys)"
  by (simp add: insert_at_def take_zip drop_zip)

lemma insert_at_length [simp]: "length (insert_at k x xs) = Suc (length xs)"
  by (simp add: insert_at_def)

lemma insert_at_sorted:
  "sorted_wrt (<) xs \<Longrightarrow> x \<notin> set xs \<Longrightarrow> sorted_wrt (<) (insert_at (partition_point (\<lambda>m. m < x) xs) x xs)" for x :: nat
  by (induction xs) (auto simp: partition_point_def not_less dest: le_neq_implies_less order.strict_trans)

lemma rows_insert:
  assumes "entry_wf n e" "idx < n" "idx \<notin> set (re_members e)"
  shows "entry_wf n (entry_insert idx v r e) \<and> set (rows (entry_insert idx v r e)) = insert (idx, v, r) (set (rows e))"
  using assms by (auto simp: entry_wf_def entry_insert_def rows_def Let_def insert_at_zip insert_at_sorted list_all_iff)

text \<open>
  C15. Collecting events in a buffer-time window loses and overwrites nothing. An event that has no
  member in common with the window is merged into it: the window stays well formed, with the
  members in ascending order, and has the rows of both.
\<close>

theorem window_merged:
  assumes "entry_wf n p" "entry_wf n e" "\<not> overlaps p e"
  shows "entry_wf n (entry_merge p e) \<and> set (rows (entry_merge p e)) = set (rows p) \<union> set (rows e)"
proof -
  have "entry_wf n (fold (\<lambda>((idx, v), r). entry_insert idx v r) (zip (zip ms vs) rs) p) \<and>
      set (rows (fold (\<lambda>((idx, v), r). entry_insert idx v r) (zip (zip ms vs) rs) p)) = set (rows p) \<union> set (zip ms (zip vs rs))"
    if "length vs = length ms" "length rs = length ms" "sorted_wrt (<) ms" "list_all (\<lambda>m. m < n) ms" "set ms \<inter> set (re_members p) = {}" "entry_wf n p"
    for ms vs rs
    using that
  proof (induction ms arbitrary: p vs rs)
    case (Cons m ms)
    then obtain v vs' r rs' where [simp]: "vs = v # vs'" "rs = r # rs'" by (cases vs; cases rs) auto
    have i: "entry_wf n (entry_insert m v r p)" "set (rows (entry_insert m v r p)) = insert (m, v, r) (set (rows p))"
      using rows_insert [of n p m v r] Cons.prems by simp_all
    have "set (re_members (entry_insert m v r p)) = insert m (set (re_members p))"
      by (simp add: entry_insert_def Let_def)
    with Cons.IH [of vs' rs' "entry_insert m v r p"] Cons.prems i show ?case by auto
  qed simp
  then show ?thesis
    using assms by (auto simp: entry_merge_def entry_wf_def overlaps_def list_ex_iff rows_def)
qed

theorem window_merged_witness:
  "entry_wf 2 (entry_merge plant_window (plant_window\<lparr>re_members := [1]\<rparr>)) \<and> re_members (entry_merge plant_window (plant_window\<lparr>re_members := [1]\<rparr>)) = [0, 1]"
  using window_merged [of 2 plant_window "plant_window\<lparr>re_members := [1]\<rparr>"]
  by (simp add: entry_wf_def plant_window_def overlaps_def entry_merge_def entry_insert_def partition_point_def insert_at_def Let_def)

end
