(* ===== verification/Spec2Isabelle.thy ===== *)
theory Spec2Isabelle
  imports Asn1_Correct Osi_Correct Mms_Correct Goose_Correct Sv_Correct Server_Correct Report_Correct
begin

text \<open>
  A verification of \<open>rs-iec61850\<close>, an IEC 61850 protocol stack in Rust: the client/server
  protocol MMS over the OSI stack, the layer-2 protocols GOOSE and sampled values, and a server
  that offers a data model with its control and reporting services. File names below are relative to
  \<open>src/src/\<close>.

  \<^bold>\<open>How the program is modelled.\<close> Rust integers are words of their width, and wrap where the code
  wraps; \<open>usize\<close> is a natural number where the code cannot overflow it. A slice or \<open>Vec<u8>\<close> is a
  list of octets, a \<open>String\<close> its UTF-8 octets, a float its IEEE bit pattern. \<open>Result\<close> is a sum with
  the error on the left and \<open>?\<close> is \<^const>\<open>try_bind\<close>; a panic is the value \<^const>\<open>None\<close>, so that a
  theorem of the form \<open>\<dots> = Some \<dots>\<close> says that there is none. A method on \<open>&mut self\<close> returns the
  new state; a mutable borrow of a part is the part together with the function that puts a new
  one back. Structures are records, enumerations datatypes, hash maps maps or association lists.
  A \<open>SystemTime\<close> is its signed nanoseconds since 1970 and an \<open>Instant\<close> a number of nanoseconds;
  clocks and interfaces are arguments. Threads are sequences of critical sections or turns that
  interleave freely.

  \<^bold>\<open>The layers.\<close>

  \<^item> \<^emph>\<open>Vocabulary.\<close> \<open>Prelude\<close> holds machine types, results and byte order, \<open>Rust_Float\<close> the float
    conversions, \<open>Rust_String\<close> and \<open>Rust_Text\<close> UTF-8 and the string operations of the standard
    library.

  \<^item> \<^emph>\<open>BER\<close> (\<open>asn1/\<close>). \<open>Asn1_Tag\<close> models \<open>mod.rs\<close>, \<open>Asn1_Decoder\<close> \<open>decoder.rs\<close> with indefinite
    lengths and the nesting limit, \<open>Asn1_Primitives\<close> \<open>primitives.rs\<close>, \<open>Asn1_Element\<close> \<open>element.rs\<close>
    and \<open>Asn1_Oid\<close> \<open>oid.rs\<close>. \<open>Asn1_Fields\<close> is the rule set that evaluates a decoder on encoded
    fields. \<open>Asn1_Correct\<close> shows that what is written is read back, that reads stay inside the
    buffer, that truncated input and deep nesting are refused, and where a size is wrong.

  \<^item> \<^emph>\<open>OSI\<close> (\<open>osi/\<close>). \<open>Osi_Transport\<close> models \<open>tpkt.rs\<close> and \<open>cotp.rs\<close>, \<open>Osi_Session\<close> \<open>session.rs\<close>
    over any transport with the laws of the locale \<open>tsdu_transport\<close>, which COTP satisfies.
    \<open>Osi_Correct\<close> shows that a unit of any length crosses segmentation unchanged, that both ends
    of the handshake agree, and that session messages arrive.

  \<^item> \<^emph>\<open>MMS data\<close> (\<open>mms/\<close>, \<open>time_util.rs\<close>). \<open>Time_Util\<close> holds the calendar, \<open>Mms_Value\<close> values,
    timestamps and errors, \<open>Mms_Codec\<close> the encoding of values, \<open>Mms_TypeSpec\<close> type specifications.
    \<open>Mms_Correct\<close> shows the round trips, what a decoded value or type can be, the accuracy of
    times, and that the bounds on types limit values but not octets.

  \<^item> \<^emph>\<open>Layer 2\<close> (\<open>ethernet/\<close>, \<open>goose/\<close>, \<open>sv/\<close>). \<open>Ethernet\<close> models frames and the in-memory segment,
    an instance of the locale \<open>segment\<close>. \<open>Goose_Message\<close>, \<open>Goose_Publisher\<close> and \<open>Goose_Subscriber\<close>
    follow the files of their names; the publisher's retransmission tasks are pairs of critical
    sections that interleave with calls. \<open>Goose_Delivery\<close> connects both ends. \<open>Sv_Pdu\<close> and \<open>Sv_Le\<close>
    model \<open>pdu.rs\<close>, \<open>le.rs\<close>, \<open>publisher.rs\<close> and \<open>subscriber.rs\<close>. \<open>Goose_Correct\<close> and \<open>Sv_Correct\<close>
    show the order of the stream under every interleaving, that exactly what was published is
    delivered, that silence is reported once, and the round trips of the wire formats.

  \<^item> \<^emph>\<open>Data model\<close> (\<open>model/\<close>). \<open>Model_Quality\<close> models \<open>quality.rs\<close> with the locale \<open>flag_string\<close>,
    \<open>Model_Reference\<close> \<open>fc.rs\<close> and \<open>reference.rs\<close>, \<open>Model_Tree\<close> \<open>nodes.rs\<close>, \<open>Model_Control\<close>
    \<open>control.rs\<close> and the service codes. \<open>Model_Access\<close> proves the get and put laws of every level
    of the tree from the locale \<open>named_parts\<close>.

  \<^item> \<^emph>\<open>Server\<close> (\<open>server/\<close>, \<open>mms/server_conn.rs\<close>). \<open>Server_Access\<close> models \<open>access.rs\<close>, \<open>Server_Tx\<close>
    \<open>tx.rs\<close>, \<open>Server_Select\<close> \<open>select.rs\<close> with the locale \<open>reservations\<close>, \<open>Server_Command\<close> the
    commands and reports of \<open>control.rs\<close>, \<open>Server_Tracking\<close> \<open>tracking.rs\<close>, \<open>Server_Conn\<close> the
    sending side of an association, and \<open>Server_Control\<close> the handlers of \<open>handler.rs\<close> for reads
    and control writes with the terminations of \<open>control.rs\<close>. An execution of the server is
    \<^const>\<open>ctl_run\<close> on a list of events. \<open>Server_Exclusion\<close>, \<open>Server_Termination\<close> and
    \<open>Server_Exchange\<close> hold the invariants. \<open>Server_Correct\<close> shows that a reservation excludes other
    clients, that an operate is concluded at most once, the PDUs of a refused and of an accepted
    operate, that every control write is answered, that reads fit the reported types, and that
    what is written is read back.

  \<^item> \<^emph>\<open>Reports\<close> (\<open>server/rcb.rs\<close>, \<open>server/reporting.rs\<close>, \<open>mms/report.rs\<close>, \<open>client/report.rs\<close>).
    \<open>Server_Rcb\<close> models the control blocks, their runtime state and how they are made from the
    model, \<open>Server_Reporting\<close> the operations of the engine on one block, \<open>Server_Reports\<close> the engine
    over all blocks with the writes of \<open>handler.rs\<close> and the end of an association in \<open>server.rs\<close>.
    An execution is \<^const>\<open>report_run\<close> on a list of events; the timer tasks are events that may come
    at any time. \<open>Server_Blocks\<close> has the locale \<open>block_contract\<close>, by which an invariant of one block
    holds in all executions; \<open>Server_Delivery\<close> and \<open>Server_Holding\<close> interpret it for the buffer, for
    the holder and for a held block. \<open>Client_Report\<close> models what the client makes of a report and
    \<open>Report_Roundtrip\<close> relates both ends. \<open>Report_Correct\<close> shows that no entry of a buffered block is
    lost without BufOvfl unless an association ends during a buffer-time window, what is handed
    over after an EntryID, that a held block stays held, which members an update reports, that the
    client reads what the server sent, in segments or not, and three ways in which entries are
    lost or attributed to the wrong data set. Two fields of the runtime state, \<^const>\<open>rt_log\<close> and
    \<^const>\<open>rt_past\<close>, are histories for these statements; no operation reads them.

  \<^bold>\<open>Bounds.\<close> No definition uses fuel: loops over input recurse on what is left, and the nested
  decoders on content shorter than their element, so every function is total. Round trips assume
  contents below \<open>2 ^ 32\<close> octets, the largest length the decoder accepts, and nesting within the
  limits of the code (32 levels of values and types).

  \<^bold>\<open>Code outside the repository.\<close> The application's control handlers are functions in the state of
  the server, arbitrary in all theorems; so is the write hook of a control-block write. Interfaces are arbitrary functions in the publishers and
  subscribers; delivery theorems assume that a frame put on the interface is received.

  \<^bold>\<open>Not modelled.\<close>

  \<^item> \<open>osi/presentation.rs\<close>, \<open>osi/acse.rs\<close> and the remaining services of \<open>mms/\<close>: further PDUs.
  \<^item> Log, setting-group and sampled-value control blocks and files on the server (\<open>journal.rs\<close>,
    \<open>settinggroup.rs\<close>, \<open>svcb.rs\<close>, \<open>cb.rs\<close>, \<open>file.rs\<close>, \<open>services_ext.rs\<close>), and the tracking of
    control-block writes. In executions of the report engine an update is any new process image with any change
    set, which covers those of the control services but does not connect them.
  \<^item> \<open>client/\<close>, but for \<open>decode_report\<close>, and \<open>mms/conn.rs\<close>: calls that wait for an answer on a socket, through threads and
    channels.
  \<^item> \<open>rsession/\<close>, \<open>gdoi/\<close>, \<open>iec62351.rs\<close>, \<open>x509.rs\<close>: third-party ciphers, certificates and TLS.
  \<^item> \<open>scl/\<close> and \<open>sv/scl.rs\<close>: what is read goes through a third-party XML parser.
  \<^item> \<open>model/cdc.rs\<close> and \<open>model/lnclass.rs\<close>: constant tables of the standard's classes.
  \<^item> \<open>ethernet/afpacket.rs\<close> (system calls) and \<open>bin/\<close> (front ends).
  \<^item> Texts for people (\<open>Display\<close>; where \<open>Value::text\<close> falls back to it, it is the parameter
    \<^const>\<open>en_show\<close>), and interleavings inside the handling of one server request.
\<close>

end
